(* ===== verification/Lad_Prelude.thy ===== *)
theory Lad_Prelude
  imports Main "HOL-Library.Word"
begin

text \<open>
  Shared vocabulary of the development.  Go strings and byte slices are lists of bytes, and
  a byte is a \<^typ>\<open>char\<close> (256 values).  Go integers of width \<open>w\<close> are words of that width;
  a panic is a value of \<open>outcome\<close>; an \<open>error\<close> value records what the code observes of it
  through the interfaces \<open>error\<close>, \<open>errorGroup\<close> and \<open>fmt.Formatter\<close>.  The decimal
  formatting of \<open>strconv.AppendInt\<close> and \<open>strconv.AppendUint\<close> and the byte searches of
  \<open>strings\<close> and \<open>bytes\<close> are written out here because several components use them.
\<close>

unbundle bit_operations_syntax

named_theorems level_simps \<open>evaluation of levels and enablers\<close>
named_theorems enc_simps \<open>unfolding of the encoder operations\<close>
named_theorems core_simps \<open>unfolding of the core operations\<close>

section \<open>Types\<close>

type_synonym bytes = string
type_synonym int8 = "8 word"
type_synonym int16 = "16 word"
type_synonym int32 = "32 word"
type_synonym int64 = "64 word"
type_synonym uint8 = "8 word"
type_synonym uint16 = "16 word"
type_synonym uint32 = "32 word"
type_synonym uint64 = "64 word"

text \<open>A call either returns or panics with a message.\<close>

datatype 'a outcome = Ok 'a | Panic string

text \<open>
  A Go \<open>error\<close>: the result of its \<open>Error()\<close> method (which may panic), whether the dynamic
  value is a nil pointer, and which of the optional interfaces it implements.  The group of
  an \<open>errorGroup\<close> may contain nil errors, and its \<open>Errors()\<close> method may panic.
\<close>

datatype error =
  ErrV (err_msg: "string outcome") (err_nilptr: bool) (err_kind: err_kind)
and err_kind =
    EPlain
  | EGroup "error option list outcome"
  | EFormatter string

text \<open>\<open>errors.New\<close> and \<open>fmt.Errorf\<close> with the formatted text.\<close>

definition errors_new :: "string \<Rightarrow> error" where
  "errors_new s = ErrV (Ok s) False EPlain"

definition err_text :: "error \<Rightarrow> string" where
  "err_text e = (case err_msg e of Ok s \<Rightarrow> s | Panic m \<Rightarrow> m)"

section \<open>Bytes\<close>

abbreviation bval :: "char \<Rightarrow> nat" where
  "bval c \<equiv> of_char c"

definition byte :: "nat \<Rightarrow> char" where
  "byte n = char_of n"

lemma bval_less [simp]: "bval c < 256"
  using char_of_char of_char_mod_256 by (metis mod_less_divisor zero_less_numeral)

lemma bval_byte [simp]: "n < 256 \<Longrightarrow> bval (byte n) = n"
  by (simp add: byte_def)

lemma byte_bval [simp]: "byte (bval c) = c"
  by (simp add: byte_def)

lemma byte_eq [simp]: "n < 256 \<Longrightarrow> byte n = c \<longleftrightarrow> n = bval c"
  by (metis bval_byte byte_bval)

lemma bval_eq_iff: "bval c = bval d \<longleftrightarrow> c = d"
  by (metis byte_bval)

section \<open>Decimal numbers\<close>

definition digit :: "nat \<Rightarrow> char" where
  "digit d = char_of (48 + d)"

fun dec_nat :: "nat \<Rightarrow> string" where
  "dec_nat n = (if n < 10 then [digit n] else dec_nat (n div 10) @ [digit (n mod 10)])"

declare dec_nat.simps [simp del]

definition dec_int :: "int \<Rightarrow> string" where
  "dec_int i = (if i < 0 then CHR ''-'' # dec_nat (nat (- i)) else dec_nat (nat i))"

definition is_digit :: "char \<Rightarrow> bool" where
  "is_digit c \<longleftrightarrow> 48 \<le> bval c \<and> bval c \<le> 57"

definition digit_val :: "char \<Rightarrow> nat" where
  "digit_val c = bval c - 48"

definition undec_nat :: "string \<Rightarrow> nat" where
  "undec_nat s = foldl (\<lambda>n c. 10 * n + digit_val c) 0 s"

fun undec_int :: "string \<Rightarrow> int" where
  "undec_int (c # s) = (if c = CHR ''-'' then - int (undec_nat s) else int (undec_nat (c # s)))"
| "undec_int [] = 0"

lemma bval_digit [simp]: "d < 10 \<Longrightarrow> bval (digit d) = 48 + d"
  by (simp add: digit_def)

lemma is_digit_digit [simp]: "d < 10 \<Longrightarrow> is_digit (digit d)"
  by (simp add: is_digit_def)

lemma digit_val_digit [simp]: "d < 10 \<Longrightarrow> digit_val (digit d) = d"
  by (simp add: digit_val_def)

lemma dec_nat_small [simp]: "n < 10 \<Longrightarrow> dec_nat n = [digit n]"
  by (simp add: dec_nat.simps)

lemma dec_nat_big [simp]: "10 \<le> n \<Longrightarrow> dec_nat n = dec_nat (n div 10) @ [digit (n mod 10)]"
  by (subst dec_nat.simps) simp

lemma dec_nat_digits: "\<forall>c \<in> set (dec_nat n). is_digit c"
proof (induction n rule: dec_nat.induct)
  case (1 n)
  then show ?case by (cases "n < 10") auto
qed

lemma dec_nat_nonempty [simp]: "dec_nat n \<noteq> []"
  by (cases "n < 10") auto

lemma dec_int_nonempty [simp]: "dec_int i \<noteq> []"
  by (simp add: dec_int_def)

lemma undec_dec_nat [simp]: "undec_nat (dec_nat n) = n"
proof (induction n rule: dec_nat.induct)
  case (1 n)
  then show ?case by (cases "n < 10") (auto simp: undec_nat_def)
qed

lemma is_digit_minus [simp]: "\<not> is_digit (CHR ''-'')"
  by (simp add: is_digit_def)

lemma dec_nat_hd_digit [simp]: "is_digit (hd (dec_nat n))"
  using dec_nat_digits [of n] by (simp add: list.set_sel(1))

text \<open>Reading back what \<open>strconv.AppendInt\<close> printed.\<close>

lemma undec_dec_int [simp]: "undec_int (dec_int i) = i"
proof (cases "i < 0")
  case True
  then show ?thesis by (simp add: dec_int_def)
next
  case False
  obtain c s where cs: "dec_nat (nat i) = c # s"
    by (cases "dec_nat (nat i)") auto
  then have "is_digit c" using dec_nat_hd_digit [of "nat i"] by simp
  then have "c \<noteq> CHR ''-''" by auto
  moreover have "undec_nat (c # s) = nat i"
    using undec_dec_nat [of "nat i"] cs by simp
  ultimately show ?thesis using False cs by (simp add: dec_int_def)
qed

lemma dec_nat_no_leading_zero: "0 < n \<Longrightarrow> hd (dec_nat n) \<noteq> CHR ''0''"
proof (induction n rule: dec_nat.induct)
  case (1 n)
  show ?case
  proof (cases "n < 10")
    case True
    then have "bval (digit n) \<noteq> bval (CHR ''0'')" using 1(2) by simp
    then have "digit n \<noteq> CHR ''0''" by metis
    with True show ?thesis by simp
  next
    case False
    then have "0 < n div 10" by simp
    with 1(1) False have "hd (dec_nat (n div 10)) \<noteq> CHR ''0''" by simp
    with False show ?thesis by (simp add: hd_append)
  qed
qed

section \<open>Searching bytes\<close>

text \<open>\<open>bytes.IndexByte\<close>: the first index of a byte, \<open>None\<close> for \<open>-1\<close>.\<close>

fun index_byte :: "char \<Rightarrow> bytes \<Rightarrow> nat option" where
  "index_byte c [] = None"
| "index_byte c (x # xs) = (if x = c then Some 0 else map_option Suc (index_byte c xs))"

text \<open>\<open>strings.LastIndexByte\<close>: the last index of a byte.\<close>

fun last_index_byte :: "char \<Rightarrow> bytes \<Rightarrow> nat option" where
  "last_index_byte c [] = None"
| "last_index_byte c (x # xs) =
     (case last_index_byte c xs of Some i \<Rightarrow> Some (Suc i)
      | None \<Rightarrow> if x = c then Some 0 else None)"

lemma index_byte_None [simp]: "index_byte c s = None \<longleftrightarrow> c \<notin> set s"
  by (induction s) auto

lemma index_byte_Some:
  "index_byte c s = Some i \<Longrightarrow> i < length s \<and> s ! i = c \<and> c \<notin> set (take i s)"
  by (induction s arbitrary: i) (auto split: if_splits)

lemma index_byte_append: "c \<notin> set u \<Longrightarrow> index_byte c (u @ c # v) = Some (length u)"
  by (induction u) auto

lemma last_index_byte_None [simp]: "last_index_byte c s = None \<longleftrightarrow> c \<notin> set s"
  by (induction s) (auto split: option.splits)

lemma last_index_byte_append: "c \<notin> set v \<Longrightarrow> last_index_byte c (u @ c # v) = Some (length u)"
  by (induction u) (auto split: option.splits simp: last_index_byte_None [symmetric] simp del: last_index_byte_None)

lemma last_index_byte_Some:
  "last_index_byte c s = Some i \<Longrightarrow> i < length s \<and> s ! i = c \<and> c \<notin> set (drop (Suc i) s)"
  by (induction s arbitrary: i) (auto split: if_splits option.splits)

text \<open>Where a sequence of writes to a slice ends up: append of all of them.\<close>

lemma last_append_ne: "v \<noteq> [] \<Longrightarrow> last (u @ v) = last v"
  by simp

end
