(* ===== verification/Lad_Level.thy ===== *)
theory Lad_Level
  imports Lad_Prelude
begin

text \<open>
  Logging levels: \<open>ladcore/level.go\<close>, \<open>ladcore/level_strings.go\<close>, \<open>internal/color\<close>,
  the \<open>AtomicLevel\<close> of \<open>level.go\<close> and its HTTP endpoint \<open>http_handler.go\<close>.  A level
  is an \<open>int8\<close> ordered as a signed integer.  The atomic cells behind \<open>AtomicLevel\<close> live in
  an explicit store.
\<close>

section \<open>The level type\<close>

datatype level = Level (lvl: int8)

instantiation level :: linorder
begin

definition less_eq_level :: "level \<Rightarrow> level \<Rightarrow> bool" where
  "less_eq_level a b \<longleftrightarrow> sint (lvl a) \<le> sint (lvl b)"

definition less_level :: "level \<Rightarrow> level \<Rightarrow> bool" where
  "less_level a b \<longleftrightarrow> sint (lvl a) < sint (lvl b)"

instance
proof
  fix x y :: level
  assume "x \<le> y" "y \<le> x"
  then have "sint (lvl x) = sint (lvl y)" by (simp add: less_eq_level_def)
  then show "x = y" by (metis level.expand signed_word_eqI)
qed (auto simp: less_eq_level_def less_level_def)

end

definition DebugLevel :: level where "DebugLevel = Level (- 1)"
definition InfoLevel :: level where "InfoLevel = Level 0"
definition WarnLevel :: level where "WarnLevel = Level 1"
definition ErrorLevel :: level where "ErrorLevel = Level 2"
definition DPanicLevel :: level where "DPanicLevel = Level 3"
definition PanicLevel :: level where "PanicLevel = Level 4"
definition FatalLevel :: level where "FatalLevel = Level 5"
definition minLevel :: level where "minLevel = DebugLevel"
definition maxLevel :: level where "maxLevel = FatalLevel"
definition InvalidLevel :: level where "InvalidLevel = Level (lvl maxLevel + 1)"

lemmas level_consts [level_simps] =
  DebugLevel_def InfoLevel_def WarnLevel_def ErrorLevel_def DPanicLevel_def PanicLevel_def
  FatalLevel_def minLevel_def maxLevel_def InvalidLevel_def

lemmas level_ord [level_simps] = less_eq_level_def less_level_def

definition supported :: "level \<Rightarrow> bool" where
  "supported l \<longleftrightarrow> minLevel \<le> l \<and> l \<le> maxLevel"

definition all_levels :: "level list" where
  "all_levels =
     [DebugLevel, InfoLevel, WarnLevel, ErrorLevel, DPanicLevel, PanicLevel, FatalLevel]"

lemma level_eqI: "sint (lvl a) = sint (lvl b) \<Longrightarrow> a = b"
  by (metis level.expand signed_word_eqI)

lemma supported_cases: "supported l \<longleftrightarrow> l \<in> set all_levels"
proof
  assume "supported l"
  then have "- 1 \<le> sint (lvl l)" "sint (lvl l) \<le> 5"
    by (simp_all add: supported_def level_simps)
  then have "sint (lvl l) \<in> {- 1, 0, 1, 2, 3, 4, 5}" by auto
  then show "l \<in> set all_levels"
    by (auto simp: all_levels_def level_simps intro: level_eqI)
qed (auto simp: all_levels_def supported_def level_simps)

section \<open>Text\<close>

definition Level_String :: "level \<Rightarrow> string" where
  "Level_String l =
     (if l = DebugLevel then ''debug''
      else if l = InfoLevel then ''info''
      else if l = WarnLevel then ''warn''
      else if l = ErrorLevel then ''error''
      else if l = DPanicLevel then ''dpanic''
      else if l = PanicLevel then ''panic''
      else if l = FatalLevel then ''fatal''
      else ''Level('' @ dec_int (sint (lvl l)) @ '')'')"

definition CapitalString :: "level \<Rightarrow> string" where
  "CapitalString l =
     (if l = DebugLevel then ''DEBUG''
      else if l = InfoLevel then ''INFO''
      else if l = WarnLevel then ''WARN''
      else if l = ErrorLevel then ''ERROR''
      else if l = DPanicLevel then ''DPANIC''
      else if l = PanicLevel then ''PANIC''
      else if l = FatalLevel then ''FATAL''
      else ''LEVEL('' @ dec_int (sint (lvl l)) @ '')'')"

definition Level_MarshalText :: "level \<Rightarrow> bytes" where
  "Level_MarshalText l = Level_String l"

text \<open>
  \<open>bytes.ToLower\<close> and \<open>strings.ToLower\<close>: bytes below 0x80 are mapped one by one; a text with
  a byte above is mapped rune by rune through the Unicode tables, the parameter \<open>uni\<close>.
\<close>

definition ascii_lower :: "char \<Rightarrow> char" where
  "ascii_lower c = (if 65 \<le> bval c \<and> bval c \<le> 90 then byte (bval c + 32) else c)"

definition ToLower :: "(bytes \<Rightarrow> bytes) \<Rightarrow> bytes \<Rightarrow> bytes" where
  "ToLower uni s = (if \<forall>c \<in> set s. bval c < 128 then map ascii_lower s else uni s)"

definition unmarshalText :: "bytes \<Rightarrow> level option" where
  "unmarshalText text =
     (if text = ''debug'' then Some DebugLevel
      else if text = ''info'' \<or> text = [] then Some InfoLevel
      else if text = ''warn'' \<or> text = ''warning'' then Some WarnLevel
      else if text = ''error'' then Some ErrorLevel
      else if text = ''dpanic'' then Some DPanicLevel
      else if text = ''panic'' then Some PanicLevel
      else if text = ''fatal'' then Some FatalLevel
      else None)"

datatype level_error = UnmarshalNilLevel | UnrecognizedLevel bytes

text \<open>
  The receiver is a \<open>*Level\<close>: \<open>None\<close> is the nil pointer, \<open>Some l\<close> the pointed-to value.  The
  result is the receiver afterwards and the error.
\<close>

definition UnmarshalText ::
  "(bytes \<Rightarrow> bytes) \<Rightarrow> level option \<Rightarrow> bytes \<Rightarrow> level option \<times> level_error option" where
  "UnmarshalText uni l text =
     (case l of
        None \<Rightarrow> (None, Some UnmarshalNilLevel)
      | Some v \<Rightarrow>
          (case unmarshalText text of
             Some v' \<Rightarrow> (Some v', None)
           | None \<Rightarrow>
               (case unmarshalText (ToLower uni text) of
                  Some v' \<Rightarrow> (Some v', None)
                | None \<Rightarrow> (Some v, Some (UnrecognizedLevel text)))))"

definition Level_Set ::
  "(bytes \<Rightarrow> bytes) \<Rightarrow> level option \<Rightarrow> string \<Rightarrow> level option \<times> level_error option" where
  "Level_Set uni l s = UnmarshalText uni l s"

definition Level_Get :: "level \<Rightarrow> level" where
  "Level_Get l = l"

definition ParseLevel :: "(bytes \<Rightarrow> bytes) \<Rightarrow> string \<Rightarrow> level \<times> level_error option" where
  "ParseLevel uni text =
     (case UnmarshalText uni (Some (Level 0)) text of
        (Some l, e) \<Rightarrow> (l, e)
      | (None, e) \<Rightarrow> (Level 0, e))"

section \<open>Enablers\<close>

text \<open>The cells of \<open>atomic.Int32\<close> that \<open>AtomicLevel\<close> values point to.\<close>

type_synonym atomics = "nat \<Rightarrow> int32"

datatype enabler = LevelE level | AtomicE nat | FuncE "level \<Rightarrow> bool"

definition Level_Enabled :: "level \<Rightarrow> level \<Rightarrow> bool" where
  "Level_Enabled l m \<longleftrightarrow> l \<le> m"

definition AtomicLevel_Level :: "atomics \<Rightarrow> nat \<Rightarrow> level" where
  "AtomicLevel_Level st a = Level (ucast (st a))"

definition AtomicLevel_SetLevel :: "nat \<Rightarrow> level \<Rightarrow> atomics \<Rightarrow> atomics" where
  "AtomicLevel_SetLevel a l st = st(a := scast (lvl l))"

definition AtomicLevel_Enabled :: "atomics \<Rightarrow> nat \<Rightarrow> level \<Rightarrow> bool" where
  "AtomicLevel_Enabled st a m = Level_Enabled (AtomicLevel_Level st a) m"

definition AtomicLevel_String :: "atomics \<Rightarrow> nat \<Rightarrow> string" where
  "AtomicLevel_String st a = Level_String (AtomicLevel_Level st a)"

definition AtomicLevel_MarshalText :: "atomics \<Rightarrow> nat \<Rightarrow> bytes" where
  "AtomicLevel_MarshalText st a = Level_MarshalText (AtomicLevel_Level st a)"

text \<open>\<open>NewAtomicLevel\<close> allocates the cell \<open>a\<close>.\<close>

definition NewAtomicLevel :: "nat \<Rightarrow> atomics \<Rightarrow> atomics" where
  "NewAtomicLevel a st = st(a := scast (lvl InfoLevel))"

definition NewAtomicLevelAt :: "nat \<Rightarrow> level \<Rightarrow> atomics \<Rightarrow> atomics" where
  "NewAtomicLevelAt a l st = AtomicLevel_SetLevel a l (NewAtomicLevel a st)"

definition ParseAtomicLevel ::
  "(bytes \<Rightarrow> bytes) \<Rightarrow> nat \<Rightarrow> string \<Rightarrow> atomics \<Rightarrow> atomics \<times> level_error option" where
  "ParseAtomicLevel uni a text st =
     (let st1 = NewAtomicLevel a st in
      case ParseLevel uni text of
        (_, Some e) \<Rightarrow> (st1, Some e)
      | (l, None) \<Rightarrow> (AtomicLevel_SetLevel a l st1, None))"

text \<open>
  \<open>AtomicLevel.UnmarshalText\<close>: a zero \<open>AtomicLevel\<close> (\<open>None\<close>) first gets the fresh cell
  \<open>fresh\<close>, whose value is 0.
\<close>

definition AtomicLevel_UnmarshalText ::
  "(bytes \<Rightarrow> bytes) \<Rightarrow> nat \<Rightarrow> nat option \<Rightarrow> bytes \<Rightarrow> atomics \<Rightarrow>
   nat option \<times> atomics \<times> level_error option" where
  "AtomicLevel_UnmarshalText uni fresh l text st =
     (let (a, st1) = (case l of None \<Rightarrow> (fresh, st(fresh := 0)) | Some a \<Rightarrow> (a, st)) in
      case UnmarshalText uni (Some (Level 0)) text of
        (_, Some e) \<Rightarrow> (Some a, st1, Some e)
      | (None, None) \<Rightarrow> (Some a, st1, None)
      | (Some v, None) \<Rightarrow> (Some a, AtomicLevel_SetLevel a v st1, None))"

definition enab_Enabled :: "atomics \<Rightarrow> enabler \<Rightarrow> level \<Rightarrow> bool" where
  "enab_Enabled st e m =
     (case e of
        LevelE l \<Rightarrow> Level_Enabled l m
      | AtomicE a \<Rightarrow> AtomicLevel_Enabled st a m
      | FuncE f \<Rightarrow> f m)"

text \<open>The loop of \<open>LevelOf\<close>, from the level it has reached.\<close>

lemma lvl_Suc_sint: "l \<le> maxLevel \<Longrightarrow> sint (lvl l + 1) = sint (lvl l) + 1"
proof -
  assume "l \<le> maxLevel"
  then have le: "sint (lvl l) \<le> 5" by (simp add: level_simps)
  have ge: "- 128 \<le> sint (lvl l)" using sint_ge [of "lvl l"] by simp
  have "sint (lvl l + 1) = signed_take_bit 7 (sint (lvl l) + 1)"
    by (simp add: sint_word_ariths)
  also have "\<dots> = sint (lvl l) + 1"
    using le ge by (intro signed_take_bit_int_eq_self) auto
  finally show ?thesis .
qed

function level_scan :: "(level \<Rightarrow> bool) \<Rightarrow> level \<Rightarrow> level" where
  "level_scan en l =
     (if l \<le> maxLevel then (if en l then l else level_scan en (Level (lvl l + 1)))
      else InvalidLevel)"
  by pat_completeness auto
termination
proof (relation "measure (\<lambda>(en, l). nat (6 - sint (lvl l)))", goal_cases)
  case (2 en l)
  then show ?case using lvl_Suc_sint [of l] by (simp add: level_simps)
qed simp

declare level_scan.simps [simp del]

text \<open>
  \<open>LevelOf\<close>: of the enablers here only \<open>AtomicLevel\<close> has a \<open>Level\<close> method of its own.
\<close>

definition LevelOf :: "atomics \<Rightarrow> enabler \<Rightarrow> level" where
  "LevelOf st e =
     (case e of
        AtomicE a \<Rightarrow> AtomicLevel_Level st a
      | _ \<Rightarrow> level_scan (enab_Enabled st e) minLevel)"

section \<open>Colors\<close>

datatype color = Color uint8

definition Red :: color where "Red = Color 31"
definition Yellow :: color where "Yellow = Color 33"
definition Blue :: color where "Blue = Color 34"
definition Magenta :: color where "Magenta = Color 35"

definition Color_Add :: "color \<Rightarrow> string \<Rightarrow> string" where
  "Color_Add c s =
     (case c of Color n \<Rightarrow>
        [CHR 0x1B, CHR ''[''] @ dec_nat (unat n) @ ''m'' @ s @ [CHR 0x1B] @ ''[0m'')"

definition levelToColor :: "level \<rightharpoonup> color" where
  "levelToColor = [DebugLevel \<mapsto> Magenta, InfoLevel \<mapsto> Blue, WarnLevel \<mapsto> Yellow,
     ErrorLevel \<mapsto> Red, DPanicLevel \<mapsto> Red, PanicLevel \<mapsto> Red, FatalLevel \<mapsto> Red]"

definition unknownLevelColor :: color where
  "unknownLevelColor = Red"

text \<open>The tables that \<open>init\<close> fills.\<close>

definition levelToLowercaseColorString :: "level \<rightharpoonup> string" where
  "levelToLowercaseColorString l =
     (case levelToColor l of None \<Rightarrow> None | Some c \<Rightarrow> Some (Color_Add c (Level_String l)))"

definition levelToCapitalColorString :: "level \<rightharpoonup> string" where
  "levelToCapitalColorString l =
     (case levelToColor l of None \<Rightarrow> None | Some c \<Rightarrow> Some (Color_Add c (CapitalString l)))"

section \<open>The HTTP endpoint\<close>

text \<open>
  What \<open>net/http\<close> and \<open>encoding/json\<close> hand to the handler: the method, the content type,
  the form value of \<open>level\<close>, and how the body decodes into a struct with a \<open>*Level\<close> field.
\<close>

datatype http_body = BodyMalformed string | BodyNoLevel | BodyLevel bytes

record http_request =
  Method :: string
  ContentType :: string
  FormLevel :: string
  Body :: http_body

datatype http_payload = PayloadLevel level | PayloadError http_error
and http_error =
    MustSpecifyLevel
  | BadLevel level_error
  | MalformedBody string
  | OnlyGetPut

record http_response =
  Status :: nat
  Payload :: http_payload

definition decodePutURL :: "(bytes \<Rightarrow> bytes) \<Rightarrow> http_request \<Rightarrow> http_error + level" where
  "decodePutURL uni r =
     (if FormLevel r = [] then Inl MustSpecifyLevel
      else case UnmarshalText uni (Some (Level 0)) (FormLevel r) of
             (_, Some e) \<Rightarrow> Inl (BadLevel e)
           | (Some l, None) \<Rightarrow> Inr l
           | (None, None) \<Rightarrow> Inr (Level 0))"

text \<open>
  A level in the body is decoded by \<open>Level.UnmarshalText\<close>; its error fails the decoding.
\<close>

definition decodePutJSON :: "(bytes \<Rightarrow> bytes) \<Rightarrow> http_body \<Rightarrow> http_error + level" where
  "decodePutJSON uni b =
     (case b of
        BodyMalformed m \<Rightarrow> Inl (MalformedBody m)
      | BodyNoLevel \<Rightarrow> Inl MustSpecifyLevel
      | BodyLevel t \<Rightarrow>
          (case UnmarshalText uni (Some (Level 0)) t of
             (Some l, None) \<Rightarrow> Inr l
           | _ \<Rightarrow> Inl (MalformedBody t)))"

definition decodePutRequest ::
  "(bytes \<Rightarrow> bytes) \<Rightarrow> string \<Rightarrow> http_request \<Rightarrow> http_error + level" where
  "decodePutRequest uni ct r =
     (if ct = ''application/x-www-form-urlencoded'' then decodePutURL uni r
      else decodePutJSON uni (Body r))"

definition serveHTTP ::
  "(bytes \<Rightarrow> bytes) \<Rightarrow> nat \<Rightarrow> http_request \<Rightarrow> atomics \<Rightarrow> http_response \<times> atomics" where
  "serveHTTP uni a r st =
     (if Method r = ''GET'' then
        (\<lparr>Status = 200, Payload = PayloadLevel (AtomicLevel_Level st a)\<rparr>, st)
      else if Method r = ''PUT'' then
        (case decodePutRequest uni (ContentType r) r of
           Inl e \<Rightarrow> (\<lparr>Status = 400, Payload = PayloadError e\<rparr>, st)
         | Inr l \<Rightarrow>
             (let st' = AtomicLevel_SetLevel a l st in
              (\<lparr>Status = 200, Payload = PayloadLevel (AtomicLevel_Level st' a)\<rparr>, st')))
      else (\<lparr>Status = 405, Payload = PayloadError OnlyGetPut\<rparr>, st))"

section \<open>Facts about text\<close>

lemma supportedE:
  assumes "supported l"
  obtains "l = DebugLevel" | "l = InfoLevel" | "l = WarnLevel" | "l = ErrorLevel"
    | "l = DPanicLevel" | "l = PanicLevel" | "l = FatalLevel"
  using assms unfolding supported_cases all_levels_def by auto

lemma level_consts_distinct [simp]: "distinct all_levels"
  by (simp add: all_levels_def level_simps)

lemma Level_String_consts [simp]:
  "Level_String DebugLevel = ''debug''" "Level_String InfoLevel = ''info''"
  "Level_String WarnLevel = ''warn''" "Level_String ErrorLevel = ''error''"
  "Level_String DPanicLevel = ''dpanic''" "Level_String PanicLevel = ''panic''"
  "Level_String FatalLevel = ''fatal''"
  by (simp_all add: Level_String_def level_simps)

lemma CapitalString_consts [simp]:
  "CapitalString DebugLevel = ''DEBUG''" "CapitalString InfoLevel = ''INFO''"
  "CapitalString WarnLevel = ''WARN''" "CapitalString ErrorLevel = ''ERROR''"
  "CapitalString DPanicLevel = ''DPANIC''" "CapitalString PanicLevel = ''PANIC''"
  "CapitalString FatalLevel = ''FATAL''"
  by (simp_all add: CapitalString_def level_simps)

lemma ascii_lower_idem [simp]: "ascii_lower (ascii_lower c) = ascii_lower c"
  by (auto simp: ascii_lower_def)

lemma unmarshal_lower_fix: "unmarshalText t = Some l \<Longrightarrow> map ascii_lower t = t"
  by (auto simp: unmarshalText_def ascii_lower_def split: if_splits)

lemma unmarshal_supported: "unmarshalText t = Some l \<Longrightarrow> supported l"
  by (auto simp: unmarshalText_def supported_cases all_levels_def split: if_splits)

lemma unmarshal_String: "supported l \<Longrightarrow> unmarshalText (Level_String l) = Some l"
  by (erule supportedE) (simp_all add: unmarshalText_def)

lemma lower_Capital: "supported l \<Longrightarrow> ToLower uni (CapitalString l) = Level_String l"
  by (erule supportedE) (simp_all add: ToLower_def ascii_lower_def)

lemma unmarshal_Capital: "supported l \<Longrightarrow> unmarshalText (CapitalString l) = None"
  by (erule supportedE) (simp_all add: unmarshalText_def)

lemma UnmarshalText_ascii:
  assumes "\<forall>c \<in> set t. bval c < 128"
  shows "UnmarshalText uni (Some v) t =
    (case unmarshalText (map ascii_lower t) of
       Some l \<Rightarrow> (Some l, None) | None \<Rightarrow> (Some v, Some (UnrecognizedLevel t)))"
  using assms unmarshal_lower_fix [of t]
  by (auto simp: UnmarshalText_def ToLower_def split: option.splits)

lemma UnmarshalText_result:
  "UnmarshalText uni (Some v) t = (l', e) \<Longrightarrow>
   (e = None \<and> (\<exists>l. l' = Some l \<and> supported l)) \<or> (e \<noteq> None \<and> l' = Some v)"
  by (auto simp: UnmarshalText_def split: option.splits) (metis unmarshal_supported)+

section \<open>Facts about enablers\<close>

lemma level_leD: "l \<le> m \<Longrightarrow> l \<noteq> m \<Longrightarrow> l \<le> maxLevel \<Longrightarrow> Level (lvl l + 1) \<le> m"
  using lvl_Suc_sint [of l] level_eqI [of l m] by (force simp: level_simps)

lemma Level_Suc_gt: "l \<le> maxLevel \<Longrightarrow> l < Level (lvl l + 1)"
  using lvl_Suc_sint [of l] by (simp add: less_level_def)

lemma maxLevel_less_Invalid: "maxLevel < InvalidLevel"
  by (simp add: level_simps)

text \<open>The scan returns the least enabled level from its start, or \<open>InvalidLevel\<close>.\<close>

lemma level_scan_hit:
  "en m \<Longrightarrow> l \<le> m \<Longrightarrow> m \<le> maxLevel \<Longrightarrow>
   l \<le> level_scan en l \<and> level_scan en l \<le> m \<and> en (level_scan en l)"
proof (induction en l rule: level_scan.induct)
  case (1 en l)
  show ?case
  proof (cases "en l")
    case True
    with 1 show ?thesis by (auto simp: level_scan.simps [of en l])
  next
    case False
    with 1(2,3,4) have "Level (lvl l + 1) \<le> m"
      by (intro level_leD) auto
    moreover have "l \<le> maxLevel" using 1(3,4) by (rule order_trans)
    ultimately show ?thesis
      using 1 False Level_Suc_gt [of l] by (auto simp: level_scan.simps [of en l])
  qed
qed

lemma level_scan_none:
  "(\<And>m. l \<le> m \<Longrightarrow> m \<le> maxLevel \<Longrightarrow> \<not> en m) \<Longrightarrow> level_scan en l = InvalidLevel"
proof (induction en l rule: level_scan.induct)
  case (1 en l)
  show ?case
  proof (cases "l \<le> maxLevel")
    case True
    have "level_scan en (Level (lvl l + 1)) = InvalidLevel"
      using 1 True Level_Suc_gt [OF True] by (meson less_imp_le order.trans order_refl)
    with 1(2) True show ?thesis by (auto simp: level_scan.simps [of en l])
  qed (simp add: level_scan.simps [of en l])
qed

text \<open>
  The contract of a level enabler: enabling is upward closed.  Its clients reason about the
  minimum enabled level only.
\<close>

locale level_enabler =
  fixes enabled :: "level \<Rightarrow> bool"
  assumes enabled_mono: "enabled l \<Longrightarrow> l \<le> m \<Longrightarrow> enabled m"
begin

lemma scan_characterises:
  assumes "supported l"
  shows "enabled l \<longleftrightarrow> level_scan enabled minLevel \<le> l"
proof
  assume "enabled l"
  then show "level_scan enabled minLevel \<le> l"
    using assms level_scan_hit [of enabled l minLevel] by (simp add: supported_def)
next
  assume le: "level_scan enabled minLevel \<le> l"
  show "enabled l"
  proof (rule ccontr)
    assume no: "\<not> enabled l"
    show False
    proof (cases "\<exists>m. minLevel \<le> m \<and> m \<le> maxLevel \<and> enabled m")
      case True
      then have "enabled (level_scan enabled minLevel)"
        using level_scan_hit by blast
      with le no show False by (blast intro: enabled_mono)
    next
      case False
      then have "level_scan enabled minLevel = InvalidLevel"
        using level_scan_none [of minLevel enabled] by blast
      with le assms maxLevel_less_Invalid show False
        by (auto simp: supported_def)
    qed
  qed
qed

end

interpretation static_level: level_enabler "Level_Enabled l" for l
  by unfold_locales (auto simp: Level_Enabled_def)

interpretation atomic_level: level_enabler "AtomicLevel_Enabled st a" for st a
  by unfold_locales (auto simp: AtomicLevel_Enabled_def Level_Enabled_def)

lemma scast_ucast_level [simp]: "ucast (scast (w :: int8) :: int32) = w"
  by (rule bit_word_eqI) (auto simp: bit_simps)

lemma AtomicLevel_set_get [simp]:
  "AtomicLevel_Level (AtomicLevel_SetLevel a l st) b =
     (if b = a then l else AtomicLevel_Level st b)"
  by (simp add: AtomicLevel_Level_def AtomicLevel_SetLevel_def)

section \<open>Properties\<close>

text \<open>
  C34: every supported level is read back from both of its textual forms, the lower-case
  \<open>String\<close> and the all-caps \<open>CapitalString\<close>, without error.
\<close>

theorem ParseLevel_roundtrip:
  "supported l \<Longrightarrow>
   ParseLevel uni (Level_String l) = (l, None) \<and> ParseLevel uni (CapitalString l) = (l, None)"
  by (simp add: ParseLevel_def UnmarshalText_def unmarshal_String unmarshal_Capital lower_Capital)

theorem ParseLevel_roundtrip_witness:
  "supported DPanicLevel \<and> ParseLevel id (Level_String DPanicLevel) = (DPanicLevel, None) \<and>
   ParseLevel id ''DPANIC'' = (DPanicLevel, None)"
proof -
  have h: "supported DPanicLevel" by (simp add: supported_cases all_levels_def)
  show ?thesis using h ParseLevel_roundtrip [OF h, of id] by simp
qed

text \<open>
  On ASCII input \<open>ParseLevel\<close> accepts exactly the level names, \<open>warning\<close> and the empty
  text, in any mix of cases; the level it returns is always a supported one, and on an error it
  is the default \<open>InfoLevel\<close>.
\<close>

lemma ParseLevel_accepts:
  assumes "\<forall>c \<in> set t. bval c < 128" and "ParseLevel uni t = (l, e)"
  shows "(e = None \<longleftrightarrow>
           map ascii_lower t \<in> Level_String ` set all_levels \<union> {''warning'', []})
         \<and> supported l \<and> (e \<noteq> None \<longrightarrow> l = InfoLevel)"
proof -
  have names: "unmarshalText u \<noteq> None \<longleftrightarrow> u \<in> Level_String ` set all_levels \<union> {''warning'', []}" for u
    by (auto simp: unmarshalText_def all_levels_def)
  have i: "supported InfoLevel" "Level 0 = InfoLevel"
    by (simp_all add: supported_cases all_levels_def InfoLevel_def)
  show ?thesis
    using assms(2) i names [of "map ascii_lower t"] unmarshal_supported [of "map ascii_lower t"]
    unfolding ParseLevel_def UnmarshalText_ascii [OF assms(1)]
    by (auto split: option.splits)
qed

lemma ParseLevel_accepts_example:
  "ParseLevel id ''WaRning'' = (WarnLevel, None) \<and> supported WarnLevel \<and>
   map ascii_lower ''WaRning'' \<in> Level_String ` set all_levels \<union> {''warning'', []}"
proof -
  have h: "\<forall>c \<in> set ''WaRning''. bval c < 128" by simp
  have p: "ParseLevel id ''WaRning'' = (WarnLevel, None)"
    by (simp add: ParseLevel_def UnmarshalText_def unmarshalText_def ToLower_def ascii_lower_def)
  show ?thesis using h p ParseLevel_accepts [OF h p] by simp
qed

text \<open>
  For a static level and for an \<open>AtomicLevel\<close>, \<open>LevelOf\<close> decides every supported level:
  a level is enabled exactly when it is at least the reported one.
\<close>

lemma LevelOf_decides:
  assumes "supported m" and "\<And>f. e \<noteq> FuncE f"
  shows "enab_Enabled st e m \<longleftrightarrow> LevelOf st e \<le> m"
proof (cases e)
  case (LevelE l)
  then show ?thesis
    using static_level.scan_characterises [OF assms(1), of l]
    by (simp add: LevelOf_def enab_Enabled_def [abs_def])
next
  case (AtomicE a)
  then show ?thesis
    by (simp add: LevelOf_def enab_Enabled_def AtomicLevel_Enabled_def Level_Enabled_def)
qed (use assms(2) in simp)

lemma LevelOf_decides_example:
  "supported ErrorLevel \<and> (\<forall>f. LevelE WarnLevel \<noteq> FuncE f) \<and>
   enab_Enabled (\<lambda>_. 0) (LevelE WarnLevel) ErrorLevel \<and>
   LevelOf (\<lambda>_. 0) (LevelE WarnLevel) \<le> ErrorLevel"
proof -
  have h: "supported ErrorLevel" by (simp add: supported_cases all_levels_def)
  have e: "enab_Enabled (\<lambda>_. 0) (LevelE WarnLevel) ErrorLevel"
    by (simp add: enab_Enabled_def Level_Enabled_def level_simps)
  show ?thesis using h e LevelOf_decides [OF h, of "LevelE WarnLevel" "\<lambda>_. 0"] by simp
qed

text \<open>
  \<open>LevelOf\<close> of an enabler without a \<open>Level\<close> method, even one that is not monotone,
  reports the least supported enabled level, and \<open>InvalidLevel\<close> exactly when it enables none.
\<close>

lemma LevelOf_scans:
  assumes "\<And>a. e \<noteq> AtomicE a"
  shows "(LevelOf st e = InvalidLevel \<longleftrightarrow> (\<forall>m. supported m \<longrightarrow> \<not> enab_Enabled st e m))
    \<and> (\<forall>m. supported m \<longrightarrow> enab_Enabled st e m \<longrightarrow>
          LevelOf st e \<le> m \<and> supported (LevelOf st e) \<and> enab_Enabled st e (LevelOf st e))"
proof -
  have L: "LevelOf st e = level_scan (enab_Enabled st e) minLevel"
    using assms by (cases e) (auto simp: LevelOf_def)
  have hit: "LevelOf st e \<le> m \<and> supported (LevelOf st e) \<and> enab_Enabled st e (LevelOf st e)"
    if "supported m" "enab_Enabled st e m" for m
    using level_scan_hit [of "enab_Enabled st e" m minLevel] that unfolding L supported_def by auto
  have "LevelOf st e = InvalidLevel" if "\<forall>m. supported m \<longrightarrow> \<not> enab_Enabled st e m"
    using that level_scan_none [of minLevel "enab_Enabled st e"] unfolding L supported_def by blast
  moreover have "\<not> supported InvalidLevel"
    by (simp add: supported_def level_simps)
  ultimately show ?thesis using hit by metis
qed

lemma LevelOf_scans_example:
  "(\<forall>a. FuncE (\<lambda>m. m = ErrorLevel) \<noteq> AtomicE a) \<and>
   LevelOf (\<lambda>_. 0) (FuncE (\<lambda>m. m = ErrorLevel)) \<le> ErrorLevel \<and>
   LevelOf (\<lambda>_. 0) (FuncE (\<lambda>_. False)) = InvalidLevel"
proof -
  have s: "supported ErrorLevel" by (simp add: supported_cases all_levels_def)
  show ?thesis
    using s LevelOf_scans [of "FuncE (\<lambda>m. m = ErrorLevel)" "\<lambda>_. 0"]
      LevelOf_scans [of "FuncE (\<lambda>_. False)" "\<lambda>_. 0"]
    by (simp add: enab_Enabled_def)
qed



end
