(* ===== verification/Lad_Float.thy ===== *)
theory Lad_Float
  imports Lad_Prelude
begin

text \<open>
  IEEE floats as the source uses them.  A \<open>float64\<close> or \<open>float32\<close> value is its bit pattern
  (\<open>math.Float64bits\<close>, \<open>math.Float32bits\<close>); what the encoders need of arithmetic (integer
  conversion, product, difference and division) is computed on exact ratios and rounded to nearest even.
  The widening \<open>float64(x)\<close> of a \<open>float32\<close> is exact, so such a value keeps its 32-bit
  pattern and its format.  \<open>fmt_float\<close> is \<open>strconv.AppendFloat(v, 'f', -1, bitSize)\<close>: the shortest decimal that reads
  back as the same float, written without an exponent.
\<close>

section \<open>Formats and bit patterns\<close>

text \<open>A format is given by the width of its fraction and the exponent of its least normal number.\<close>

datatype float_fmt = F64 | F32

fun frac_bits :: "float_fmt \<Rightarrow> nat" where
  "frac_bits F64 = 52"
| "frac_bits F32 = 23"

fun exp_bits :: "float_fmt \<Rightarrow> nat" where
  "exp_bits F64 = 11"
| "exp_bits F32 = 8"

definition emin :: "float_fmt \<Rightarrow> int" where
  "emin f = 2 - 2 ^ (exp_bits f - 1)"

definition exp_mask :: "float_fmt \<Rightarrow> nat" where
  "exp_mask f = 2 ^ exp_bits f - 1"

definition inf_bits :: "float_fmt \<Rightarrow> nat" where
  "inf_bits f = exp_mask f * 2 ^ frac_bits f"

definition sign_bit :: "float_fmt \<Rightarrow> nat" where
  "sign_bit f = 2 ^ (frac_bits f + exp_bits f)"

text \<open>The parts of a bit pattern, given as a natural number.\<close>

definition f_neg :: "float_fmt \<Rightarrow> nat \<Rightarrow> bool" where
  "f_neg f b \<longleftrightarrow> sign_bit f \<le> b"

definition f_mag :: "float_fmt \<Rightarrow> nat \<Rightarrow> nat" where
  "f_mag f b = b mod sign_bit f"

definition IsNaN :: "float_fmt \<Rightarrow> nat \<Rightarrow> bool" where
  "IsNaN f b \<longleftrightarrow> inf_bits f < f_mag f b"

definition IsInf :: "float_fmt \<Rightarrow> nat \<Rightarrow> bool" where
  "IsInf f b \<longleftrightarrow> f_mag f b = inf_bits f"

definition f_finite :: "float_fmt \<Rightarrow> nat \<Rightarrow> bool" where
  "f_finite f b \<longleftrightarrow> f_mag f b < inf_bits f"

text \<open>\<open>v >= 0\<close>: false for NaN, true for both zeros and for positive infinity.\<close>

definition f_ge0 :: "float_fmt \<Rightarrow> nat \<Rightarrow> bool" where
  "f_ge0 f b \<longleftrightarrow> \<not> IsNaN f b \<and> (\<not> f_neg f b \<or> f_mag f b = 0)"

section \<open>Exact values and rounding\<close>

text \<open>The magnitude of a finite float as a ratio of naturals.\<close>

definition f_ratio :: "float_fmt \<Rightarrow> nat \<Rightarrow> nat \<times> nat" where
  "f_ratio f b =
     (let p = frac_bits f; E = f_mag f b div 2 ^ p; fr = f_mag f b mod 2 ^ p;
          m = (if E = 0 then fr else fr + 2 ^ p);
          e = (if E = 0 then emin f else int E - 1 + emin f) - int p
      in if 0 \<le> e then (m * 2 ^ nat e, 1) else (m, 2 ^ nat (- e)))"

fun ilog2 :: "nat \<Rightarrow> nat" where
  "ilog2 n = (if n < 2 then 0 else Suc (ilog2 (n div 2)))"

declare ilog2.simps [simp del]

definition round_div :: "nat \<Rightarrow> nat \<Rightarrow> nat" where
  "round_div n d =
     (let q = n div d; r = n mod d in if d < 2 * r \<or> (2 * r = d \<and> odd q) then q + 1 else q)"

text \<open>The float nearest to \<open>n / d\<close>, ties to even, overflowing to infinity.\<close>

definition f_round :: "float_fmt \<Rightarrow> bool \<Rightarrow> nat \<Rightarrow> nat \<Rightarrow> nat" where
  "f_round f neg n d =
     (let s = (if neg then sign_bit f else 0) in
      if n = 0 then s
      else
        let e0 = int (ilog2 n) - int (ilog2 d);
            e1 = (if d * 2 ^ nat e0 \<le> n * 2 ^ nat (- e0) then e0 else e0 - 1);
            e = max e1 (emin f);
            k = int (frac_bits f) - e;
            m = round_div (n * 2 ^ nat k) (d * 2 ^ nat (- k))
        in s + min (inf_bits f) (nat (e - emin f) * 2 ^ frac_bits f + m))"

text \<open>\<open>float64(i)\<close> for an integer, and \<open>x / y\<close> for finite \<open>x\<close> and finite nonzero \<open>y\<close>.\<close>

definition f64_of_int :: "int \<Rightarrow> nat" where
  "f64_of_int i = f_round F64 (i < 0) (nat \<bar>i\<bar>) 1"

definition f64_div :: "nat \<Rightarrow> nat \<Rightarrow> nat" where
  "f64_div x y =
     (case (f_ratio F64 x, f_ratio F64 y) of
        ((n, d), (n', d')) \<Rightarrow> f_round F64 (f_neg F64 x \<noteq> f_neg F64 y) (n * d') (d * n'))"

text \<open>The product and the difference of finite floats.\<close>

definition f64_mul :: "nat \<Rightarrow> nat \<Rightarrow> nat" where
  "f64_mul x y =
     (case (f_ratio F64 x, f_ratio F64 y) of
        ((n, d), (n', d')) \<Rightarrow> f_round F64 (f_neg F64 x \<noteq> f_neg F64 y) (n * n') (d * d'))"

text \<open>The difference; a result of zero is positive unless it is \<open>-0 - 0\<close>.\<close>

definition f64_sub :: "nat \<Rightarrow> nat \<Rightarrow> nat" where
  "f64_sub x y =
     (case (f_ratio F64 x, f_ratio F64 y) of
        ((n, d), (n', d')) \<Rightarrow>
          let sx = (if f_neg F64 x then - int n else int n); sy = (if f_neg F64 y then - int n' else int n');
              r = sx * int d' - sy * int d
          in if r = 0 then (if f_neg F64 x \<and> \<not> f_neg F64 y then sign_bit F64 else 0)
             else f_round F64 (r < 0) (nat \<bar>r\<bar>) (d * d'))"

text \<open>Conversion to an integer drops the fraction.\<close>

definition f64_trunc :: "nat \<Rightarrow> int" where
  "f64_trunc x = (case f_ratio F64 x of (n, d) \<Rightarrow> if f_neg F64 x then - int (n div d) else int (n div d))"

section \<open>Exact integers\<close>

lemma ilog2_bounds: "0 < n \<Longrightarrow> 2 ^ ilog2 n \<le> n \<and> n < 2 ^ Suc (ilog2 n)"
proof (induction n rule: ilog2.induct)
  case (1 n)
  show ?case
  proof (cases "n < 2")
    case True
    then show ?thesis using 1(2) by (subst (1 2) ilog2.simps) auto
  next
    case False
    then have "2 ^ ilog2 (n div 2) \<le> n div 2 \<and> n div 2 < 2 ^ Suc (ilog2 (n div 2))" using 1(1) by simp
    then show ?thesis using False by (subst (1 2) ilog2.simps) (auto)
  qed
qed

lemma ilog2_unique:
  assumes "2 ^ e \<le> n" and "n < 2 ^ Suc e"
  shows "ilog2 n = e"
proof -
  have n: "0 < n" using assms(1) by (metis gr0I less_le_trans not_less zero_less_numeral zero_less_power)
  have "e < Suc (ilog2 n)" "ilog2 n < Suc e"
    using ilog2_bounds [OF n] assms by (meson le_less_trans power_less_imp_less_exp one_less_numeral_iff semiring_norm(76))+
  then show ?thesis by simp
qed

lemma ilog2_shift: "0 < n \<Longrightarrow> ilog2 (n * 2 ^ j) = ilog2 n + j"
  using ilog2_bounds [of n] by (intro ilog2_unique) (auto simp: power_add)

text \<open>Integers below \<open>2 ^ 53\<close>, also as quotients by a power of two, are floats.\<close>

lemma mantissa_bounds:
  assumes "0 < n" and "n < 2 ^ 53"
  shows "ilog2 n \<le> 52" and "2 ^ 52 \<le> n * 2 ^ (52 - ilog2 n)" and "n * 2 ^ (52 - ilog2 n) < 2 ^ 53"
proof -
  let ?e = "ilog2 n"
  have b: "2 ^ ?e \<le> n" "n < 2 ^ Suc ?e" using ilog2_bounds [OF assms(1)] by auto
  have "(2 :: nat) ^ ?e < 2 ^ 53" using b(1) assms(2) by (rule le_less_trans)
  then show e: "?e \<le> 52" by (simp only: power_strict_increasing_iff)
  have "2 ^ ?e * 2 ^ (52 - ?e) \<le> n * 2 ^ (52 - ?e)" using b(1) by simp
  then show "2 ^ 52 \<le> n * 2 ^ (52 - ?e)" using e by (simp flip: power_add)
  have "n * 2 ^ (52 - ?e) < 2 ^ Suc ?e * 2 ^ (52 - ?e)" using b(2) by (rule mult_strict_right_mono) simp
  then show "n * 2 ^ (52 - ?e) < 2 ^ 53" using e by (simp flip: power_add power_Suc)
qed

lemma f_round_int:
  assumes "0 < n" and "n < 2 ^ 53"
  shows "f_round F64 s (n * 2 ^ j) (2 ^ j) =
    (if s then sign_bit F64 else 0) + ((ilog2 n + 1022) * 2 ^ 52 + n * 2 ^ (52 - ilog2 n))"
proof -
  let ?e = "ilog2 n"
  have b: "2 ^ ?e \<le> n" using ilog2_bounds [OF assms(1)] by auto
  note e = mantissa_bounds(1) [OF assms] and m = mantissa_bounds(2,3) [OF assms]
  have l: "ilog2 (n * 2 ^ j) = ?e + j" "ilog2 (2 ^ j) = j"
    using ilog2_shift [OF assms(1)] ilog2_unique [of j "2 ^ j"] by simp_all
  have r: "round_div (n * 2 ^ j * 2 ^ (52 - ?e)) (2 ^ j) = n * 2 ^ (52 - ?e)"
    by (simp add: round_div_def Let_def mult.assoc mult.commute [of "2 ^ j"])
  have i: "(?e + 1022) * 2 ^ 52 + n * 2 ^ (52 - ?e) \<le> inf_bits F64"
    using m(2) e by (simp add: inf_bits_def exp_mask_def)
  have k: "nat (52 - int ?e) = 52 - ?e" "nat (int ?e - 52) = 0" using e by auto
  have x: "max (int ?e) (emin F64) = int ?e" "nat (int ?e - emin F64) = ?e + 1022" by (simp_all add: emin_def)
  have c: "2 ^ j * 2 ^ nat (int ?e) \<le> n * 2 ^ j * 2 ^ nat (- int ?e)" using b by simp
  show ?thesis
    using assms(1) i b by (simp add: f_round_def l c x k r Let_def del: power_Suc)
qed

lemma f64_exact:
  assumes "0 < n" and "n < 2 ^ 53"
  shows "f_ratio F64 (f_round F64 s (n * 2 ^ j) (2 ^ j)) = (n * 2 ^ (52 - ilog2 n), 2 ^ (52 - ilog2 n))"
    and "f_neg F64 (f_round F64 s (n * 2 ^ j) (2 ^ j)) = s" and "f_finite F64 (f_round F64 s (n * 2 ^ j) (2 ^ j))"
proof -
  note m = mantissa_bounds [OF assms]
  define fr where "fr = n * 2 ^ (52 - ilog2 n) - 2 ^ 52"
  have fr: "n * 2 ^ (52 - ilog2 n) = 2 ^ 52 + fr" "fr < 2 ^ 52" using m(2,3) by (simp_all add: fr_def)
  let ?mag = "(ilog2 n + 1023) * 2 ^ 52 + fr" and ?x = "f_round F64 s (n * 2 ^ j) (2 ^ j)"
  have x: "?x = (if s then sign_bit F64 else 0) + ?mag"
    unfolding f_round_int [OF assms] fr(1) by simp
  have small: "?mag < 2047 * 2 ^ 52" using m(1) fr(2) by simp
  then have "?mag < sign_bit F64" by (simp add: sign_bit_def)
  then have mag: "f_mag F64 ?x = ?mag"
    unfolding f_mag_def x by (cases s) (simp_all only: if_True if_False add_0 mod_add_self1 mod_less)
  show "f_neg F64 ?x = s" unfolding f_neg_def x sign_bit_def using small by simp
  show "f_finite F64 ?x" unfolding f_finite_def mag using small by (simp add: inf_bits_def exp_mask_def)
  have d: "?mag div 2 ^ 52 = ilog2 n + 1023" "?mag mod 2 ^ 52 = fr"
    using fr(2) by (simp_all only: mod_mult_self3 mod_less) simp
  have "nat (- (int (ilog2 n + 1023) - 1 + emin F64 - 52)) = 52 - ilog2 n" using m(1) by (simp add: emin_def)
  moreover have "int (ilog2 n + 1023) - 1 + emin F64 - 52 \<le> 0" using m(1) by (simp add: emin_def)
  ultimately show "f_ratio F64 ?x = (n * 2 ^ (52 - ilog2 n), 2 ^ (52 - ilog2 n))"
    unfolding f_ratio_def mag Let_def frac_bits.simps d fr(1) by (auto simp: emin_def)
qed

text \<open>Converting an integer below \<open>2 ^ 53\<close> to a float and back, multiplied by one, changes nothing.\<close>

lemma f64_mul_one:
  assumes "\<bar>i\<bar> < 2 ^ 53"
  shows "f64_trunc (f64_mul (f64_of_int i) (f64_of_int 1)) = i" and "f_finite F64 (f64_mul (f64_of_int i) (f64_of_int 1))"
proof -
  let ?n = "nat \<bar>i\<bar>" and ?s = "i < 0"
  have one: "f64_of_int 1 = f_round F64 False (1 * 2 ^ 0) (2 ^ 0)" by (simp add: f64_of_int_def)
  note o = f64_exact [of 1 False 0, folded one]
  have all: "f64_trunc (f64_mul (f64_of_int i) (f64_of_int 1)) = i \<and> f_finite F64 (f64_mul (f64_of_int i) (f64_of_int 1))"
  proof (cases "i = 0")
    case True
    then show ?thesis
      by (simp add: f64_of_int_def f_round_def f64_mul_def f64_trunc_def f_ratio_def f_finite_def f_neg_def f_mag_def
        sign_bit_def inf_bits_def exp_mask_def Let_def split: prod.split)
  next
    case False
    have n: "0 < ?n" "?n < 2 ^ 53" using False assms by auto
    let ?k = "52 - ilog2 ?n"
    have x: "f64_of_int i = f_round F64 ?s (?n * 2 ^ 0) (2 ^ 0)" by (simp add: f64_of_int_def)
    note p = f64_exact [OF n, of ?s 0, folded x]
    have l: "ilog2 1 = 0" by (simp add: ilog2.simps)
    have q: "f64_mul (f64_of_int i) (f64_of_int 1) = f_round F64 ?s (?n * 2 ^ (?k + 52)) (2 ^ (?k + 52))"
      using o(1,2) p(1,2) l by (simp add: f64_mul_def power_add mult.assoc)
    have "f64_trunc (f64_mul (f64_of_int i) (f64_of_int 1)) = i"
      unfolding q f64_trunc_def f64_exact(1,2) [OF n] using False by auto
    then show ?thesis unfolding q using f64_exact(3) [OF n] by simp
  qed
  then show "f64_trunc (f64_mul (f64_of_int i) (f64_of_int 1)) = i" "f_finite F64 (f64_mul (f64_of_int i) (f64_of_int 1))"
    by auto
qed

section \<open>Shortest decimal text\<close>

text \<open>The decimal exponent of a positive ratio: \<open>10 ^ L \<le> n / d < 10 ^ (L + 1)\<close>.\<close>

definition log10_ratio :: "nat \<Rightarrow> nat \<Rightarrow> int" where
  "log10_ratio n d =
     (if d \<le> n then int (length (dec_nat (n div d))) - 1
      else - int (length (dec_nat ((d - 1) div n))))"

text \<open>Whether the decimal \<open>D * 10 ^ k\<close> reads back as the magnitude \<open>b\<close>.\<close>

definition reads_back :: "float_fmt \<Rightarrow> nat \<Rightarrow> nat \<Rightarrow> int \<Rightarrow> bool" where
  "reads_back f b D k \<longleftrightarrow> f_round f False (D * 10 ^ nat k) (10 ^ nat (- k)) = b"

text \<open>
  The digits of the shortest decimal: for each precision in turn the neighbours of the value
  with that many digits, the nearer one first.
\<close>

primrec shortest :: "nat \<Rightarrow> nat \<Rightarrow> float_fmt \<Rightarrow> nat \<Rightarrow> nat \<Rightarrow> nat \<Rightarrow> nat \<times> int" where
  "shortest 0 p f b n d =
     (let k = log10_ratio n d - int p + 1
      in (round_div (n * 10 ^ nat (- k)) (d * 10 ^ nat k), k))"
| "shortest (Suc more) p f b n d =
     (let k = log10_ratio n d - int p + 1;
          N = n * 10 ^ nat (- k); M = d * 10 ^ nat k;
          lo = N div M; hi = lo + 1; near_lo = 2 * (N mod M) \<le> M;
          first = (if near_lo then lo else hi); second = (if near_lo then hi else lo)
      in if reads_back f b first k then (first, k)
         else if reads_back f b second k then (second, k)
         else shortest more (Suc p) f b n d)"

definition max_digits :: "float_fmt \<Rightarrow> nat" where
  "max_digits f = (case f of F64 \<Rightarrow> 17 | F32 \<Rightarrow> 9)"

definition zeros :: "nat \<Rightarrow> bytes" where "zeros n = replicate n (CHR ''0'')"

text \<open>\<open>D * 10 ^ k\<close> in the format \<open>'f'\<close>.\<close>

definition fixed_text :: "nat \<Rightarrow> int \<Rightarrow> bytes" where
  "fixed_text D k =
     (if 0 \<le> k then (if D = 0 then ''0'' else dec_nat D @ zeros (nat k))
      else let j = nat (- k); fr = dec_nat (D mod 10 ^ j)
           in dec_nat (D div 10 ^ j) @ ''.'' @ zeros (j - length fr) @ fr)"

definition fmt_float :: "float_fmt \<Rightarrow> nat \<Rightarrow> bytes" where
  "fmt_float f b =
     (if IsNaN f b then ''NaN''
      else if IsInf f b then (if f_neg f b then ''-Inf'' else ''+Inf'')
      else (if f_neg f b then ''-'' else []) @
        (case f_ratio f b of
           (n, d) \<Rightarrow>
             if n = 0 then ''0''
             else case shortest (max_digits f - 1) 1 f (f_mag f b) n d of
                    (D, k) \<Rightarrow> fixed_text D k))"

section \<open>The shape of the text\<close>

lemma zeros_digits: "c \<in> set (zeros n) \<Longrightarrow> is_digit c"
  by (auto simp: zeros_def is_digit_def)

text \<open>An unsigned decimal as JSON has it: no leading zero, and digits behind a point.\<close>

definition json_decimal :: "bytes \<Rightarrow> bool" where
  "json_decimal s \<longleftrightarrow>
     (\<exists>a b. (s = a \<or> s = a @ ''.'' @ b) \<and> a \<noteq> [] \<and> b \<noteq> [] \<and>
        (\<forall>c \<in> set a. is_digit c) \<and> (\<forall>c \<in> set b. is_digit c) \<and>
        (length a = 1 \<or> hd a \<noteq> CHR ''0''))"

lemma dec_nat_lead: "length (dec_nat n) = 1 \<or> hd (dec_nat n) \<noteq> CHR ''0''"
proof (cases "n = 0")
  case False
  then show ?thesis using dec_nat_no_leading_zero by blast
qed simp

lemma dec_nat_0: "dec_nat 0 = ''0''"
  by (simp add: digit_def) (simp flip: byte_def)

lemma dec_nat_json: "json_decimal (dec_nat n)"
  unfolding json_decimal_def
  by (rule exI [of _ "dec_nat n"], rule exI [of _ "''0''"])
    (use dec_nat_digits dec_nat_nonempty dec_nat_lead in \<open>auto simp: is_digit_def\<close>)

lemma fixed_text_json: "json_decimal (fixed_text D k)"
proof (cases "0 \<le> k")
  case True
  show ?thesis
  proof (cases "D = 0")
    case True
    then show ?thesis using \<open>0 \<le> k\<close> dec_nat_json [of 0] by (simp add: fixed_text_def dec_nat_0 del: dec_nat_small)
  next
    case D: False
    have "hd (dec_nat D @ zeros (nat k)) \<noteq> CHR ''0''"
      using dec_nat_no_leading_zero [of D] D dec_nat_nonempty [of D] by simp
    then show ?thesis using True D unfolding json_decimal_def
      by (intro exI [of _ "dec_nat D @ zeros (nat k)"] exI [of _ "''0''"])
        (use dec_nat_digits dec_nat_nonempty zeros_digits in
          \<open>auto simp: fixed_text_def is_digit_def\<close>)
  qed
next
  case False
  let ?j = "nat (- k)"
  let ?fr = "dec_nat (D mod 10 ^ ?j)"
  show ?thesis using False unfolding json_decimal_def
    by (intro exI [of _ "dec_nat (D div 10 ^ ?j)"] exI [of _ "zeros (?j - length ?fr) @ ?fr"])
      (use dec_nat_digits dec_nat_nonempty zeros_digits dec_nat_lead in
        \<open>auto simp: fixed_text_def Let_def\<close>)
qed

lemma fmt_float_json:
  assumes "f_finite f b"
  obtains s where "fmt_float f b = s" "json_decimal s"
    | s where "fmt_float f b = CHR ''-'' # s" "json_decimal s"
proof -
  have nn: "\<not> IsNaN f b" "\<not> IsInf f b"
    using assms by (auto simp: f_finite_def IsNaN_def IsInf_def)
  have z: "json_decimal ''0''" using dec_nat_json [of 0] by (simp add: dec_nat_0 del: dec_nat_small)
  obtain n d where r: "f_ratio f b = (n, d)" by fastforce
  obtain D k where s: "shortest (max_digits f - 1) 1 f (f_mag f b) n d = (D, k)" by fastforce
  let ?s = "if n = 0 then ''0'' else fixed_text D k"
  have "json_decimal ?s" using z fixed_text_json by simp
  moreover have "fmt_float f b = (if f_neg f b then ''-'' else []) @ ?s"
    using nn r s by (simp add: fmt_float_def)
  ultimately show ?thesis using that by (cases "f_neg f b") auto
qed

end
