(* ===== verification/Lad_Prog.thy ===== *)
theory Lad_Prog
  imports Lad_Float
begin

text \<open>
  The interfaces between fields and encoders.  A marshaler (\<open>ObjectMarshaler\<close>,
  \<open>ArrayMarshaler\<close> of \<open>ladcore/marshaler.go\<close>) is the program of calls it makes on the
  encoder it is handed (\<open>ObjectEncoder\<close>, \<open>ArrayEncoder\<close>, \<open>PrimitiveArrayEncoder\<close> of
  \<open>ladcore/encoder.go\<close>); the encoder tells a program nothing but the errors of \<open>AddArray\<close>,
  \<open>AddObject\<close> and \<open>AddReflected\<close>, on which the rest of the program may depend.  Each encoder
  of the library is an interpreter of these programs.  The type variable stands for the values
  that only reflection can serialize.
\<close>

section \<open>Time\<close>

datatype location = UTC | Local | Zone bytes

text \<open>An instant in nanoseconds since the Unix epoch, with the location it is shown in.\<close>

datatype time = Instant (nanos: int) (loc: location)

definition UnixNano :: "time \<Rightarrow> int64" where
  "UnixNano t = word_of_int (nanos t)"

definition time_Unix0 :: "int64 \<Rightarrow> time" where
  "time_Unix0 n = Instant (sint n) Local"

definition time_In :: "time \<Rightarrow> location \<Rightarrow> time" where
  "time_In t l = Instant (nanos t) l"

text \<open>The zero \<open>time.Time\<close> is the first of January of the year 1.\<close>

definition IsZero :: "time \<Rightarrow> bool" where
  "IsZero t \<longleftrightarrow> nanos t = -62135596800 * 1000000000"

section \<open>Primitive values\<close>

type_synonym complex128 = "uint64 \<times> uint64"
type_synonym complex64 = "uint32 \<times> uint32"

text \<open>The methods of \<open>PrimitiveArrayEncoder\<close>; floats are bit patterns.\<close>

datatype prim =
    PBool bool
  | PByteString bytes
  | PComplex128 complex128
  | PComplex64 complex64
  | PFloat64 uint64
  | PFloat32 uint32
  | PInt int64
  | PInt64 int64
  | PInt32 int32
  | PInt16 int16
  | PInt8 int8
  | PString bytes
  | PUint uint64
  | PUint64 uint64
  | PUint32 uint32
  | PUint16 uint16
  | PUint8 uint8
  | PUintptr uint64

section \<open>Marshaler programs\<close>

text \<open>
  A \<open>fmt.Stringer\<close> is what its method returns and whether it is a nil pointer.  A value of
  an interface type is nil, one of the library's own types, or a value of some other type,
  given by the interfaces that it implements and what reflection sees.
\<close>

datatype stringer = StringerV (str_String: "bytes outcome") (str_nilptr: bool)

datatype 'v obj_prog =
    ORet "error option"
  | OPanic string
  | OPrim bytes prim "'v obj_prog"
  | OBinary bytes bytes "'v obj_prog"
  | ODuration bytes int64 "'v obj_prog"
  | OTime bytes time "'v obj_prog"
  | OArray bytes "'v arr_prog" "error option \<Rightarrow> 'v obj_prog"
  | OObject bytes "'v obj_prog" "error option \<Rightarrow> 'v obj_prog"
  | OReflected bytes "'v iface" "error option \<Rightarrow> 'v obj_prog"
  | ONamespace bytes "'v obj_prog"
and 'v arr_prog =
    ARet "error option"
  | APanic string
  | APrim prim "'v arr_prog"
  | ADuration int64 "'v arr_prog"
  | ATime time "'v arr_prog"
  | AArray "'v arr_prog" "error option \<Rightarrow> 'v arr_prog"
  | AObject "'v obj_prog" "error option \<Rightarrow> 'v arr_prog"
  | AReflected "'v iface" "error option \<Rightarrow> 'v arr_prog"
and 'v iface =
    INil
  | IObj "'v obj_prog"
  | IArr "'v arr_prog"
  | IErr error
  | IStringer stringer
  | IBytes bytes
  | IComplex128 complex128
  | IComplex64 complex64
  | ILocation location
  | ITime time
  | ICustom "'v obj_prog option" "'v arr_prog option" "error option" "stringer option" 'v

text \<open>Type assertions on interface values.\<close>

fun as_obj :: "'v iface \<Rightarrow> 'v obj_prog option" where
  "as_obj (IObj p) = Some p"
| "as_obj (ICustom p _ _ _ _) = p"
| "as_obj _ = None"

fun as_arr :: "'v iface \<Rightarrow> 'v arr_prog option" where
  "as_arr (IArr p) = Some p"
| "as_arr (ICustom _ p _ _ _) = p"
| "as_arr _ = None"

fun as_err :: "'v iface \<Rightarrow> error option" where
  "as_err (IErr e) = Some e"
| "as_err (ICustom _ _ e _ _) = e"
| "as_err _ = None"

fun as_stringer :: "'v iface \<Rightarrow> stringer option" where
  "as_stringer (IStringer s) = Some s"
| "as_stringer (ICustom _ _ _ s _) = s"
| "as_stringer _ = None"

text \<open>Running one program after another, the second one given the result of the first.\<close>

primrec obj_bind :: "'v obj_prog \<Rightarrow> (error option \<Rightarrow> 'v obj_prog) \<Rightarrow> 'v obj_prog" where
  "obj_bind (ORet e) f = f e"
| "obj_bind (OPanic m) f = OPanic m"
| "obj_bind (OPrim k v p) f = OPrim k v (obj_bind p f)"
| "obj_bind (OBinary k v p) f = OBinary k v (obj_bind p f)"
| "obj_bind (ODuration k v p) f = ODuration k v (obj_bind p f)"
| "obj_bind (OTime k v p) f = OTime k v (obj_bind p f)"
| "obj_bind (OArray k a g) f = OArray k a (\<lambda>e. obj_bind (g e) f)"
| "obj_bind (OObject k a g) f = OObject k a (\<lambda>e. obj_bind (g e) f)"
| "obj_bind (OReflected k a g) f = OReflected k a (\<lambda>e. obj_bind (g e) f)"
| "obj_bind (ONamespace k p) f = ONamespace k (obj_bind p f)"

end
