(* ===== verification/Lad_Buffer.thy ===== *)
theory Lad_Buffer
  imports Lad_Prog
begin

text \<open>
  The byte buffer of \<open>buffer/buffer.go\<close> and its pool (\<open>buffer/pool.go\<close>).  A buffer is the
  contents of its slice; the operations that only append are in the collection
  \<open>enc_simps\<close>.
\<close>

type_synonym buffer = bytes

definition AppendByte :: "buffer \<Rightarrow> char \<Rightarrow> buffer" where
  [enc_simps]: "AppendByte b v = b @ [v]"

definition AppendBytes :: "buffer \<Rightarrow> bytes \<Rightarrow> buffer" where
  [enc_simps]: "AppendBytes b v = b @ v"

definition AppendString :: "buffer \<Rightarrow> bytes \<Rightarrow> buffer" where
  [enc_simps]: "AppendString b s = b @ s"

definition AppendInt :: "buffer \<Rightarrow> int64 \<Rightarrow> buffer" where
  [enc_simps]: "AppendInt b i = b @ dec_int (sint i)"

definition AppendTime :: "(time \<Rightarrow> bytes \<Rightarrow> bytes) \<Rightarrow> buffer \<Rightarrow> time \<Rightarrow> bytes \<Rightarrow> buffer" where
  [enc_simps]: "AppendTime format b t layout = b @ format t layout"

definition AppendUint :: "buffer \<Rightarrow> uint64 \<Rightarrow> buffer" where
  [enc_simps]: "AppendUint b i = b @ dec_nat (unat i)"

definition AppendBool :: "buffer \<Rightarrow> bool \<Rightarrow> buffer" where
  [enc_simps]: "AppendBool b v = b @ (if v then ''true'' else ''false'')"

definition AppendFloat :: "buffer \<Rightarrow> float_fmt \<Rightarrow> nat \<Rightarrow> buffer" where
  [enc_simps]: "AppendFloat b f bits = b @ fmt_float f bits"

definition buf_Len :: "buffer \<Rightarrow> nat" where
  [enc_simps]: "buf_Len b = length b"

definition buf_Reset :: "buffer \<Rightarrow> buffer" where
  [enc_simps]: "buf_Reset b = []"

text \<open>\<open>Write\<close>, \<open>WriteByte\<close> and \<open>WriteString\<close> never fail and never write short.\<close>

definition buf_Write :: "buffer \<Rightarrow> bytes \<Rightarrow> buffer \<times> nat \<times> error option" where
  "buf_Write b bs = (b @ bs, length bs, None)"

definition buf_WriteByte :: "buffer \<Rightarrow> char \<Rightarrow> buffer \<times> error option" where
  "buf_WriteByte b v = (AppendByte b v, None)"

definition buf_WriteString :: "buffer \<Rightarrow> bytes \<Rightarrow> buffer \<times> nat \<times> error option" where
  "buf_WriteString b s = (AppendString b s, length s, None)"

definition TrimNewline :: "buffer \<Rightarrow> buffer" where
  "TrimNewline b = (if b \<noteq> [] \<and> last b = CHR 0x0A then butlast b else b)"

text \<open>
  A pool is the list of the buffers that were put back.  \<open>Get\<close> takes one, with whatever it
  held, or makes one, and resets it.
\<close>

definition Pool_Get :: "buffer list \<Rightarrow> buffer \<times> buffer list" where
  "Pool_Get p = (case p of [] \<Rightarrow> (buf_Reset [], []) | b # p' \<Rightarrow> (buf_Reset b, p'))"

definition Pool_put :: "buffer list \<Rightarrow> buffer \<Rightarrow> buffer list" where
  "Pool_put p b = b # p"

lemma Pool_Get_empty [simp]: "fst (Pool_Get p) = []"
  by (simp add: Pool_Get_def buf_Reset_def split: list.splits)

lemma TrimNewline_newline [simp]: "TrimNewline (b @ [CHR 0x0A]) = b"
  by (simp add: TrimNewline_def)

lemma TrimNewline_other [simp]: "c \<noteq> CHR 0x0A \<Longrightarrow> TrimNewline (b @ [c]) = b @ [c]"
  by (simp add: TrimNewline_def)

end
