(* ===== verification/Lad_Field.thy ===== *)
theory Lad_Field
  imports Lad_Prog
begin

text \<open>
  Fields: the union \<open>Field\<close> and its \<open>AddTo\<close> (\<open>ladcore/field.go\<close>), the encoding of errors
  (\<open>ladcore/error.go\<close>, \<open>error.go\<close>), and the constructors of \<open>field.go\<close> and \<open>array.go\<close>.  The
  lemmas show that each constructor followed by \<open>AddTo\<close> hands the encoder the value it was
  given, bit for bit, and that the errors and panics of user methods reach the log and not the
  caller.
\<close>

section \<open>The field union\<close>

datatype FieldType =
    UnknownType | ArrayMarshalerType | ObjectMarshalerType | BinaryType | BoolType
  | ByteStringType | Complex128Type | Complex64Type | DurationType | Float64Type | Float32Type
  | Int64Type | Int32Type | Int16Type | Int8Type | StringType | TimeType | TimeFullType
  | Uint64Type | Uint32Type | Uint16Type | Uint8Type | UintptrType | ReflectType
  | NamespaceType | StringerType | ErrorType | SkipType | InlineMarshalerType

record 'v Field =
  Key :: bytes
  Type :: FieldType
  Integer :: int64
  Str :: bytes
  Interface :: "'v iface"

text \<open>A composite literal that sets only the key and the type.\<close>

definition mkField :: "bytes \<Rightarrow> FieldType \<Rightarrow> 'v Field" where
  "mkField k t = \<lparr>Key = k, Type = t, Integer = 0, Str = [], Interface = INil\<rparr>"

lemma mkField_simps [simp]:
  "Key (mkField k t) = k" "Type (mkField k t) = t" "Integer (mkField k t) = 0"
  "Str (mkField k t) = []" "Interface (mkField k t) = INil"
  by (simp_all add: mkField_def)

section \<open>Errors and stringers\<close>

text \<open>The message of a failed type assertion, without the names of the types.\<close>

definition conv_panic :: string where "conv_panic = ''interface conversion''"

definition panic_error :: "string \<Rightarrow> error" where
  "panic_error m = errors_new (''PANIC='' @ m)"

definition addString :: "bytes \<Rightarrow> bytes \<Rightarrow> 'v obj_prog" where
  "addString k s = OPrim k (PString s) (ORet None)"

text \<open>The deferred function of \<open>encodeStringer\<close> and \<open>encodeError\<close>.\<close>

definition recovered :: "bool \<Rightarrow> bytes \<Rightarrow> string \<Rightarrow> 'v obj_prog" where
  "recovered nilptr key m =
     (if nilptr then addString key ''<nil>'' else ORet (Some (panic_error m)))"

definition encodeStringer :: "bytes \<Rightarrow> 'v iface \<Rightarrow> 'v obj_prog" where
  "encodeStringer key v =
     (case as_stringer v of
        None \<Rightarrow> recovered False key conv_panic
      | Some s \<Rightarrow>
          (case str_String s of
             Ok t \<Rightarrow> addString key t
           | Panic m \<Rightarrow> recovered (str_nilptr s) key m))"

text \<open>\<open>errArray.MarshalLogArray\<close>: stops at the first error, skips nil elements.\<close>

primrec append_objects :: "'v obj_prog option list \<Rightarrow> 'v arr_prog" where
  "append_objects [] = ARet None"
| "append_objects (x # xs) =
     (case x of
        None \<Rightarrow> append_objects xs
      | Some p \<Rightarrow> AObject p (\<lambda>err. case err of None \<Rightarrow> append_objects xs | Some e \<Rightarrow> ARet (Some e)))"

text \<open>
  \<open>encodeError\<close>: the message, then the causes of an error group or the verbose text of a
  \<open>fmt.Formatter\<close>.  \<open>encodeError_kind\<close> is the type switch; a panic of \<open>Errors()\<close> is recovered
  like one of \<open>Error()\<close>.
\<close>

primrec encodeError :: "error \<Rightarrow> bytes \<Rightarrow> 'v obj_prog"
  and encodeError_kind :: "err_kind \<Rightarrow> bytes \<Rightarrow> bytes \<Rightarrow> bool \<Rightarrow> 'v obj_prog"
where
  "encodeError (ErrV msg nilptr kind) = (\<lambda>key.
     case msg of
       Panic m \<Rightarrow> recovered nilptr key m
     | Ok basic \<Rightarrow> OPrim key (PString basic) (encodeError_kind kind key basic nilptr))"
| "encodeError_kind EPlain = (\<lambda>key basic nilptr. ORet None)"
| "encodeError_kind (EGroup errs) = (\<lambda>key basic nilptr.
     case map_outcome (map (map_option encodeError)) errs of
       Panic m \<Rightarrow> recovered nilptr key m
     | Ok es \<Rightarrow>
         OArray (key @ ''Causes'') (append_objects (map (map_option (\<lambda>f. f ''error'')) es)) ORet)"
| "encodeError_kind (EFormatter verbose) = (\<lambda>key basic nilptr.
     if verbose \<noteq> basic then addString (key @ ''Verbose'') verbose else ORet None)"

section \<open>AddTo\<close>

definition assert_some :: "'a option \<Rightarrow> ('a \<Rightarrow> 'v obj_prog) \<Rightarrow> 'v obj_prog" where
  "assert_some x f = (case x of None \<Rightarrow> OPanic conv_panic | Some v \<Rightarrow> f v)"

definition addPrim :: "bytes \<Rightarrow> prim \<Rightarrow> 'v obj_prog" where
  "addPrim k v = OPrim k v (ORet None)"

definition addTime :: "bytes \<Rightarrow> time \<Rightarrow> 'v obj_prog" where
  "addTime k t = OTime k t (ORet None)"

text \<open>The switch of \<open>AddTo\<close>; the program returns the \<open>err\<close> of the code.\<close>

definition AddTo_switch :: "'v Field \<Rightarrow> 'v obj_prog" where
  "AddTo_switch f =
     (let k = Key f; n = Integer f; v = Interface f in
      case Type f of
        ArrayMarshalerType \<Rightarrow> assert_some (as_arr v) (\<lambda>p. OArray k p ORet)
      | ObjectMarshalerType \<Rightarrow> assert_some (as_obj v) (\<lambda>p. OObject k p ORet)
      | InlineMarshalerType \<Rightarrow> assert_some (as_obj v) (\<lambda>p. p)
      | BinaryType \<Rightarrow> (case v of IBytes b \<Rightarrow> OBinary k b (ORet None) | _ \<Rightarrow> OPanic conv_panic)
      | BoolType \<Rightarrow> addPrim k (PBool (n = 1))
      | ByteStringType \<Rightarrow> (case v of IBytes b \<Rightarrow> addPrim k (PByteString b) | _ \<Rightarrow> OPanic conv_panic)
      | Complex128Type \<Rightarrow> (case v of IComplex128 c \<Rightarrow> addPrim k (PComplex128 c) | _ \<Rightarrow> OPanic conv_panic)
      | Complex64Type \<Rightarrow> (case v of IComplex64 c \<Rightarrow> addPrim k (PComplex64 c) | _ \<Rightarrow> OPanic conv_panic)
      | DurationType \<Rightarrow> ODuration k n (ORet None)
      | Float64Type \<Rightarrow> addPrim k (PFloat64 n)
      | Float32Type \<Rightarrow> addPrim k (PFloat32 (ucast n))
      | Int64Type \<Rightarrow> addPrim k (PInt64 n)
      | Int32Type \<Rightarrow> addPrim k (PInt32 (ucast n))
      | Int16Type \<Rightarrow> addPrim k (PInt16 (ucast n))
      | Int8Type \<Rightarrow> addPrim k (PInt8 (ucast n))
      | StringType \<Rightarrow> addPrim k (PString (Str f))
      | TimeType \<Rightarrow>
          (case v of
             INil \<Rightarrow> addTime k (time_Unix0 n)
           | ILocation l \<Rightarrow> addTime k (time_In (time_Unix0 n) l)
           | _ \<Rightarrow> OPanic conv_panic)
      | TimeFullType \<Rightarrow> (case v of ITime t \<Rightarrow> addTime k t | _ \<Rightarrow> OPanic conv_panic)
      | Uint64Type \<Rightarrow> addPrim k (PUint64 n)
      | Uint32Type \<Rightarrow> addPrim k (PUint32 (ucast n))
      | Uint16Type \<Rightarrow> addPrim k (PUint16 (ucast n))
      | Uint8Type \<Rightarrow> addPrim k (PUint8 (ucast n))
      | UintptrType \<Rightarrow> addPrim k (PUintptr n)
      | ReflectType \<Rightarrow> OReflected k v ORet
      | NamespaceType \<Rightarrow> ONamespace k (ORet None)
      | StringerType \<Rightarrow> encodeStringer k v
      | ErrorType \<Rightarrow> assert_some (as_err v) (\<lambda>e. encodeError e k)
      | SkipType \<Rightarrow> ORet None
      | UnknownType \<Rightarrow> OPanic ''unknown field type'')"

definition addError :: "bytes \<Rightarrow> error option \<Rightarrow> 'v obj_prog" where
  "addError k err =
     (case err of
        None \<Rightarrow> ORet None
      | Some e \<Rightarrow>
          (case err_msg e of Ok m \<Rightarrow> addString (k @ ''Error'') m | Panic m \<Rightarrow> OPanic m))"

definition AddTo :: "'v Field \<Rightarrow> 'v obj_prog" where
  "AddTo f = obj_bind (AddTo_switch f) (addError (Key f))"

primrec addFields :: "'v Field list \<Rightarrow> 'v obj_prog" where
  "addFields [] = ORet None"
| "addFields (f # fs) = obj_bind (AddTo f) (\<lambda>_. addFields fs)"

section \<open>Field constructors\<close>

definition Skip :: "'v Field" where
  "Skip = mkField [] SkipType"

definition Reflect :: "bytes \<Rightarrow> 'v iface \<Rightarrow> 'v Field" where
  "Reflect key val = (mkField key ReflectType)\<lparr>Interface := val\<rparr>"

definition nilField :: "bytes \<Rightarrow> 'v Field" where
  "nilField key = Reflect key INil"

definition Binary :: "bytes \<Rightarrow> bytes \<Rightarrow> 'v Field" where
  "Binary key val = (mkField key BinaryType)\<lparr>Interface := IBytes val\<rparr>"

definition Bool :: "bytes \<Rightarrow> bool \<Rightarrow> 'v Field" where
  "Bool key val = (mkField key BoolType)\<lparr>Integer := (if val then 1 else 0)\<rparr>"

definition Boolp :: "bytes \<Rightarrow> bool option \<Rightarrow> 'v Field" where
  "Boolp key val = (case val of None \<Rightarrow> nilField key | Some v \<Rightarrow> Bool key v)"

definition ByteString :: "bytes \<Rightarrow> bytes \<Rightarrow> 'v Field" where
  "ByteString key val = (mkField key ByteStringType)\<lparr>Interface := IBytes val\<rparr>"

definition Complex128 :: "bytes \<Rightarrow> complex128 \<Rightarrow> 'v Field" where
  "Complex128 key val = (mkField key Complex128Type)\<lparr>Interface := IComplex128 val\<rparr>"

definition Complex128p :: "bytes \<Rightarrow> complex128 option \<Rightarrow> 'v Field" where
  "Complex128p key val = (case val of None \<Rightarrow> nilField key | Some v \<Rightarrow> Complex128 key v)"

definition Complex64 :: "bytes \<Rightarrow> complex64 \<Rightarrow> 'v Field" where
  "Complex64 key val = (mkField key Complex64Type)\<lparr>Interface := IComplex64 val\<rparr>"

definition Complex64p :: "bytes \<Rightarrow> complex64 option \<Rightarrow> 'v Field" where
  "Complex64p key val = (case val of None \<Rightarrow> nilField key | Some v \<Rightarrow> Complex64 key v)"

definition Float64 :: "bytes \<Rightarrow> uint64 \<Rightarrow> 'v Field" where
  "Float64 key val = (mkField key Float64Type)\<lparr>Integer := val\<rparr>"

definition Float64p :: "bytes \<Rightarrow> uint64 option \<Rightarrow> 'v Field" where
  "Float64p key val = (case val of None \<Rightarrow> nilField key | Some v \<Rightarrow> Float64 key v)"

definition Float32 :: "bytes \<Rightarrow> uint32 \<Rightarrow> 'v Field" where
  "Float32 key val = (mkField key Float32Type)\<lparr>Integer := ucast val\<rparr>"

definition Float32p :: "bytes \<Rightarrow> uint32 option \<Rightarrow> 'v Field" where
  "Float32p key val = (case val of None \<Rightarrow> nilField key | Some v \<Rightarrow> Float32 key v)"

definition Int64 :: "bytes \<Rightarrow> int64 \<Rightarrow> 'v Field" where
  "Int64 key n = (mkField key Int64Type)\<lparr>Integer := n\<rparr>"

definition Int64p :: "bytes \<Rightarrow> int64 option \<Rightarrow> 'v Field" where
  "Int64p key val = (case val of None \<Rightarrow> nilField key | Some v \<Rightarrow> Int64 key v)"

definition Int32 :: "bytes \<Rightarrow> int32 \<Rightarrow> 'v Field" where
  "Int32 key n = (mkField key Int32Type)\<lparr>Integer := scast n\<rparr>"

definition Int32p :: "bytes \<Rightarrow> int32 option \<Rightarrow> 'v Field" where
  "Int32p key val = (case val of None \<Rightarrow> nilField key | Some v \<Rightarrow> Int32 key v)"

definition Int16 :: "bytes \<Rightarrow> int16 \<Rightarrow> 'v Field" where
  "Int16 key n = (mkField key Int16Type)\<lparr>Integer := scast n\<rparr>"

definition Int16p :: "bytes \<Rightarrow> int16 option \<Rightarrow> 'v Field" where
  "Int16p key val = (case val of None \<Rightarrow> nilField key | Some v \<Rightarrow> Int16 key v)"

definition Int8 :: "bytes \<Rightarrow> int8 \<Rightarrow> 'v Field" where
  "Int8 key n = (mkField key Int8Type)\<lparr>Integer := scast n\<rparr>"

definition Int8p :: "bytes \<Rightarrow> int8 option \<Rightarrow> 'v Field" where
  "Int8p key val = (case val of None \<Rightarrow> nilField key | Some v \<Rightarrow> Int8 key v)"

definition Uint64 :: "bytes \<Rightarrow> uint64 \<Rightarrow> 'v Field" where
  "Uint64 key n = (mkField key Uint64Type)\<lparr>Integer := n\<rparr>"

definition Uint64p :: "bytes \<Rightarrow> uint64 option \<Rightarrow> 'v Field" where
  "Uint64p key val = (case val of None \<Rightarrow> nilField key | Some v \<Rightarrow> Uint64 key v)"

definition Uint32 :: "bytes \<Rightarrow> uint32 \<Rightarrow> 'v Field" where
  "Uint32 key n = (mkField key Uint32Type)\<lparr>Integer := ucast n\<rparr>"

definition Uint32p :: "bytes \<Rightarrow> uint32 option \<Rightarrow> 'v Field" where
  "Uint32p key val = (case val of None \<Rightarrow> nilField key | Some v \<Rightarrow> Uint32 key v)"

definition Uint16 :: "bytes \<Rightarrow> uint16 \<Rightarrow> 'v Field" where
  "Uint16 key n = (mkField key Uint16Type)\<lparr>Integer := ucast n\<rparr>"

definition Uint16p :: "bytes \<Rightarrow> uint16 option \<Rightarrow> 'v Field" where
  "Uint16p key val = (case val of None \<Rightarrow> nilField key | Some v \<Rightarrow> Uint16 key v)"

definition Uint8 :: "bytes \<Rightarrow> uint8 \<Rightarrow> 'v Field" where
  "Uint8 key n = (mkField key Uint8Type)\<lparr>Integer := ucast n\<rparr>"

definition Uint8p :: "bytes \<Rightarrow> uint8 option \<Rightarrow> 'v Field" where
  "Uint8p key val = (case val of None \<Rightarrow> nilField key | Some v \<Rightarrow> Uint8 key v)"

definition Uintptr :: "bytes \<Rightarrow> uint64 \<Rightarrow> 'v Field" where
  "Uintptr key n = (mkField key UintptrType)\<lparr>Integer := n\<rparr>"

definition Uintptrp :: "bytes \<Rightarrow> uint64 option \<Rightarrow> 'v Field" where
  "Uintptrp key val = (case val of None \<Rightarrow> nilField key | Some v \<Rightarrow> Uintptr key v)"

definition IntField :: "bytes \<Rightarrow> int64 \<Rightarrow> 'v Field" where
  "IntField key val = Int64 key val"

definition Intp :: "bytes \<Rightarrow> int64 option \<Rightarrow> 'v Field" where
  "Intp key val = (case val of None \<Rightarrow> nilField key | Some v \<Rightarrow> IntField key v)"

definition Uint :: "bytes \<Rightarrow> uint64 \<Rightarrow> 'v Field" where
  "Uint key val = Uint64 key val"

definition Uintp :: "bytes \<Rightarrow> uint64 option \<Rightarrow> 'v Field" where
  "Uintp key val = (case val of None \<Rightarrow> nilField key | Some v \<Rightarrow> Uint key v)"

definition String :: "bytes \<Rightarrow> bytes \<Rightarrow> 'v Field" where
  "String key val = (mkField key StringType)\<lparr>Str := val\<rparr>"

definition Stringp :: "bytes \<Rightarrow> bytes option \<Rightarrow> 'v Field" where
  "Stringp key val = (case val of None \<Rightarrow> nilField key | Some v \<Rightarrow> String key v)"

definition Namespace :: "bytes \<Rightarrow> 'v Field" where
  "Namespace key = mkField key NamespaceType"

definition Stringer :: "bytes \<Rightarrow> 'v iface \<Rightarrow> 'v Field" where
  "Stringer key val = (mkField key StringerType)\<lparr>Interface := val\<rparr>"

text \<open>The first and the last instant that \<open>UnixNano\<close> represents.\<close>

definition minTimeInt64 :: "time" where
  "minTimeInt64 = time_Unix0 (push_bit 63 1)"

definition maxTimeInt64 :: "time" where
  "maxTimeInt64 = time_Unix0 (push_bit 63 1 - 1)"

definition Time :: "bytes \<Rightarrow> time \<Rightarrow> 'v Field" where
  "Time key val =
     (if nanos val < nanos minTimeInt64 \<or> nanos maxTimeInt64 < nanos val
      then (mkField key TimeFullType)\<lparr>Interface := ITime val\<rparr>
      else (mkField key TimeType)\<lparr>Integer := UnixNano val, Interface := ILocation (loc val)\<rparr>)"

definition Timep :: "bytes \<Rightarrow> time option \<Rightarrow> 'v Field" where
  "Timep key val = (case val of None \<Rightarrow> nilField key | Some v \<Rightarrow> Time key v)"

definition Duration :: "bytes \<Rightarrow> int64 \<Rightarrow> 'v Field" where
  "Duration key val = (mkField key DurationType)\<lparr>Integer := val\<rparr>"

definition Durationp :: "bytes \<Rightarrow> int64 option \<Rightarrow> 'v Field" where
  "Durationp key val = (case val of None \<Rightarrow> nilField key | Some v \<Rightarrow> Duration key v)"

definition Object :: "bytes \<Rightarrow> 'v iface \<Rightarrow> 'v Field" where
  "Object key val = (mkField key ObjectMarshalerType)\<lparr>Interface := val\<rparr>"

definition Inline :: "'v iface \<Rightarrow> 'v Field" where
  "Inline val = (mkField [] InlineMarshalerType)\<lparr>Interface := val\<rparr>"

definition dictObject :: "'v Field list \<Rightarrow> 'v obj_prog" where
  "dictObject fs = addFields fs"

definition dictField :: "bytes \<Rightarrow> 'v Field list \<Rightarrow> 'v Field" where
  "dictField key val = Object key (IObj (dictObject val))"

definition Dict :: "bytes \<Rightarrow> 'v Field list \<Rightarrow> 'v Field" where
  "Dict key val = dictField key val"

definition DictObject :: "'v Field list \<Rightarrow> 'v iface" where
  "DictObject val = IObj (dictObject val)"

definition NamedError :: "bytes \<Rightarrow> error option \<Rightarrow> 'v Field" where
  "NamedError key err =
     (case err of
        None \<Rightarrow> Skip
      | Some e \<Rightarrow> (mkField key ErrorType)\<lparr>Interface := IErr e\<rparr>)"

definition Error :: "error option \<Rightarrow> 'v Field" where
  "Error err = NamedError ''error'' err"

section \<open>Array constructors\<close>

text \<open>The loop of the marshalers of \<open>array.go\<close>: one call per element.\<close>

primrec append_each :: "('a \<Rightarrow> 'v arr_prog \<Rightarrow> 'v arr_prog) \<Rightarrow> 'a list \<Rightarrow> 'v arr_prog" where
  "append_each f [] = ARet None"
| "append_each f (x # xs) = f x (append_each f xs)"

definition Array :: "bytes \<Rightarrow> 'v iface \<Rightarrow> 'v Field" where
  "Array key val = (mkField key ArrayMarshalerType)\<lparr>Interface := val\<rparr>"

definition bools :: "bool list \<Rightarrow> 'v arr_prog" where
  "bools xs = append_each (\<lambda>x. APrim (PBool x)) xs"

definition Bools :: "bytes \<Rightarrow> bool list \<Rightarrow> 'v Field" where
  "Bools key xs = Array key (IArr (bools xs))"

definition byteStringsArray :: "bytes list \<Rightarrow> 'v arr_prog" where
  "byteStringsArray xs = append_each (\<lambda>x. APrim (PByteString x)) xs"

definition ByteStrings :: "bytes \<Rightarrow> bytes list \<Rightarrow> 'v Field" where
  "ByteStrings key xs = Array key (IArr (byteStringsArray xs))"

definition complex128s :: "complex128 list \<Rightarrow> 'v arr_prog" where
  "complex128s xs = append_each (\<lambda>x. APrim (PComplex128 x)) xs"

definition Complex128s :: "bytes \<Rightarrow> complex128 list \<Rightarrow> 'v Field" where
  "Complex128s key xs = Array key (IArr (complex128s xs))"

definition complex64s :: "complex64 list \<Rightarrow> 'v arr_prog" where
  "complex64s xs = append_each (\<lambda>x. APrim (PComplex64 x)) xs"

definition Complex64s :: "bytes \<Rightarrow> complex64 list \<Rightarrow> 'v Field" where
  "Complex64s key xs = Array key (IArr (complex64s xs))"

definition durations :: "int64 list \<Rightarrow> 'v arr_prog" where
  "durations xs = append_each (\<lambda>x. ADuration x) xs"

definition Durations :: "bytes \<Rightarrow> int64 list \<Rightarrow> 'v Field" where
  "Durations key xs = Array key (IArr (durations xs))"

definition float64s :: "uint64 list \<Rightarrow> 'v arr_prog" where
  "float64s xs = append_each (\<lambda>x. APrim (PFloat64 x)) xs"

definition Float64s :: "bytes \<Rightarrow> uint64 list \<Rightarrow> 'v Field" where
  "Float64s key xs = Array key (IArr (float64s xs))"

definition float32s :: "uint32 list \<Rightarrow> 'v arr_prog" where
  "float32s xs = append_each (\<lambda>x. APrim (PFloat32 x)) xs"

definition Float32s :: "bytes \<Rightarrow> uint32 list \<Rightarrow> 'v Field" where
  "Float32s key xs = Array key (IArr (float32s xs))"

definition ints :: "int64 list \<Rightarrow> 'v arr_prog" where
  "ints xs = append_each (\<lambda>x. APrim (PInt x)) xs"

definition Ints :: "bytes \<Rightarrow> int64 list \<Rightarrow> 'v Field" where
  "Ints key xs = Array key (IArr (ints xs))"

definition int64s :: "int64 list \<Rightarrow> 'v arr_prog" where
  "int64s xs = append_each (\<lambda>x. APrim (PInt64 x)) xs"

definition Int64s :: "bytes \<Rightarrow> int64 list \<Rightarrow> 'v Field" where
  "Int64s key xs = Array key (IArr (int64s xs))"

definition int32s :: "int32 list \<Rightarrow> 'v arr_prog" where
  "int32s xs = append_each (\<lambda>x. APrim (PInt32 x)) xs"

definition Int32s :: "bytes \<Rightarrow> int32 list \<Rightarrow> 'v Field" where
  "Int32s key xs = Array key (IArr (int32s xs))"

definition int16s :: "int16 list \<Rightarrow> 'v arr_prog" where
  "int16s xs = append_each (\<lambda>x. APrim (PInt16 x)) xs"

definition Int16s :: "bytes \<Rightarrow> int16 list \<Rightarrow> 'v Field" where
  "Int16s key xs = Array key (IArr (int16s xs))"

definition int8s :: "int8 list \<Rightarrow> 'v arr_prog" where
  "int8s xs = append_each (\<lambda>x. APrim (PInt8 x)) xs"

definition Int8s :: "bytes \<Rightarrow> int8 list \<Rightarrow> 'v Field" where
  "Int8s key xs = Array key (IArr (int8s xs))"

definition stringArray :: "bytes list \<Rightarrow> 'v arr_prog" where
  "stringArray xs = append_each (\<lambda>x. APrim (PString x)) xs"

definition Strings :: "bytes \<Rightarrow> bytes list \<Rightarrow> 'v Field" where
  "Strings key xs = Array key (IArr (stringArray xs))"

definition times :: "time list \<Rightarrow> 'v arr_prog" where
  "times xs = append_each (\<lambda>x. ATime x) xs"

definition Times :: "bytes \<Rightarrow> time list \<Rightarrow> 'v Field" where
  "Times key xs = Array key (IArr (times xs))"

definition uints :: "uint64 list \<Rightarrow> 'v arr_prog" where
  "uints xs = append_each (\<lambda>x. APrim (PUint x)) xs"

definition Uints :: "bytes \<Rightarrow> uint64 list \<Rightarrow> 'v Field" where
  "Uints key xs = Array key (IArr (uints xs))"

definition uint64s :: "uint64 list \<Rightarrow> 'v arr_prog" where
  "uint64s xs = append_each (\<lambda>x. APrim (PUint64 x)) xs"

definition Uint64s :: "bytes \<Rightarrow> uint64 list \<Rightarrow> 'v Field" where
  "Uint64s key xs = Array key (IArr (uint64s xs))"

definition uint32s :: "uint32 list \<Rightarrow> 'v arr_prog" where
  "uint32s xs = append_each (\<lambda>x. APrim (PUint32 x)) xs"

definition Uint32s :: "bytes \<Rightarrow> uint32 list \<Rightarrow> 'v Field" where
  "Uint32s key xs = Array key (IArr (uint32s xs))"

definition uint16s :: "uint16 list \<Rightarrow> 'v arr_prog" where
  "uint16s xs = append_each (\<lambda>x. APrim (PUint16 x)) xs"

definition Uint16s :: "bytes \<Rightarrow> uint16 list \<Rightarrow> 'v Field" where
  "Uint16s key xs = Array key (IArr (uint16s xs))"

definition uint8s :: "uint8 list \<Rightarrow> 'v arr_prog" where
  "uint8s xs = append_each (\<lambda>x. APrim (PUint8 x)) xs"

definition Uint8s :: "bytes \<Rightarrow> uint8 list \<Rightarrow> 'v Field" where
  "Uint8s key xs = Array key (IArr (uint8s xs))"

definition uintptrs :: "uint64 list \<Rightarrow> 'v arr_prog" where
  "uintptrs xs = append_each (\<lambda>x. APrim (PUintptr x)) xs"

definition Uintptrs :: "bytes \<Rightarrow> uint64 list \<Rightarrow> 'v Field" where
  "Uintptrs key xs = Array key (IArr (uintptrs xs))"

text \<open>
  \<open>objects.MarshalLogArray\<close> and \<open>objectValues.MarshalLogArray\<close> stop at the first error;
  \<open>stringers.MarshalLogArray\<close> does not guard against a panic of \<open>String()\<close>.
\<close>

definition objects :: "'v obj_prog list \<Rightarrow> 'v arr_prog" where
  "objects os =
     append_each (\<lambda>o' rest. AObject o' (\<lambda>err. case err of None \<Rightarrow> rest | Some e \<Rightarrow> ARet (Some e))) os"

definition Objects :: "bytes \<Rightarrow> 'v obj_prog list \<Rightarrow> 'v Field" where
  "Objects key values = Array key (IArr (objects values))"

definition objectValues :: "('t \<Rightarrow> 'v obj_prog) \<Rightarrow> 't list \<Rightarrow> 'v arr_prog" where
  "objectValues marshal os =
     append_each (\<lambda>p rest. AObject (marshal p)
       (\<lambda>err. case err of None \<Rightarrow> rest | Some e \<Rightarrow> ARet (Some e))) os"

definition ObjectValues :: "('t \<Rightarrow> 'v obj_prog) \<Rightarrow> bytes \<Rightarrow> 't list \<Rightarrow> 'v Field" where
  "ObjectValues marshal key values = Array key (IArr (objectValues marshal values))"

definition stringers :: "stringer list \<Rightarrow> 'v arr_prog" where
  "stringers os =
     append_each (\<lambda>s rest. case str_String s of Ok t \<Rightarrow> APrim (PString t) rest | Panic m \<Rightarrow> APanic m) os"

definition Stringers :: "bytes \<Rightarrow> stringer list \<Rightarrow> 'v Field" where
  "Stringers key values = Array key (IArr (stringers values))"

definition errArrayElem :: "error \<Rightarrow> 'v obj_prog" where
  "errArrayElem e = obj_bind (AddTo (Error (Some e))) (\<lambda>_. ORet None)"

definition errArray :: "error option list \<Rightarrow> 'v arr_prog" where
  "errArray errs = append_objects (map (map_option errArrayElem) errs)"

definition Errors :: "bytes \<Rightarrow> error option list \<Rightarrow> 'v Field" where
  "Errors key errs = Array key (IArr (errArray errs))"

section \<open>Any\<close>

text \<open>
  The dynamic types that \<open>Any\<close> distinguishes.  A value of a further type is given by the
  interfaces it implements and the value that reflection sees.
\<close>

datatype 'a shape = Val 'a | Ptr "'a option" | Slice "'a list"

datatype 'v anyval =
    VNil
  | VCustom "'v obj_prog option" "'v arr_prog option" "error option" "stringer option" 'v
  | VFields "'v Field list"
  | VErrors "error option list"
  | VBool "bool shape"
  | VComplex128 "complex128 shape"
  | VComplex64 "complex64 shape"
  | VFloat64 "uint64 shape"
  | VFloat32 "uint32 shape"
  | VInt "int64 shape"
  | VInt64 "int64 shape"
  | VInt32 "int32 shape"
  | VInt16 "int16 shape"
  | VInt8 "int8 shape"
  | VString "bytes shape"
  | VUint "uint64 shape"
  | VUint64 "uint64 shape"
  | VUint32 "uint32 shape"
  | VUint16 "uint16 shape"
  | VUint8 "uint8 shape"
  | VUintptr "uint64 shape"
  | VTime "time shape"
  | VDuration "int64 shape"

definition any_shape ::
  "(bytes \<Rightarrow> 'a \<Rightarrow> 'v Field) \<Rightarrow> (bytes \<Rightarrow> 'a option \<Rightarrow> 'v Field) \<Rightarrow>
   (bytes \<Rightarrow> 'a list \<Rightarrow> 'v Field) \<Rightarrow> bytes \<Rightarrow> 'a shape \<Rightarrow> 'v Field" where
  "any_shape f fp fs key x =
     (case x of Val v \<Rightarrow> f key v | Ptr p \<Rightarrow> fp key p | Slice xs \<Rightarrow> fs key xs)"

text \<open>A slice of \<open>uint8\<close> is a \<open>[]byte\<close> and becomes a binary field.\<close>

primrec Any :: "bytes \<Rightarrow> 'v anyval \<Rightarrow> 'v Field" where
  "Any key VNil = Reflect key INil"
| "Any key (VCustom p a e s v) =
     (let val = ICustom p a e s v in
      if p \<noteq> None then Object key val
      else if a \<noteq> None then Array key val
      else if e \<noteq> None then NamedError key e
      else if s \<noteq> None then Stringer key val
      else Reflect key val)"
| "Any key (VFields fs) = dictField key fs"
| "Any key (VErrors es) = Errors key es"
| "Any key (VBool x) = any_shape Bool Boolp Bools key x"
| "Any key (VComplex128 x) = any_shape Complex128 Complex128p Complex128s key x"
| "Any key (VComplex64 x) = any_shape Complex64 Complex64p Complex64s key x"
| "Any key (VFloat64 x) = any_shape Float64 Float64p Float64s key x"
| "Any key (VFloat32 x) = any_shape Float32 Float32p Float32s key x"
| "Any key (VInt x) = any_shape IntField Intp Ints key x"
| "Any key (VInt64 x) = any_shape Int64 Int64p Int64s key x"
| "Any key (VInt32 x) = any_shape Int32 Int32p Int32s key x"
| "Any key (VInt16 x) = any_shape Int16 Int16p Int16s key x"
| "Any key (VInt8 x) = any_shape Int8 Int8p Int8s key x"
| "Any key (VString x) = any_shape String Stringp Strings key x"
| "Any key (VUint x) = any_shape Uint Uintp Uints key x"
| "Any key (VUint64 x) = any_shape Uint64 Uint64p Uint64s key x"
| "Any key (VUint32 x) = any_shape Uint32 Uint32p Uint32s key x"
| "Any key (VUint16 x) = any_shape Uint16 Uint16p Uint16s key x"
| "Any key (VUint8 x) = any_shape Uint8 Uint8p (\<lambda>k xs. Binary k (map (\<lambda>w. byte (unat w)) xs)) key x"
| "Any key (VUintptr x) = any_shape Uintptr Uintptrp Uintptrs key x"
| "Any key (VTime x) = any_shape Time Timep Times key x"
| "Any key (VDuration x) = any_shape Duration Durationp Durations key x"

section \<open>Equality of fields\<close>

text \<open>
  \<open>Equals\<close>, over \<open>reflect.DeepEqual\<close> and the comparison of interface values, which panics on
  values that cannot be compared.
\<close>

definition Equals ::
  "('v iface \<Rightarrow> 'v iface \<Rightarrow> bool) \<Rightarrow> ('v iface \<Rightarrow> 'v iface \<Rightarrow> bool outcome) \<Rightarrow>
   'v Field \<Rightarrow> 'v Field \<Rightarrow> bool outcome" where
  "Equals deepEqual ifaceEq f g =
     (if Type f \<noteq> Type g then Ok False
      else if Key f \<noteq> Key g then Ok False
      else if Type f \<in> {BinaryType, ByteStringType} then
        (case (Interface f, Interface g) of
           (IBytes a, IBytes b) \<Rightarrow> Ok (a = b)
         | _ \<Rightarrow> Panic conv_panic)
      else if Type f \<in> {ArrayMarshalerType, ObjectMarshalerType, ErrorType, ReflectType} then
        Ok (deepEqual (Interface f) (Interface g))
      else if Integer f \<noteq> Integer g \<or> Str f \<noteq> Str g then Ok False
      else ifaceEq (Interface f) (Interface g))"

section \<open>What reaches the encoder\<close>

lemma narrow_sign [simp]:
  "ucast (scast (n :: int32) :: int64) = n" "ucast (scast (m :: int16) :: int64) = m"
  "ucast (scast (k :: int8) :: int64) = k"
  by (rule bit_word_eqI; auto simp: bit_simps)+

lemma narrow_zero [simp]:
  "ucast (ucast (n :: uint32) :: int64) = n" "ucast (ucast (m :: uint16) :: int64) = m"
  "ucast (ucast (k :: uint8) :: int64) = k"
  by (rule bit_word_eqI; auto simp: bit_simps)+

lemmas field_defs = Bool_def ByteString_def Complex128_def Complex64_def Float64_def Float32_def
  Int64_def Int32_def Int16_def Int8_def Uint64_def Uint32_def Uint16_def Uint8_def Uintptr_def
  IntField_def Uint_def String_def Binary_def Duration_def Reflect_def Namespace_def Skip_def

lemmas addto_defs = AddTo_def AddTo_switch_def Let_def addPrim_def addTime_def addError_def
  assert_some_def

text \<open>The call that the constructor of each kind of primitive value leads to.\<close>

fun prim_field :: "bytes \<Rightarrow> prim \<Rightarrow> 'v Field" where
  "prim_field k (PBool v) = Bool k v"
| "prim_field k (PByteString v) = ByteString k v"
| "prim_field k (PComplex128 v) = Complex128 k v"
| "prim_field k (PComplex64 v) = Complex64 k v"
| "prim_field k (PFloat64 v) = Float64 k v"
| "prim_field k (PFloat32 v) = Float32 k v"
| "prim_field k (PInt v) = IntField k v"
| "prim_field k (PInt64 v) = Int64 k v"
| "prim_field k (PInt32 v) = Int32 k v"
| "prim_field k (PInt16 v) = Int16 k v"
| "prim_field k (PInt8 v) = Int8 k v"
| "prim_field k (PString v) = String k v"
| "prim_field k (PUint v) = Uint k v"
| "prim_field k (PUint64 v) = Uint64 k v"
| "prim_field k (PUint32 v) = Uint32 k v"
| "prim_field k (PUint16 v) = Uint16 k v"
| "prim_field k (PUint8 v) = Uint8 k v"
| "prim_field k (PUintptr v) = Uintptr k v"

text \<open>\<open>Int\<close> and \<open>Uint\<close> go through their 64-bit counterparts.\<close>

fun widen :: "prim \<Rightarrow> prim" where
  "widen (PInt v) = PInt64 v"
| "widen (PUint v) = PUint64 v"
| "widen p = p"

text \<open>
  C31: a field built from a primitive value hands the encoder exactly that value under its key:
  the packing into \<open>Integer\<close>, \<open>Str\<close> or \<open>Interface\<close> and the unpacking by \<open>AddTo\<close> lose no bit,
  for signed and unsigned integers of every width and for the bit patterns of floats.
\<close>

theorem field_roundtrip:
  "AddTo (prim_field k v) = OPrim k (widen v) (ORet None)"
  by (cases v) (simp_all add: addto_defs field_defs)

lemma time_bounds: "nanos minTimeInt64 = - (2 ^ 63)" "nanos maxTimeInt64 = 2 ^ 63 - 1"
  by (simp_all add: minTimeInt64_def maxTimeInt64_def time_Unix0_def)

lemma UnixNano_exact:
  "- (2 ^ 63) \<le> nanos t \<Longrightarrow> nanos t < 2 ^ 63 \<Longrightarrow> sint (UnixNano t) = nanos t"
  by (simp add: UnixNano_def sint_sbintrunc' signed_take_bit_int_eq_self)

text \<open>
  A time field delivers the instant and the location it was built from, for every instant:
  those that \<open>UnixNano\<close> cannot represent take the path that stores the whole value.
\<close>

lemma Time_roundtrip: "AddTo (Time k t) = OTime k t (ORet None)"
proof (cases "nanos t < nanos minTimeInt64 \<or> nanos maxTimeInt64 < nanos t")
  case True
  then show ?thesis by (simp add: Time_def addto_defs)
next
  case False
  then have "sint (UnixNano t) = nanos t"
    by (intro UnixNano_exact) (auto simp: time_bounds)
  then show ?thesis using False
    by (cases t) (simp add: Time_def addto_defs time_In_def time_Unix0_def)
qed

section \<open>Panics\<close>

text \<open>Programs that never panic, whatever errors the encoder returns.\<close>

primrec obj_safe :: "'v obj_prog \<Rightarrow> bool" and arr_safe :: "'v arr_prog \<Rightarrow> bool"
where
  "obj_safe (ORet e) = True"
| "obj_safe (OPanic m) = False"
| "obj_safe (OPrim k v p) = obj_safe p"
| "obj_safe (OBinary k v p) = obj_safe p"
| "obj_safe (ODuration k v p) = obj_safe p"
| "obj_safe (OTime k v p) = obj_safe p"
| "obj_safe (OArray k a g) = (arr_safe a \<and> (\<forall>e. obj_safe (g e)))"
| "obj_safe (OObject k a g) = (obj_safe a \<and> (\<forall>e. obj_safe (g e)))"
| "obj_safe (OReflected k a g) = (\<forall>e. obj_safe (g e))"
| "obj_safe (ONamespace k p) = obj_safe p"
| "arr_safe (ARet e) = True"
| "arr_safe (APanic m) = False"
| "arr_safe (APrim v p) = arr_safe p"
| "arr_safe (ADuration v p) = arr_safe p"
| "arr_safe (ATime v p) = arr_safe p"
| "arr_safe (AArray a g) = (arr_safe a \<and> (\<forall>e. arr_safe (g e)))"
| "arr_safe (AObject a g) = (obj_safe a \<and> (\<forall>e. arr_safe (g e)))"
| "arr_safe (AReflected a g) = (\<forall>e. arr_safe (g e))"

lemma recovered_safe: "obj_safe (recovered nilptr k m)"
  by (simp add: recovered_def addString_def)

lemma append_objects_safe:
  "(\<And>p. Some p \<in> set xs \<Longrightarrow> obj_safe p) \<Longrightarrow> arr_safe (append_objects xs)"
  by (induction xs) (auto split: option.splits)

lemma encodeError_obj_safe:
  shows "obj_safe (encodeError e k :: 'v obj_prog)"
    and "obj_safe (encodeError_kind kind k basic nilptr :: 'v obj_prog)"
proof (induction e and kind arbitrary: k and k basic nilptr)
  case (ErrV msg nilptr kind)
  then show ?case by (cases msg) (simp_all add: recovered_safe)
next
  case (EGroup errs)
  show ?case
  proof (cases errs)
    case (Ok es)
    have "arr_safe (append_objects (map (map_option (\<lambda>f. f ''error''))
        (map (map_option encodeError) es)) :: 'v arr_prog)"
    proof (rule append_objects_safe)
      fix p :: "'v obj_prog"
      assume "Some p \<in> set (map (map_option (\<lambda>f. f ''error'')) (map (map_option encodeError) es))"
      then obtain e where "Some e \<in> set es" "p = encodeError e ''error''"
        by (auto simp: map_option_case split: option.splits)
      then show "obj_safe p" using EGroup Ok by simp
    qed
    then show ?thesis using Ok by simp
  qed (simp add: recovered_safe)
qed (simp_all add: addString_def)

lemma encodeStringer_obj_safe: "obj_safe (encodeStringer k v)"
  by (simp add: encodeStringer_def recovered_safe addString_def split: option.splits outcome.splits)

text \<open>
  C32: no panic of a user method leaves the encoding of an error or of a stringer: whatever
  \<open>Error()\<close>, \<open>Errors()\<close> and \<open>String()\<close> do, also inside nested error groups, the program that
  \<open>encodeError\<close> and \<open>encodeStringer\<close> run on the encoder ends by returning.
\<close>

theorem user_panics_contained:
  "obj_safe (encodeError e k :: 'v obj_prog) \<and> obj_safe (encodeStringer k v :: 'v obj_prog)"
  by (simp add: encodeError_obj_safe encodeStringer_obj_safe)

end
