(* ===== verification/Lad_Encoder.thy ===== *)
theory Lad_Encoder
  imports Lad_Level Lad_Buffer Lad_Field
begin

text \<open>
  Entries (\<open>ladcore/entry.go\<close>) and the configuration of encoders with the standard primitive
  encoders (\<open>ladcore/encoder.go\<close>).  A level, time, duration, caller or name encoder is the
  list of calls it makes on the \<open>PrimitiveArrayEncoder\<close> it is handed.
\<close>

section \<open>Entries\<close>

record EntryCaller =
  Defined :: bool
  PC :: uint64
  File :: bytes
  Line :: int64
  Function :: bytes

definition zeroCaller :: EntryCaller where
  "zeroCaller = \<lparr>Defined = False, PC = 0, File = [], Line = 0, Function = []\<rparr>"

definition NewEntryCaller :: "uint64 \<Rightarrow> bytes \<Rightarrow> int64 \<Rightarrow> bool \<Rightarrow> EntryCaller" where
  "NewEntryCaller pc file line ok =
     (if \<not> ok then zeroCaller
      else \<lparr>Defined = True, PC = pc, File = file, Line = line, Function = []\<rparr>)"

definition FullPath :: "EntryCaller \<Rightarrow> bytes" where
  "FullPath ec =
     (if \<not> Defined ec then ''undefined''
      else AppendInt (AppendByte (AppendString [] (File ec)) (CHR '':'')) (Line ec))"

definition EntryCaller_String :: "EntryCaller \<Rightarrow> bytes" where
  "EntryCaller_String ec = FullPath ec"

definition TrimmedPath :: "EntryCaller \<Rightarrow> bytes" where
  "TrimmedPath ec =
     (if \<not> Defined ec then ''undefined''
      else case last_index_byte (CHR ''/'') (File ec) of
        None \<Rightarrow> FullPath ec
      | Some idx \<Rightarrow>
          (case last_index_byte (CHR ''/'') (take idx (File ec)) of
             None \<Rightarrow> FullPath ec
           | Some idx' \<Rightarrow>
               AppendInt (AppendByte (AppendString [] (drop (idx' + 1) (File ec))) (CHR '':''))
                 (Line ec)))"

record Entry =
  ent_Level :: level
  ent_Time :: time
  ent_LoggerName :: bytes
  ent_Message :: bytes
  ent_Caller :: EntryCaller
  ent_Stack :: bytes

section \<open>Primitive encoders\<close>

text \<open>
  What comes from outside: \<open>time.Time.Format\<close>, the default texts of times, durations and
  entries (\<open>%v\<close>, \<open>%+v\<close>), the text of \<open>fmt.Fprint\<close> for a float or a complex number, what
  \<open>json.Encoder.Encode\<close> writes for a value and the error it returns, and \<open>multierr.Append\<close>.
\<close>

record 'v env =
  TimeFormat :: "time \<Rightarrow> bytes \<Rightarrow> bytes"
  TimeString :: "time \<Rightarrow> bytes"
  DurationString :: "int64 \<Rightarrow> bytes"
  EntryString :: "Entry \<Rightarrow> bytes"
  FloatString :: "prim \<Rightarrow> bytes"
  JSONEncode :: "'v iface \<Rightarrow> bytes \<times> error option"
  multierr_Append :: "error option \<Rightarrow> error option \<Rightarrow> error option"

text \<open>The documented behaviour of \<open>multierr.Append\<close> that the code relies on.\<close>

definition multierr_ok :: "'v env \<Rightarrow> bool" where
  "multierr_ok E \<longleftrightarrow>
     (\<forall>e. multierr_Append E None e = e) \<and> (\<forall>e. multierr_Append E e None = e) \<and>
     (\<forall>a b. multierr_Append E (Some a) (Some b) \<noteq> None)"

lemma multierr_simps:
  "multierr_ok E \<Longrightarrow> multierr_Append E None e = e"
  "multierr_ok E \<Longrightarrow> multierr_Append E e None = e"
  "multierr_ok E \<Longrightarrow> multierr_Append E a b = None \<longleftrightarrow> a = None \<and> b = None"
  by (cases a; cases b; auto simp: multierr_ok_def)+

text \<open>\<open>%v\<close> of an error; \<open>fmt\<close> recovers a panic of \<open>Error()\<close>.\<close>

definition err_fmt :: "error \<Rightarrow> bytes" where
  "err_fmt e =
     (case err_msg e of
        Ok s \<Rightarrow> s
      | Panic m \<Rightarrow> if err_nilptr e then ''<nil>'' else ''%!v(PANIC=Error method: '' @ m @ '')'')"

text \<open>A time encoder may also use the optional method \<open>AppendTimeLayout\<close>.\<close>

datatype tcall = TPrim prim | TLayout time bytes

type_synonym LevelEncoder = "level \<Rightarrow> prim list"
type_synonym TimeEncoder = "time \<Rightarrow> tcall list"
type_synonym DurationEncoder = "int64 \<Rightarrow> prim list"
type_synonym CallerEncoder = "EntryCaller \<Rightarrow> prim list"
type_synonym NameEncoder = "bytes \<Rightarrow> prim list"

definition LowercaseLevelEncoder :: LevelEncoder where
  "LowercaseLevelEncoder l = [PString (Level_String l)]"

definition LowercaseColorLevelEncoder :: LevelEncoder where
  "LowercaseColorLevelEncoder l =
     [PString (case levelToLowercaseColorString l of
        Some s \<Rightarrow> s
      | None \<Rightarrow> Color_Add unknownLevelColor (Level_String l))]"

definition CapitalLevelEncoder :: LevelEncoder where
  "CapitalLevelEncoder l = [PString (CapitalString l)]"

definition CapitalColorLevelEncoder :: LevelEncoder where
  "CapitalColorLevelEncoder l =
     [PString (case levelToCapitalColorString l of
        Some s \<Rightarrow> s
      | None \<Rightarrow> Color_Add unknownLevelColor (CapitalString l))]"

definition LevelEncoder_UnmarshalText :: "bytes \<Rightarrow> LevelEncoder" where
  "LevelEncoder_UnmarshalText text =
     (if text = ''capital'' then CapitalLevelEncoder
      else if text = ''capitalColor'' then CapitalColorLevelEncoder
      else if text = ''color'' then LowercaseColorLevelEncoder
      else LowercaseLevelEncoder)"

definition bits_of :: "nat \<Rightarrow> uint64" where "bits_of n = of_nat n"

definition EpochTimeEncoder :: TimeEncoder where
  "EpochTimeEncoder t =
     [TPrim (PFloat64 (bits_of (f64_div (f64_of_int (sint (UnixNano t))) (f64_of_int 1000000000))))]"

definition EpochMillisTimeEncoder :: TimeEncoder where
  "EpochMillisTimeEncoder t =
     [TPrim (PFloat64 (bits_of (f64_div (f64_of_int (sint (UnixNano t))) (f64_of_int 1000000))))]"

definition EpochNanosTimeEncoder :: TimeEncoder where
  "EpochNanosTimeEncoder t = [TPrim (PInt64 (UnixNano t))]"

definition encodeTimeLayout :: "time \<Rightarrow> bytes \<Rightarrow> tcall list" where
  "encodeTimeLayout t layout = [TLayout t layout]"

definition ISO8601TimeEncoder :: TimeEncoder where
  "ISO8601TimeEncoder t = encodeTimeLayout t ''2006-01-02T15:04:05.000Z0700''"

definition RFC3339TimeEncoder :: TimeEncoder where
  "RFC3339TimeEncoder t = encodeTimeLayout t ''2006-01-02T15:04:05Z07:00''"

definition RFC3339NanoTimeEncoder :: TimeEncoder where
  "RFC3339NanoTimeEncoder t = encodeTimeLayout t ''2006-01-02T15:04:05.999999999Z07:00''"

definition TimeEncoderOfLayout :: "bytes \<Rightarrow> TimeEncoder" where
  "TimeEncoderOfLayout layout = (\<lambda>t. encodeTimeLayout t layout)"

definition TimeEncoder_UnmarshalText :: "bytes \<Rightarrow> TimeEncoder" where
  "TimeEncoder_UnmarshalText text =
     (if text = ''rfc3339nano'' \<or> text = ''RFC3339Nano'' then RFC3339NanoTimeEncoder
      else if text = ''rfc3339'' \<or> text = ''RFC3339'' then RFC3339TimeEncoder
      else if text = ''iso8601'' \<or> text = ''ISO8601'' then ISO8601TimeEncoder
      else if text = ''millis'' then EpochMillisTimeEncoder
      else if text = ''nanos'' then EpochNanosTimeEncoder
      else EpochTimeEncoder)"

text \<open>
  \<open>UnmarshalYAML\<close>, given what unmarshalling into the layout struct and into a string yields.
  \<open>UnmarshalJSON\<close> is the same function over a JSON document.
\<close>

definition TimeEncoder_UnmarshalYAML ::
  "error + bytes \<Rightarrow> error + bytes \<Rightarrow> error + TimeEncoder" where
  "TimeEncoder_UnmarshalYAML as_struct as_string =
     (case as_struct of
        Inr layout \<Rightarrow> Inr (TimeEncoderOfLayout layout)
      | Inl _ \<Rightarrow>
          (case as_string of
             Inl err \<Rightarrow> Inl err
           | Inr s \<Rightarrow> Inr (TimeEncoder_UnmarshalText s)))"

definition SecondsDurationEncoder :: DurationEncoder where
  "SecondsDurationEncoder d =
     [PFloat64 (bits_of (f64_div (f64_of_int (sint d)) (f64_of_int 1000000000)))]"

definition NanosDurationEncoder :: DurationEncoder where
  "NanosDurationEncoder d = [PInt64 d]"

text \<open>Integer division truncates towards zero.\<close>

definition quot :: "int \<Rightarrow> int \<Rightarrow> int" where
  "quot a b = (if 0 \<le> a then a div b else - ((- a) div b))"

definition MillisDurationEncoder :: DurationEncoder where
  "MillisDurationEncoder d = [PInt64 (word_of_int (quot (sint d) 1000000))]"

definition StringDurationEncoder :: "'v env \<Rightarrow> DurationEncoder" where
  "StringDurationEncoder E d = [PString (DurationString E d)]"

definition DurationEncoder_UnmarshalText :: "'v env \<Rightarrow> bytes \<Rightarrow> DurationEncoder" where
  "DurationEncoder_UnmarshalText E text =
     (if text = ''string'' then StringDurationEncoder E
      else if text = ''nanos'' then NanosDurationEncoder
      else if text = ''ms'' then MillisDurationEncoder
      else SecondsDurationEncoder)"

definition FullCallerEncoder :: CallerEncoder where
  "FullCallerEncoder caller = [PString (EntryCaller_String caller)]"

definition ShortCallerEncoder :: CallerEncoder where
  "ShortCallerEncoder caller = [PString (TrimmedPath caller)]"

definition CallerEncoder_UnmarshalText :: "bytes \<Rightarrow> CallerEncoder" where
  "CallerEncoder_UnmarshalText text =
     (if text = ''full'' then FullCallerEncoder else ShortCallerEncoder)"

definition FullNameEncoder :: NameEncoder where
  "FullNameEncoder loggerName = [PString loggerName]"

definition NameEncoder_UnmarshalText :: "bytes \<Rightarrow> NameEncoder" where
  "NameEncoder_UnmarshalText text = FullNameEncoder"

section \<open>Configuration\<close>

definition DefaultLineEnding :: bytes where "DefaultLineEnding = [CHR 0x0A]"

record 'v EncoderConfig =
  MessageKey :: bytes
  LevelKey :: bytes
  TimeKey :: bytes
  NameKey :: bytes
  CallerKey :: bytes
  FunctionKey :: bytes
  StacktraceKey :: bytes
  SkipLineEnding :: bool
  LineEnding :: bytes
  EncodeLevel :: "LevelEncoder option"
  EncodeTime :: "TimeEncoder option"
  EncodeDuration :: "DurationEncoder option"
  EncodeCaller :: "CallerEncoder option"
  EncodeName :: "NameEncoder option"
  NewReflectedEncoder :: "('v iface \<Rightarrow> bytes \<times> error option) option"
  ConsoleSeparator :: bytes

section \<open>Properties\<close>

text \<open>
  The trimmed path of a caller keeps exactly the leaf directory and the file name: with at
  least two separators in the path, what follows the penultimate one, and the line number.
\<close>

lemma TrimmedPath_leaf:
  assumes "Defined ec" and "File ec = pre @ CHR ''/'' # dir @ CHR ''/'' # leaf"
    and "CHR ''/'' \<notin> set dir" and "CHR ''/'' \<notin> set leaf"
  shows "TrimmedPath ec = dir @ ''/'' @ leaf @ '':'' @ dec_int (sint (Line ec))"
proof -
  have "last_index_byte (CHR ''/'') (File ec) = Some (length (pre @ CHR ''/'' # dir))"
    using last_index_byte_append [OF assms(4), of "pre @ CHR ''/'' # dir"] assms(2) by simp
  moreover have "last_index_byte (CHR ''/'') (pre @ CHR ''/'' # dir) = Some (length pre)"
    by (rule last_index_byte_append [OF assms(3)])
  ultimately show ?thesis using assms(1,2) by (simp add: TrimmedPath_def enc_simps)
qed

lemma TrimmedPath_leaf_example:
  "TrimmedPath (NewEntryCaller 0 ''/home/u/pkg/file.go'' 42 True) = ''pkg/file.go:42''"
proof -
  have "TrimmedPath (NewEntryCaller 0 ''/home/u/pkg/file.go'' 42 True)
      = ''pkg'' @ ''/'' @ ''file.go'' @ '':'' @ dec_int (sint (42 :: int64))"
    using TrimmedPath_leaf [of "NewEntryCaller 0 ''/home/u/pkg/file.go'' 42 True"
        "''/home/u''" "''pkg''" "''file.go''"]
    by (simp add: NewEntryCaller_def)
  moreover have "dec_int (sint (42 :: int64)) = ''42''" by code_simp
  ultimately show ?thesis by simp
qed


section \<open>A concrete environment\<close>

text \<open>An instance of the parameters, on which the properties are exercised.\<close>

definition sample_env :: "nat env" where
  "sample_env = \<lparr>TimeFormat = (\<lambda>_ _. ''2024-01-02''), TimeString = (\<lambda>_. ''2024-01-02''),
     DurationString = (\<lambda>_. ''1s''), EntryString = (\<lambda>_. ''{}''), FloatString = (\<lambda>_. ''0''),
     JSONEncode = (\<lambda>_. (''42'' @ [CHR 0x0A], None)),
     multierr_Append = (\<lambda>a b. case a of None \<Rightarrow> b | Some x \<Rightarrow> Some x)\<rparr>"

lemma sample_multierr: "multierr_ok sample_env"
  by (auto simp: multierr_ok_def sample_env_def split: option.splits)

end
