(* ===== verification/Lad_Text.thy ===== *)
theory Lad_Text
  imports Lad_Prelude
begin

text \<open>
  The text layer of the JSON encoder: UTF-8 decoding as in \<open>unicode/utf8\<close>, the escaping loop
  \<open>safeAppendStringLike\<close> of \<open>ladcore/json_encoder.go\<close>, \<open>base64.StdEncoding\<close>, and what a
  JSON reader (RFC 8259) makes of a text.  The loop is proved equal to a structural escaping
  function, and the reader is shown to recover the escaped string.
\<close>

section \<open>UTF-8\<close>

definition RuneSelf :: nat where "RuneSelf = 0x80"
definition RuneError :: nat where "RuneError = 0xFFFD"

definition cont_byte :: "char \<Rightarrow> bool" where
  "cont_byte c \<longleftrightarrow> 0x80 \<le> bval c \<and> bval c \<le> 0xBF"

text \<open>The range that the first byte allows for the second one.\<close>

definition second_ok :: "nat \<Rightarrow> char \<Rightarrow> bool" where
  "second_ok x c \<longleftrightarrow>
     (if x = 0xE0 then 0xA0 else if x = 0xF0 then 0x90 else 0x80) \<le> bval c \<and>
     bval c \<le> (if x = 0xED then 0x9F else if x = 0xF4 then 0x8F else 0xBF)"

text \<open>Whether a text begins with a well-formed encoding of two, three or four bytes.\<close>

definition is_rune2 :: "bytes \<Rightarrow> bool" where
  "is_rune2 p \<longleftrightarrow> 2 \<le> length p \<and> 0xC2 \<le> bval (p ! 0) \<and> bval (p ! 0) \<le> 0xDF \<and>
     second_ok (bval (p ! 0)) (p ! 1)"

definition is_rune3 :: "bytes \<Rightarrow> bool" where
  "is_rune3 p \<longleftrightarrow> 3 \<le> length p \<and> 0xE0 \<le> bval (p ! 0) \<and> bval (p ! 0) \<le> 0xEF \<and>
     second_ok (bval (p ! 0)) (p ! 1) \<and> cont_byte (p ! 2)"

definition is_rune4 :: "bytes \<Rightarrow> bool" where
  "is_rune4 p \<longleftrightarrow> 4 \<le> length p \<and> 0xF0 \<le> bval (p ! 0) \<and> bval (p ! 0) \<le> 0xF4 \<and>
     second_ok (bval (p ! 0)) (p ! 1) \<and> cont_byte (p ! 2) \<and> cont_byte (p ! 3)"

text \<open>\<open>utf8.DecodeRune\<close> and \<open>utf8.DecodeRuneInString\<close>: the rune and its width.\<close>

definition decodeRune :: "bytes \<Rightarrow> nat \<times> nat" where
  "decodeRune p =
     (if p = [] then (RuneError, 0)
      else if bval (p ! 0) < 0x80 then (bval (p ! 0), 1)
      else if is_rune2 p then (bval (p ! 0) mod 32 * 64 + bval (p ! 1) mod 64, 2)
      else if is_rune3 p then
        (bval (p ! 0) mod 16 * 4096 + bval (p ! 1) mod 64 * 64 + bval (p ! 2) mod 64, 3)
      else if is_rune4 p then
        (bval (p ! 0) mod 8 * 262144 + bval (p ! 1) mod 64 * 4096 + bval (p ! 2) mod 64 * 64
         + bval (p ! 3) mod 64, 4)
      else (RuneError, 1))"

text \<open>The test of the loop: the rune at the front is a valid encoding.\<close>

definition rune_ok :: "bytes \<Rightarrow> bool" where
  "rune_ok p \<longleftrightarrow> (case decodeRune p of (r, sz) \<Rightarrow> r \<noteq> RuneError \<or> sz \<noteq> 1)"

definition rune_size :: "bytes \<Rightarrow> nat" where
  "rune_size p = snd (decodeRune p)"

lemma rune_size_bounds:
  "p \<noteq> [] \<Longrightarrow> 0 < rune_size p \<and> rune_size p \<le> length p"
  by (auto simp: rune_size_def decodeRune_def is_rune2_def is_rune3_def is_rune4_def Suc_le_eq)

lemma rune_size_pos [simp]: "p \<noteq> [] \<Longrightarrow> 0 < rune_size p"
  using rune_size_bounds by blast

lemma rune_size_le [simp]: "rune_size p \<le> length p"
  by (cases "p = []") (auto simp: rune_size_bounds, simp add: rune_size_def decodeRune_def)

text \<open>The shapes of a valid rune at the front of a text.\<close>

lemma rune_ok_cases:
  assumes "rune_ok p" and "p \<noteq> []"
  obtains (one) "bval (p ! 0) < 0x80" "rune_size p = 1"
    | (two) "is_rune2 p" "rune_size p = 2"
    | (three) "is_rune3 p" "rune_size p = 3"
    | (four) "is_rune4 p" "rune_size p = 4"
  using assms by (auto simp: rune_ok_def rune_size_def decodeRune_def split: if_splits)

lemma second_ok_high: "second_ok x c \<Longrightarrow> 0x80 \<le> bval c"
  by (auto simp: second_ok_def split: if_splits)

text \<open>A multi-byte rune consists of bytes above 0x7F.\<close>

lemma rune_bytes_high:
  assumes "rune_ok p" and "p \<noteq> []" and "RuneSelf \<le> bval (hd p)"
  shows "\<forall>c \<in> set (take (rune_size p) p). RuneSelf \<le> bval c"
proof -
  have "RuneSelf \<le> bval (p ! i)" if "i < rune_size p" for i
    using assms(1,2)
  proof (cases rule: rune_ok_cases)
    case one
    with assms that show ?thesis by (simp add: RuneSelf_def hd_conv_nth)
  next
    case two
    with that have "i = 0 \<or> i = 1" by auto
    with two show ?thesis by (auto simp: RuneSelf_def is_rune2_def dest: second_ok_high)
  next
    case three
    with that have "i = 0 \<or> i = 1 \<or> i = 2" by auto
    with three show ?thesis
      by (auto simp: RuneSelf_def is_rune3_def cont_byte_def dest: second_ok_high)
  next
    case four
    with that have "i = 0 \<or> i = 1 \<or> i = 2 \<or> i = 3" by auto
    with four show ?thesis
      by (auto simp: RuneSelf_def is_rune4_def cont_byte_def dest: second_ok_high)
  qed
  then show ?thesis by (auto simp: in_set_conv_nth)
qed

text \<open>What follows a valid rune does not change how it is decoded.\<close>

lemma decodeRune_prefix:
  assumes "rune_ok p" and "p \<noteq> []" and "take (rune_size p) p' = take (rune_size p) p"
    and "rune_size p \<le> length p'"
  shows "decodeRune p' = decodeRune p"
proof -
  have nth: "p' ! i = p ! i" if "i < rune_size p" for i
    using assms(3) that by (metis nth_take)
  from assms(1,2) show ?thesis
  proof (cases rule: rune_ok_cases)
    case one
    then show ?thesis using nth assms by (auto simp: decodeRune_def)
  next
    case two
    then have "is_rune2 p'" "p' \<noteq> []" using nth assms(4) by (auto simp: is_rune2_def)
    then show ?thesis using two nth assms(2) by (auto simp: decodeRune_def is_rune2_def)
  next
    case three
    then have "is_rune3 p'" "p' \<noteq> []" using nth assms(4) by (auto simp: is_rune3_def)
    then show ?thesis using three nth assms(2)
      by (auto simp: decodeRune_def is_rune2_def is_rune3_def)
  next
    case four
    then have "is_rune4 p'" "p' \<noteq> []" using nth assms(4) by (auto simp: is_rune4_def)
    then show ?thesis using four nth assms(2)
      by (auto simp: decodeRune_def is_rune2_def is_rune3_def is_rune4_def)
  qed
qed

function valid_utf8 :: "bytes \<Rightarrow> bool" where
  "valid_utf8 p \<longleftrightarrow> (p \<noteq> [] \<longrightarrow> rune_ok p \<and> valid_utf8 (drop (rune_size p) p))"
  by pat_completeness auto
termination
  by (relation "measure length") auto

declare valid_utf8.simps [simp del]

lemma valid_utf8_Nil [simp]: "valid_utf8 []"
  by (subst valid_utf8.simps) simp

text \<open>A text with every invalid byte replaced by the encoding of U+FFFD.\<close>

function to_valid :: "bytes \<Rightarrow> bytes" where
  "to_valid p =
     (if p = [] then []
      else if rune_ok p then take (rune_size p) p @ to_valid (drop (rune_size p) p)
      else [CHR 0xEF, CHR 0xBF, CHR 0xBD] @ to_valid (tl p))"
  by pat_completeness auto
termination
  by (relation "measure length") (auto simp: length_greater_0_conv)

declare to_valid.simps [simp del]

section \<open>Escaping\<close>

definition hexdigits :: string where
  "hexdigits = ''0123456789abcdef''"

definition escape_byte :: "char \<Rightarrow> bytes" where
  "escape_byte c =
     (if c = CHR 0x5C \<or> c = CHR 0x22 then [CHR 0x5C, c]
      else if c = CHR 0x0A then [CHR 0x5C, CHR ''n'']
      else if c = CHR 0x0D then [CHR 0x5C, CHR ''r'']
      else if c = CHR 0x09 then [CHR 0x5C, CHR ''t'']
      else [CHR 0x5C] @ ''u00'' @ [hexdigits ! (bval c div 16), hexdigits ! (bval c mod 16)])"

definition plain_byte :: "char \<Rightarrow> bool" where
  "plain_byte c \<longleftrightarrow> 0x20 \<le> bval c \<and> c \<noteq> CHR 0x5C \<and> c \<noteq> CHR 0x22"

definition replacement_escape :: bytes where
  "replacement_escape = CHR 0x5C # ''ufffd''"

text \<open>
  The loop of \<open>safeAppendStringLike\<close>: \<open>i\<close> is the scan position, \<open>done_to\<close> (the \<open>last\<close> of the code) the end of what has been
  copied to \<open>buf\<close>; \<open>s[last:i]\<close> is \<open>take (i - done_to) (drop done_to s)\<close>.
\<close>

function safe_loop :: "bytes \<Rightarrow> nat \<Rightarrow> nat \<Rightarrow> bytes \<Rightarrow> bytes" where
  "safe_loop s done_to i buf =
     (if i < length s then
        (if RuneSelf \<le> bval (s ! i) then
           (let (r, sz) = decodeRune (drop i s) in
            if r \<noteq> RuneError \<or> sz \<noteq> 1 then safe_loop s done_to (i + sz) buf
            else safe_loop s (i + 1) (i + 1)
                   (buf @ take (i - done_to) (drop done_to s) @ replacement_escape))
         else if plain_byte (s ! i) then safe_loop s done_to (i + 1) buf
         else safe_loop s (i + 1) (i + 1)
                (buf @ take (i - done_to) (drop done_to s) @ escape_byte (s ! i)))
      else buf @ drop done_to s)"
  by pat_completeness auto
termination
proof (relation "measure (\<lambda>(s, done_to, i, buf). length s - i)", goal_cases)
  case (2 s done_to i buf x r sz)
  then have "drop i s \<noteq> []" by simp
  then have "0 < snd (decodeRune (drop i s))"
    using rune_size_pos [of "drop i s"] by (simp add: rune_size_def)
  then have "0 < sz" using 2(3,4) by (metis snd_conv)
  with 2(1) show ?case by simp
qed auto

declare safe_loop.simps [simp del]

definition safeAppendStringLike :: "bytes \<Rightarrow> bytes \<Rightarrow> bytes" where
  "safeAppendStringLike buf s = safe_loop s 0 0 buf"

text \<open>The same escaping as a recursion over the text.\<close>

function esc :: "bytes \<Rightarrow> bytes" where
  "esc p =
     (if p = [] then []
      else if RuneSelf \<le> bval (hd p) then
        (if rune_ok p then take (rune_size p) p @ esc (drop (rune_size p) p)
         else replacement_escape @ esc (tl p))
      else if plain_byte (hd p) then hd p # esc (tl p)
      else escape_byte (hd p) @ esc (tl p))"
  by pat_completeness auto
termination
  by (relation "measure length") (auto simp: length_greater_0_conv)

declare esc.simps [simp del]

lemma esc_Nil [simp]: "esc [] = []"
  by (simp add: esc.simps)

lemma esc_at:
  assumes "i < length s"
  shows "esc (drop i s) =
    (if RuneSelf \<le> bval (s ! i) then
       (if rune_ok (drop i s)
        then take (rune_size (drop i s)) (drop i s) @ esc (drop (i + rune_size (drop i s)) s)
        else replacement_escape @ esc (drop (Suc i) s))
     else if plain_byte (s ! i) then s ! i # esc (drop (Suc i) s)
     else escape_byte (s ! i) @ esc (drop (Suc i) s))"
proof -
  have "tl (drop i s) = drop (Suc i) s" by (simp add: drop_Suc tl_drop)
  moreover have "drop n (drop i s) = drop (i + n) s" for n by (simp add: add.commute)
  ultimately show ?thesis
    using assms by (subst esc.simps) (simp add: hd_drop_conv_nth)
qed

lemma safe_loop_at:
  assumes "i < length s"
  shows "safe_loop s k i buf =
    (if RuneSelf \<le> bval (s ! i) then
       (if rune_ok (drop i s) then safe_loop s k (i + rune_size (drop i s)) buf
        else safe_loop s (i + 1) (i + 1) (buf @ take (i - k) (drop k s) @ replacement_escape))
     else if plain_byte (s ! i) then safe_loop s k (i + 1) buf
     else safe_loop s (i + 1) (i + 1) (buf @ take (i - k) (drop k s) @ escape_byte (s ! i)))"
  using assms
  by (subst safe_loop.simps) (simp add: rune_ok_def rune_size_def split: prod.splits)

lemma slice_snoc:
  assumes "k \<le> i" and "i + n \<le> length s"
  shows "take (i + n - k) (drop k s) = take (i - k) (drop k s) @ take n (drop i s)"
proof -
  have "i + n - k = (i - k) + n" using assms(1) by simp
  then show ?thesis using assms by (simp only: take_add) (simp add: add.commute)
qed

text \<open>The loop invariant: what is copied, what is scanned but not copied, what is left.\<close>

lemma safe_loop_esc:
  "k \<le> i \<Longrightarrow> i \<le> length s \<Longrightarrow>
   safe_loop s k i buf = buf @ take (i - k) (drop k s) @ esc (drop i s)"
proof (induction "length s - i" arbitrary: k i buf rule: less_induct)
  case less
  show ?case
  proof (cases "i < length s")
    case False
    with less.prems show ?thesis by (subst safe_loop.simps) simp
  next
    case True
    have IH: "safe_loop s k' j b = b @ take (j - k') (drop k' s) @ esc (drop j s)"
      if "i < j" "k' \<le> j" "j \<le> length s" for k' j b
      using less.hyps [of j k' b] that True by simp
    show ?thesis
    proof (cases "RuneSelf \<le> bval (s ! i) \<and> rune_ok (drop i s)")
      case rune: True
      let ?n = "rune_size (drop i s)"
      have n: "0 < ?n" "i + ?n \<le> length s"
        using rune_size_bounds [of "drop i s"] True by simp_all
      have "safe_loop s k i buf = buf @ take (i + ?n - k) (drop k s) @ esc (drop (i + ?n) s)"
        using IH [of "i + ?n" k buf] n less.prems(1) rune
        by (simp add: safe_loop_at [OF True])
      also have "\<dots> = buf @ take (i - k) (drop k s) @ esc (drop i s)"
        using rune n slice_snoc [OF less.prems(1) n(2)] by (simp add: esc_at [OF True])
      finally show ?thesis .
    next
      case False
      have "take (Suc i - k) (drop k s) = take (i - k) (drop k s) @ [s ! i]"
        using slice_snoc [OF less.prems(1), of 1 s] True by (simp add: take_Suc_conv_app_nth hd_drop_conv_nth take_Suc)
      then show ?thesis
        using False IH [of "Suc i" k] IH [of "Suc i" "Suc i"] True less.prems(1)
        by (auto simp: safe_loop_at [OF True] esc_at [OF True])
    qed
  qed
qed

lemma safeAppendStringLike_esc [simp]: "safeAppendStringLike buf s = buf @ esc s"
  by (simp add: safeAppendStringLike_def safe_loop_esc)

section \<open>Reading a JSON string\<close>

definition hexval :: "char \<Rightarrow> nat option" where
  "hexval c =
     (if is_digit c then Some (bval c - 48)
      else if 97 \<le> bval c \<and> bval c \<le> 102 then Some (bval c - 87)
      else if 65 \<le> bval c \<and> bval c \<le> 70 then Some (bval c - 55)
      else None)"

definition hex4 :: "char \<Rightarrow> char \<Rightarrow> char \<Rightarrow> char \<Rightarrow> nat option" where
  "hex4 a b c d =
     (case (hexval a, hexval b, hexval c, hexval d) of
        (Some w, Some x, Some y, Some z) \<Rightarrow> Some (((w * 16 + x) * 16 + y) * 16 + z)
      | _ \<Rightarrow> None)"

text \<open>The UTF-8 encoding of a code point of the basic plane; surrogates have none.\<close>

definition utf8_enc :: "nat \<Rightarrow> bytes option" where
  "utf8_enc n =
     (if n < 0x80 then Some [byte n]
      else if n < 0x800 then Some [byte (0xC0 + n div 64), byte (0x80 + n mod 64)]
      else if 0xD800 \<le> n \<and> n \<le> 0xDFFF then None
      else if n < 0x10000 then
        Some [byte (0xE0 + n div 4096), byte (0x80 + n div 64 mod 64), byte (0x80 + n mod 64)]
      else None)"

definition simple_escape :: "char \<Rightarrow> char option" where
  "simple_escape e =
     (if e = CHR 0x22 \<or> e = CHR 0x5C \<or> e = CHR ''/'' then Some e
      else if e = CHR ''n'' then Some (CHR 0x0A)
      else if e = CHR ''r'' then Some (CHR 0x0D)
      else if e = CHR ''t'' then Some (CHR 0x09)
      else if e = CHR ''b'' then Some (CHR 0x08)
      else if e = CHR ''f'' then Some (CHR 0x0C)
      else None)"

definition prepend :: "bytes \<Rightarrow> (bytes \<times> 'b) option \<Rightarrow> (bytes \<times> 'b) option" where
  "prepend u r = map_option (\<lambda>(t, rest). (u @ t, rest)) r"

text \<open>
  A JSON string after its opening quote: the characters it denotes and the text behind the
  closing quote.
\<close>

fun jstring :: "bytes \<Rightarrow> (bytes \<times> bytes) option" where
  "jstring [] = None"
| "jstring (c # s) =
     (if c = CHR 0x22 then Some ([], s)
      else if c = CHR 0x5C then
        (case s of
           [] \<Rightarrow> None
         | e # s' \<Rightarrow>
             if e = CHR ''u'' then
               (case s' of
                  h1 # h2 # h3 # h4 # s'' \<Rightarrow>
                    (case hex4 h1 h2 h3 h4 of
                       None \<Rightarrow> None
                     | Some n \<Rightarrow>
                         (case utf8_enc n of None \<Rightarrow> None | Some u \<Rightarrow> prepend u (jstring s'')))
                | _ \<Rightarrow> None)
             else (case simple_escape e of
                     None \<Rightarrow> None | Some x \<Rightarrow> prepend [x] (jstring s')))
      else if bval c < 0x20 then None
      else prepend [c] (jstring s))"

declare jstring.simps(2) [simp del]

lemma prepend_prepend [simp]: "prepend u (prepend v r) = prepend (u @ v) r"
  by (cases r) (auto simp: prepend_def)

lemma prepend_Some [simp]: "prepend u (Some (t, rest)) = Some (u @ t, rest)"
  by (simp add: prepend_def)

lemma prepend_Nil [simp]: "prepend [] r = r"
  by (cases r) (auto simp: prepend_def)

lemma jstring_quote [simp]: "jstring (CHR 0x22 # s) = Some ([], s)"
  by (simp add: jstring.simps(2))

lemma jstring_plain: "plain_byte c \<Longrightarrow> jstring (c # s) = prepend [c] (jstring s)"
  by (auto simp: jstring.simps(2) plain_byte_def)

lemma jstring_plains:
  "\<forall>c \<in> set u. plain_byte c \<Longrightarrow> jstring (u @ s) = prepend u (jstring s)"
  by (induction u) (auto simp: jstring_plain)

lemma high_plain: "RuneSelf \<le> bval c \<Longrightarrow> plain_byte c"
  by (auto simp: plain_byte_def RuneSelf_def)

lemma jstring_replacement:
  "jstring (replacement_escape @ s) = prepend [byte 0xEF, byte 0xBF, byte 0xBD] (jstring s)"
  by (simp add: replacement_escape_def jstring.simps(2) hex4_def hexval_def is_digit_def utf8_enc_def)

lemma less_16:
  "(k :: nat) < 16 \<Longrightarrow> k \<in> {0, 1, 2, 3, 4, 5, 6, 7, 8, 9, 10, 11, 12, 13, 14, 15}"
  by (simp only: insert_iff empty_iff) presburger

lemma hexval_hexdigits: "k < 16 \<Longrightarrow> hexval (hexdigits ! k) = Some k"
  by (drule less_16) (auto simp: hexdigits_def hexval_def is_digit_def)

lemma jstring_escape_byte:
  assumes "\<not> plain_byte c" and "\<not> RuneSelf \<le> bval c"
  shows "jstring (escape_byte c @ s) = prepend [c] (jstring s)"
proof (cases "c \<in> {CHR 0x5C, CHR 0x22, CHR 0x0A, CHR 0x0D, CHR 0x09}")
  case True
  then show ?thesis by (auto simp: escape_byte_def jstring.simps(2) simple_escape_def)
next
  case False
  then have lt: "bval c < 32" using assms by (auto simp: plain_byte_def)
  have z: "hexval (CHR ''0'') = Some 0" by (simp add: hexval_def is_digit_def)
  have h: "hex4 (CHR ''0'') (CHR ''0'') (hexdigits ! (bval c div 16)) (hexdigits ! (bval c mod 16))
      = Some (bval c)"
    using lt by (simp add: hex4_def hexval_hexdigits z)
  have "escape_byte c = CHR 0x5C # CHR ''u'' # CHR ''0'' # CHR ''0'' #
      [hexdigits ! (bval c div 16), hexdigits ! (bval c mod 16)]"
    using False by (simp add: escape_byte_def)
  then show ?thesis using lt h by (simp add: jstring.simps(2) utf8_enc_def)
qed

lemma low_rune: "p \<noteq> [] \<Longrightarrow> \<not> RuneSelf \<le> bval (hd p) \<Longrightarrow> rune_ok p \<and> rune_size p = 1"
  by (auto simp: rune_ok_def rune_size_def decodeRune_def RuneSelf_def RuneError_def hd_conv_nth)

lemma to_valid_low:
  "p \<noteq> [] \<Longrightarrow> \<not> RuneSelf \<le> bval (hd p) \<Longrightarrow> to_valid p = hd p # to_valid (tl p)"
  using low_rune [of p] by (subst to_valid.simps) (auto simp: take_Suc drop_Suc)

text \<open>A reader recovers the text from its escaped form, with invalid bytes replaced.\<close>

lemma jstring_esc: "jstring (esc s @ CHR 0x22 # rest) = Some (to_valid s, rest)"
proof (induction s rule: esc.induct)
  case (1 s)
  show ?case
  proof (cases "s = []")
    case True
    then show ?thesis by (simp add: to_valid.simps)
  next
    case ne: False
    show ?thesis
    proof (cases "RuneSelf \<le> bval (hd s)")
      case high: True
      show ?thesis
      proof (cases "rune_ok s")
        case True
        have "\<forall>c \<in> set (take (rune_size s) s). plain_byte c"
          using rune_bytes_high [OF True ne high] high_plain by blast
        then show ?thesis
          using 1(1) [OF ne high True] ne high True
          by (simp add: esc.simps [of s] to_valid.simps [of s] jstring_plains)
      next
        case False
        then show ?thesis
          using 1(2) [OF ne high False] ne high
          by (simp add: esc.simps [of s] to_valid.simps [of s] jstring_replacement)
      qed
    next
      case low: False
      then show ?thesis
        using 1(3,4) ne to_valid_low [OF ne low]
        by (cases "plain_byte (hd s)")
          (simp_all add: esc.simps [of s] jstring_plain jstring_escape_byte)
    qed
  qed
qed

section \<open>Validity of the escaped text\<close>

lemma valid_utf8_low: "bval c < 128 \<Longrightarrow> valid_utf8 (c # s) \<longleftrightarrow> valid_utf8 s"
  using low_rune [of "c # s"] by (subst valid_utf8.simps) (simp add: RuneSelf_def)

lemma valid_utf8_ascii:
  "\<forall>c \<in> set u. bval c < 128 \<Longrightarrow> valid_utf8 (u @ s) \<longleftrightarrow> valid_utf8 s"
  by (induction u) (auto simp: valid_utf8_low)

lemma valid_utf8_rune:
  assumes "rune_ok p" and "p \<noteq> []"
  shows "valid_utf8 (take (rune_size p) p @ s) \<longleftrightarrow> valid_utf8 s"
proof -
  let ?q = "take (rune_size p) p @ s"
  have "decodeRune ?q = decodeRune p"
    using assms by (intro decodeRune_prefix) auto
  then have "rune_ok ?q" "rune_size ?q = rune_size p"
    using assms(1) by (simp_all add: rune_ok_def rune_size_def)
  moreover have "?q \<noteq> []" using rune_size_pos [OF assms(2)] assms(2) by simp
  ultimately show ?thesis by (subst valid_utf8.simps) simp
qed

lemma escape_byte_ascii: "\<not> RuneSelf \<le> bval c \<Longrightarrow> \<forall>x \<in> set (escape_byte c). bval x < 128"
proof -
  assume a: "\<not> RuneSelf \<le> bval c"
  have "bval (hexdigits ! k) < 128" if "k < 16" for k
    using less_16 [OF that] by (auto simp: hexdigits_def)
  with a show ?thesis by (auto simp: escape_byte_def RuneSelf_def)
qed

lemma valid_utf8_esc: "valid_utf8 (esc s @ t) \<longleftrightarrow> valid_utf8 t"
proof (induction s rule: esc.induct)
  case (1 s)
  have rep: "\<forall>c \<in> set replacement_escape. bval c < 128"
    by (simp add: replacement_escape_def)
  show ?case
  proof (cases "s = []")
    case ne: False
    show ?thesis
    proof (cases "RuneSelf \<le> bval (hd s)")
      case high: True
      then show ?thesis
        using 1(1,2) ne valid_utf8_ascii [OF rep] valid_utf8_rune [of s]
        by (cases "rune_ok s") (simp_all add: esc.simps [of s])
    next
      case low: False
      then have "bval (hd s) < 128" by (simp add: RuneSelf_def)
      then show ?thesis
        using 1(3,4) ne low valid_utf8_ascii [OF escape_byte_ascii [OF low]]
        by (cases "plain_byte (hd s)") (simp_all add: esc.simps [of s] valid_utf8_low)
    qed
  qed simp
qed

lemma to_valid_id: "valid_utf8 s \<Longrightarrow> to_valid s = s"
proof (induction s rule: to_valid.induct)
  case (1 s)
  then show ?case
    by (cases "s = []")
      (simp add: to_valid.simps, simp add: to_valid.simps [of s] valid_utf8.simps [of s])
qed

lemma to_valid_ascii: "\<forall>c \<in> set s. bval c < 128 \<Longrightarrow> to_valid s = s"
  using valid_utf8_ascii [of s "[]"] by (intro to_valid_id) simp

section \<open>Properties\<close>

text \<open>
  C19: the escaping loop, which copies runs of unchanged bytes and tracks two positions, computes
  the byte-by-byte escaping of its argument behind what the buffer already holds.
\<close>

theorem safeAppendStringLike_equiv: "safeAppendStringLike buf s = buf @ esc s"
  by (rule safeAppendStringLike_esc)

text \<open>
  C18: what \<open>safeAppendStringLike\<close> writes is a JSON string body: in front of a closing quote a
  reader gets the text back, with every byte that is not part of a valid UTF-8 sequence replaced
  by U+FFFD; the output is valid UTF-8 whatever the input was, and a valid input comes back
  unchanged.
\<close>

theorem safeAppendStringLike_roundtrip:
  "jstring (safeAppendStringLike [] s @ CHR 0x22 # rest) = Some (to_valid s, rest) \<and>
   valid_utf8 (safeAppendStringLike [] s) \<and>
   (valid_utf8 s \<longrightarrow> to_valid s = s)"
  using jstring_esc [of s rest] valid_utf8_esc [of s "[]"] to_valid_id by simp

theorem safeAppendStringLike_roundtrip_witness:
  "valid_utf8 ''a b'' \<and> to_valid ''a b'' = ''a b'' \<and>
   jstring (safeAppendStringLike [] ''a b'' @ CHR 0x22 # ''x'') = Some (''a b'', ''x'')"
proof -
  have "valid_utf8 ''a b''" using valid_utf8_ascii [of "''a b''" "[]"] by simp
  then show ?thesis
    using safeAppendStringLike_roundtrip [of "''a b''" "''x''"] by (metis append_Cons)
qed

end
