(* ===== verification/Lad_Reader.thy ===== *)
theory Lad_Reader
  imports Lad_Text Lad_Float
begin

text \<open>
  What a JSON reader makes of a text (RFC 8259), and the concrete syntax that the encoder
  emits.  \<open>jvalue\<close> is a recursive-descent reader; its first argument bounds the nesting, and
  \<open>json_parse\<close> gives it the length of the text, which is enough because every nested call has
  read at least one byte.  \<open>jt\<close> and \<open>jitem\<close> are the trees behind the encoder's output, with a
  namespace (\<open>Opened\<close>) that stays open until the enclosing object closes.  The main lemma reads
  the text of any well-formed tree back as the value it denotes.
\<close>

section \<open>The reader\<close>

datatype jv = JNull | JBool bool | JNum bytes | JStr bytes | JArr "jv list"
  | JObj "(bytes \<times> jv) list"

definition is_ws :: "char \<Rightarrow> bool" where
  "is_ws c \<longleftrightarrow> c = CHR '' '' \<or> c = CHR 0x09 \<or> c = CHR 0x0A \<or> c = CHR 0x0D"

definition skip_ws :: "bytes \<Rightarrow> bytes" where
  "skip_ws s = dropWhile is_ws s"

definition split_digits :: "bytes \<Rightarrow> bytes \<times> bytes" where
  "split_digits s = (takeWhile is_digit s, dropWhile is_digit s)"

definition jfrac :: "bytes \<Rightarrow> (bytes \<times> bytes) option" where
  "jfrac s =
     (if s \<noteq> [] \<and> hd s = CHR ''.'' then
        case split_digits (tl s) of (ds, r) \<Rightarrow> if ds = [] then None else Some (''.'' @ ds, r)
      else Some ([], s))"

definition jexp :: "bytes \<Rightarrow> (bytes \<times> bytes) option" where
  "jexp s =
     (if s \<noteq> [] \<and> (hd s = CHR ''e'' \<or> hd s = CHR ''E'') then
        let t = tl s; (sg, t') = (if t \<noteq> [] \<and> (hd t = CHR ''+'' \<or> hd t = CHR ''-'')
                                 then ([hd t], tl t) else ([], t))
        in case split_digits t' of
             (ds, r) \<Rightarrow> if ds = [] then None else Some ([hd s] @ sg @ ds, r)
      else Some ([], s))"

definition jnumber :: "bytes \<Rightarrow> (bytes \<times> bytes) option" where
  "jnumber s =
     (let (sg, s1) = (if s \<noteq> [] \<and> hd s = CHR ''-'' then (''-'', tl s) else ([], s));
          (ds, s2) = split_digits s1
      in if ds = [] \<or> (hd ds = CHR ''0'' \<and> length ds \<noteq> 1) then None
         else case jfrac s2 of
                None \<Rightarrow> None
              | Some (fr, s3) \<Rightarrow> (case jexp s3 of None \<Rightarrow> None | Some (ex, r) \<Rightarrow> Some (sg @ ds @ fr @ ex, r)))"

definition jliteral :: "bytes \<Rightarrow> (jv \<times> bytes) option" where
  "jliteral s =
     (if take 4 s = ''true'' then Some (JBool True, drop 4 s)
      else if take 5 s = ''false'' then Some (JBool False, drop 5 s)
      else if take 4 s = ''null'' then Some (JNull, drop 4 s)
      else map_option (\<lambda>(t, r). (JNum t, r)) (jnumber s))"

text \<open>
  The readers of objects and arrays take the reader of the values inside them; \<open>n\<close> bounds the
  number of members.
\<close>

type_synonym 'a reader = "bytes \<Rightarrow> ('a \<times> bytes) option"

definition jtail :: "char \<Rightarrow> 'a list reader \<Rightarrow> 'a list reader" where
  "jtail close more s =
     (case skip_ws s of
        [] \<Rightarrow> None
      | c # t \<Rightarrow>
          if c = close then Some ([], t) else if c = CHR '','' then more t else None)"

definition jmember :: "jv reader \<Rightarrow> (bytes \<times> jv) reader" where
  "jmember rv s =
     (case skip_ws s of
        [] \<Rightarrow> None
      | c # t \<Rightarrow>
          if c \<noteq> CHR 0x22 then None
          else case jstring t of
            None \<Rightarrow> None
          | Some (k, t') \<Rightarrow>
              (case skip_ws t' of
                 [] \<Rightarrow> None
               | d # t'' \<Rightarrow>
                   if d \<noteq> CHR '':'' then None
                   else map_option (\<lambda>(v, r). ((k, v), r)) (rv t'')))"

primrec jseq :: "char \<Rightarrow> 'a reader \<Rightarrow> nat \<Rightarrow> 'a list reader" where
  "jseq close rd 0 = (\<lambda>s. None)"
| "jseq close rd (Suc n) =
     (\<lambda>s. case rd s of
        None \<Rightarrow> None
      | Some (x, r) \<Rightarrow>
          map_option (\<lambda>(xs, r'). (x # xs, r')) (jtail close (jseq close rd n) r))"

definition jgroup :: "char \<Rightarrow> 'a reader \<Rightarrow> nat \<Rightarrow> 'a list reader" where
  "jgroup close rd n s =
     (case skip_ws s of
        [] \<Rightarrow> None
      | c # t \<Rightarrow> if c = close then Some ([], t) else jseq close rd n s)"

primrec jvalue :: "nat \<Rightarrow> jv reader" where
  "jvalue 0 = (\<lambda>s. None)"
| "jvalue (Suc n) =
     (\<lambda>s. case skip_ws s of
        [] \<Rightarrow> None
      | c # t \<Rightarrow>
          if c = CHR 0x22 then map_option (\<lambda>(u, r). (JStr u, r)) (jstring t)
          else if c = CHR 0x7B then
            map_option (\<lambda>(ms, r). (JObj ms, r)) (jgroup (CHR 0x7D) (jmember (jvalue n)) n t)
          else if c = CHR 0x5B then
            map_option (\<lambda>(vs, r). (JArr vs, r)) (jgroup (CHR 0x5D) (jvalue n) n t)
          else jliteral (c # t))"

definition json_parse :: "bytes \<Rightarrow> jv option" where
  "json_parse s =
     (case jvalue (Suc (length s)) s of
        Some (v, r) \<Rightarrow> if skip_ws r = [] then Some v else None
      | None \<Rightarrow> None)"

section \<open>The concrete syntax\<close>

text \<open>
  A leaf is a text with the value it denotes.  The members of an object are a list of items;
  after \<open>Opened k\<close> the following items belong to the namespace \<open>k\<close>.
\<close>

datatype jt = Leaf bytes jv | TArr "jt list" | TObj "jitem list"
  and jitem = Mem bytes jt | Opened bytes

definition comma :: "bool \<Rightarrow> bytes" where
  "comma sp = (if sp then '', '' else '','')"

definition key_text :: "bool \<Rightarrow> bytes \<Rightarrow> bytes" where
  "key_text sp k = [CHR 0x22] @ esc k @ [CHR 0x22] @ (if sp then '': '' else '':'')"

fun opens :: "jitem list \<Rightarrow> nat" where
  "opens [] = 0"
| "opens (Mem k t # is) = opens is"
| "opens (Opened k # is) = Suc (opens is)"

definition closers :: "nat \<Rightarrow> bytes" where
  "closers n = replicate n (CHR 0x7D)"

text \<open>\<open>b\<close> says whether a separator is needed in front.\<close>

fun ttext :: "bool \<Rightarrow> jt \<Rightarrow> bytes"
  and items_text :: "bool \<Rightarrow> bool \<Rightarrow> jitem list \<Rightarrow> bytes"
  and elems_text :: "bool \<Rightarrow> bool \<Rightarrow> jt list \<Rightarrow> bytes"
where
  "ttext sp (Leaf s v) = s"
| "ttext sp (TArr ts) = [CHR 0x5B] @ elems_text sp False ts @ [CHR 0x5D]"
| "ttext sp (TObj is) = [CHR 0x7B] @ items_text sp False is @ closers (Suc (opens is))"
| "items_text sp b [] = []"
| "items_text sp b (Mem k t # is) =
     (if b then comma sp else []) @ key_text sp k @ ttext sp t @ items_text sp True is"
| "items_text sp b (Opened k # is) =
     (if b then comma sp else []) @ key_text sp k @ [CHR 0x7B] @ items_text sp False is"
| "elems_text sp b [] = []"
| "elems_text sp b (t # ts) =
     (if b then comma sp else []) @ ttext sp t @ elems_text sp True ts"

fun tval :: "jt \<Rightarrow> jv"
  and mems :: "jitem list \<Rightarrow> (bytes \<times> jv) list"
  and elems :: "jt list \<Rightarrow> jv list"
where
  "tval (Leaf s v) = v"
| "tval (TArr ts) = JArr (elems ts)"
| "tval (TObj is) = JObj (mems is)"
| "mems [] = []"
| "mems (Mem k t # is) = (to_valid k, tval t) # mems is"
| "mems (Opened k # is) = [(to_valid k, JObj (mems is))]"
| "elems [] = []"
| "elems (t # ts) = tval t # elems ts"

text \<open>What may follow a value in the encoder's output.\<close>

definition delim :: "bytes \<Rightarrow> bool" where
  "delim s \<longleftrightarrow> s = [] \<or> hd s \<in> {CHR '','', CHR 0x7D, CHR 0x5D}"

text \<open>
  A text that denotes a value: a reader gets the value in front of any delimiter, and the text
  does not end in a byte that the encoder takes for the start of a group.
\<close>

definition sep_byte :: "char \<Rightarrow> bool" where
  "sep_byte c \<longleftrightarrow> c \<in> {CHR 0x7B, CHR 0x5B, CHR '':'', CHR '','', CHR '' ''}"

definition leaf_ok :: "bytes \<Rightarrow> jv \<Rightarrow> bool" where
  "leaf_ok s v \<longleftrightarrow>
     s \<noteq> [] \<and> \<not> sep_byte (last s) \<and> \<not> is_ws (hd s) \<and> hd s \<noteq> CHR 0x5D \<and>
     (\<forall>n rest. length s \<le> n \<longrightarrow> delim rest \<longrightarrow> jvalue n (s @ rest) = Some (v, rest))"

fun jt_ok :: "jt \<Rightarrow> bool" and items_ok :: "jitem list \<Rightarrow> bool" and elems_ok :: "jt list \<Rightarrow> bool"
where
  "jt_ok (Leaf s v) = leaf_ok s v"
| "jt_ok (TArr ts) = elems_ok ts"
| "jt_ok (TObj is) = items_ok is"
| "items_ok [] = True"
| "items_ok (Mem k t # is) = (jt_ok t \<and> items_ok is)"
| "items_ok (Opened k # is) = items_ok is"
| "elems_ok [] = True"
| "elems_ok (t # ts) = (jt_ok t \<and> elems_ok ts)"

section \<open>Reading the concrete syntax back\<close>

lemma skip_ws_stop: "s \<noteq> [] \<Longrightarrow> \<not> is_ws (hd s) \<Longrightarrow> skip_ws (s @ r) = s @ r"
  by (cases s) (auto simp: skip_ws_def)

lemma skip_ws_Cons [simp]: "\<not> is_ws c \<Longrightarrow> skip_ws (c # r) = c # r"
  by (simp add: skip_ws_def)

lemma skip_ws_space [simp]: "skip_ws (CHR '' '' # r) = skip_ws r"
  by (simp add: skip_ws_def is_ws_def)

lemma is_ws_simps [simp]:
  "\<not> is_ws (CHR 0x22)" "\<not> is_ws (CHR 0x7B)" "\<not> is_ws (CHR 0x7D)" "\<not> is_ws (CHR 0x5B)"
  "\<not> is_ws (CHR 0x5D)" "\<not> is_ws (CHR '','')" "\<not> is_ws (CHR '':'')"
  by (auto simp: is_ws_def)

lemma ttext_front:
  "jt_ok t \<Longrightarrow> ttext sp t \<noteq> [] \<and> \<not> is_ws (hd (ttext sp t)) \<and> hd (ttext sp t) \<noteq> CHR 0x5D"
  by (cases t) (auto simp: leaf_ok_def)

lemma ttext_skip: "jt_ok t \<Longrightarrow> skip_ws (ttext sp t @ r) = ttext sp t @ r"
  using ttext_front skip_ws_stop by blast

lemma delim_simps [simp]:
  "delim []" "delim (CHR 0x7D # s)" "delim (CHR 0x5D # s)" "delim (CHR '','' # s)"
  by (auto simp: delim_def)

lemma delim_items: "delim r \<Longrightarrow> delim (items_text sp True is @ r)"
  by (cases "(sp, True, is)" rule: items_text.cases) (auto simp: comma_def)

lemma delim_elems: "delim r \<Longrightarrow> delim (elems_text sp True ts @ r)"
  by (cases ts) (auto simp: comma_def)

lemma delim_closers: "delim r \<Longrightarrow> delim (closers n @ r)"
  by (cases n) (auto simp: closers_def)

lemma jvalue_skip: "jvalue n (CHR '' '' # s) = jvalue n s"
  by (cases n) auto

text \<open>A member whose value the reader gets.\<close>

lemma jmember_key:
  "rv s = Some (v, r) \<Longrightarrow> rv (CHR '' '' # s) = rv s \<Longrightarrow>
   jmember rv (key_text sp k @ s) = Some ((to_valid k, v), r)"
  by (simp add: jmember_def key_text_def jstring_esc)

text \<open>
  \<open>T\<close> continues a sequence with the elements \<open>xs\<close> and ends it in front of \<open>rest\<close>, whatever bound
  from \<open>L\<close> on the reader is given.
\<close>

definition tail_reads :: "char \<Rightarrow> 'a reader \<Rightarrow> nat \<Rightarrow> bytes \<Rightarrow> 'a list \<Rightarrow> bytes \<Rightarrow> bool" where
  "tail_reads close rd L T xs rest \<longleftrightarrow>
     (\<forall>m. L \<le> m \<longrightarrow> jtail close (jseq close rd m) T = Some (xs, rest))"

definition group_reads :: "char \<Rightarrow> 'a reader \<Rightarrow> nat \<Rightarrow> bytes \<Rightarrow> 'a list \<Rightarrow> bytes \<Rightarrow> bool" where
  "group_reads close rd L T xs rest \<longleftrightarrow>
     (\<forall>m. L \<le> m \<longrightarrow> jgroup close rd m T = Some (xs, rest))"

lemma tail_reads_close: "\<not> is_ws close \<Longrightarrow> tail_reads close rd L (close # rest) [] rest"
  by (simp add: tail_reads_def jtail_def)

lemma group_reads_close: "\<not> is_ws close \<Longrightarrow> group_reads close rd L (close # rest) [] rest"
  by (simp add: group_reads_def jgroup_def)

lemma group_reads_mono:
  "group_reads close rd L T xs rest \<Longrightarrow> L \<le> L' \<Longrightarrow> group_reads close rd L' T xs rest"
  by (simp add: group_reads_def)

lemma jseq_step:
  assumes "rd u = Some (x, r)" "tail_reads close rd L r xs rest" "Suc L \<le> m"
  shows "jseq close rd m u = Some (x # xs, rest)"
  using assms by (cases m) (auto simp: tail_reads_def)

lemma tail_reads_Cons:
  assumes "rd u = Some (x, r)" "rd (CHR '' '' # u) = rd u" "tail_reads close rd L r xs rest"
    and "close \<noteq> CHR '',''" and "Suc L \<le> L'"
  shows "tail_reads close rd L' (comma sp @ u) (x # xs) rest"
  unfolding tail_reads_def
proof (intro allI impI)
  fix m
  assume "L' \<le> m"
  with assms(5) have "Suc L \<le> m" by simp
  with assms jseq_step [of rd u x r close L xs rest m]
    jseq_step [of rd "CHR '' '' # u" x r close L xs rest m]
  show "jtail close (jseq close rd m) (comma sp @ u) = Some (x # xs, rest)"
    by (simp add: jtail_def comma_def)
qed

lemma group_reads_Cons:
  assumes "rd u = Some (x, r)" "tail_reads close rd L r xs rest"
    and "skip_ws u = c # t" "c \<noteq> close" and "Suc L \<le> L'"
  shows "group_reads close rd L' u (x # xs) rest"
  using assms jseq_step [OF assms(1,2)] by (simp add: group_reads_def jgroup_def)

lemma jmember_skip: "jmember rv (CHR '' '' # s) = jmember rv s"
  by (simp add: jmember_def)

lemma closers_Suc: "closers (Suc n) @ T = closers n @ CHR 0x7D # T"
  by (simp add: closers_def replicate_append_same flip: append_assoc)

lemma closers_0: "closers 0 = []"
  by (simp add: closers_def)

lemma jvalue_object:
  assumes "group_reads (CHR 0x7D) (jmember (jvalue n)) L u ms rest" "L \<le> n"
  shows "jvalue (Suc n) (CHR 0x7B # u) = Some (JObj ms, rest)"
  using assms by (simp add: group_reads_def)

lemma jvalue_array:
  assumes "group_reads (CHR 0x5D) (jvalue n) L u vs rest" "L \<le> n"
  shows "jvalue (Suc n) (CHR 0x5B # u) = Some (JArr vs, rest)"
  using assms by (simp add: group_reads_def)

text \<open>The effect of one member on the reading of what follows it.\<close>

lemma member_reads:
  assumes "jvalue n (u @ R) = Some (v, R)"
    and "tail_reads (CHR 0x7D) (jmember (jvalue n)) L R ms rest" and "Suc L \<le> L'"
  shows "tail_reads (CHR 0x7D) (jmember (jvalue n)) L' (comma sp' @ key_text sp k @ u @ R)
           ((to_valid k, v) # ms) rest"
    and "group_reads (CHR 0x7D) (jmember (jvalue n)) L' (key_text sp k @ u @ R)
           ((to_valid k, v) # ms) rest"
proof -
  have m: "jmember (jvalue n) (key_text sp k @ u @ R) = Some ((to_valid k, v), R)"
    using assms(1) by (intro jmember_key) (simp_all add: jvalue_skip)
  show "tail_reads (CHR 0x7D) (jmember (jvalue n)) L' (comma sp' @ key_text sp k @ u @ R)
           ((to_valid k, v) # ms) rest"
    by (rule tail_reads_Cons [OF m _ assms(2) _ assms(3)]) (simp_all add: jmember_skip)
  show "group_reads (CHR 0x7D) (jmember (jvalue n)) L' (key_text sp k @ u @ R)
           ((to_valid k, v) # ms) rest"
    by (rule group_reads_Cons [where c = "CHR 0x22", OF m assms(2) _ _ assms(3)])
      (simp_all add: key_text_def)
qed

lemma element_reads:
  assumes "jvalue n (u @ R) = Some (v, R)" and "u \<noteq> []" "\<not> is_ws (hd u)" "hd u \<noteq> CHR 0x5D"
    and "tail_reads (CHR 0x5D) (jvalue n) L R vs rest" and "Suc L \<le> L'"
  shows "tail_reads (CHR 0x5D) (jvalue n) L' (comma sp @ u @ R) (v # vs) rest"
    and "group_reads (CHR 0x5D) (jvalue n) L' (u @ R) (v # vs) rest"
proof -
  show "tail_reads (CHR 0x5D) (jvalue n) L' (comma sp @ u @ R) (v # vs) rest"
    by (rule tail_reads_Cons [OF assms(1) _ assms(5) _ assms(6)]) (simp_all add: jvalue_skip)
  have "skip_ws (u @ R) = hd u # tl u @ R"
    using skip_ws_stop [OF assms(2,3)] assms(2) by (cases u) auto
  then show "group_reads (CHR 0x5D) (jvalue n) L' (u @ R) (v # vs) rest"
    by (rule group_reads_Cons [OF assms(1,5) _ assms(4,6)])
qed

lemma reads_back_tree:
  shows "\<lbrakk>jt_ok t; length (ttext sp t) \<le> n; delim rest\<rbrakk> \<Longrightarrow>
      jvalue n (ttext sp t @ rest) = Some (tval t, rest)"
    and "\<lbrakk>items_ok is; length (items_text sp b is) \<le> n; delim T;
        tail_reads (CHR 0x7D) (jmember (jvalue n)) L T ms rest\<rbrakk> \<Longrightarrow>
      (if b then tail_reads else if is = [] then (\<lambda>_ _ _ _ _ _. True) else group_reads)
        (CHR 0x7D) (jmember (jvalue n)) (length (items_text sp b is) + L)
        (items_text sp b is @ closers (opens is) @ T) (mems is @ ms) rest"
    and "\<lbrakk>elems_ok ts; length (elems_text sp b ts) \<le> n\<rbrakk> \<Longrightarrow>
      (if b then tail_reads else group_reads)
        (CHR 0x5D) (jvalue n) (length (elems_text sp b ts))
        (elems_text sp b ts @ CHR 0x5D # rest) (elems ts) rest"
proof (induction sp t and sp b "is" and sp b ts arbitrary: n rest and n T ms rest L and n rest
    rule: ttext_items_text_elems_text.induct)
  case (1 sp s v)
  then show ?case by (simp add: leaf_ok_def)
next
  case (2 sp ts)
  then obtain n' where n: "n = Suc n'" "length (elems_text sp False ts) \<le> n'"
    by (cases n) auto
  then show ?case using jvalue_array [OF 2(1) [of n' rest, simplified]] 2(2) by simp
next
  case (3 sp "is")
  then obtain n' where n: "n = Suc n'" "length (items_text sp False is) \<le> n'"
    by (cases n) auto
  have "group_reads (CHR 0x7D) (jmember (jvalue n')) (length (items_text sp False is))
      (items_text sp False is @ closers (Suc (opens is)) @ rest) (mems is) rest"
    using 3(1) [of n' "CHR 0x7D # rest" 0 "[]" rest] 3(2) n
    by (cases "is = []")
      (simp_all add: tail_reads_close group_reads_close closers_Suc closers_0)
  then show ?case using n jvalue_object by simp
next
  case (4 sp b)
  then show ?case by (simp add: closers_def)
next
  case (5 sp b k t "is")
  let ?R = "items_text sp True is @ closers (opens is) @ T"
  have v: "jvalue n (ttext sp t @ ?R) = Some (tval t, ?R)"
    using 5(1) [of n ?R] 5(3-5) delim_items [OF delim_closers] by simp
  have tl: "tail_reads (CHR 0x7D) (jmember (jvalue n)) (length (items_text sp True is) + L) ?R
      (mems is @ ms) rest"
    using 5(2) [of n T L ms rest] 5(3-6) by simp
  have len: "Suc (length (items_text sp True is) + L) \<le> length (items_text sp b (Mem k t # is)) + L"
    by (simp add: key_text_def)
  show ?case
    using member_reads(1) [OF v tl len, of sp sp k] member_reads(2) [OF v tl len, of sp k]
    by (cases b) simp_all
next
  case (6 sp b k "is")
  have n: "length (items_text sp False is) < n" using 6(3) by simp
  then obtain n' where n': "n = Suc n'" by (cases n) auto
  have g: "group_reads (CHR 0x7D) (jmember (jvalue n')) (length (items_text sp False is))
      (items_text sp False is @ closers (Suc (opens is)) @ T) (mems is) T"
    using 6(1) [of n' "CHR 0x7D # T" 0 "[]" T] 6(2) n n'
    by (cases "is = []")
      (simp_all add: tail_reads_close group_reads_close closers_Suc closers_0)
  let ?u = "CHR 0x7B # items_text sp False is @ closers (Suc (opens is))"
  have v: "jvalue n (?u @ T) = Some (JObj (mems is), T)"
    using jvalue_object [OF g] n n' by simp
  have len: "Suc L \<le> length (items_text sp b (Opened k # is)) + L"
    by simp
  show ?case
    using member_reads(1) [OF v 6(5) len, of sp sp k] member_reads(2) [OF v 6(5) len, of sp k]
    by (cases b) (simp_all add: closers_Suc)
next
  case (7 sp b)
  then show ?case by (simp add: tail_reads_close group_reads_close)
next
  case (8 sp b t ts)
  let ?R = "elems_text sp True ts @ CHR 0x5D # rest"
  have v: "jvalue n (ttext sp t @ ?R) = Some (tval t, ?R)"
    using 8(1) [of n ?R] 8(3,4) delim_elems by simp
  have tl: "tail_reads (CHR 0x5D) (jvalue n) (length (elems_text sp True ts)) ?R (elems ts) rest"
    using 8(2) [of n rest] 8(3,4) by simp
  have f: "ttext sp t \<noteq> []" "\<not> is_ws (hd (ttext sp t))" "hd (ttext sp t) \<noteq> CHR 0x5D"
    using ttext_front [of t sp] 8(3) by auto
  have len: "Suc (length (elems_text sp True ts)) \<le> length (elems_text sp b (t # ts))"
    using f(1) by (simp add: Suc_le_eq)
  show ?case using element_reads(1) [OF v f tl len, of sp] element_reads(2) [OF v f tl len]
    by (cases b) simp_all
qed

declare jvalue.simps(2) [simp del]

text \<open>
  An object whose namespaces are closed before its last members: the items \<open>is\<close>, their closing
  brackets, and then the members \<open>js\<close> of the outer object.
\<close>

definition closed_text :: "bool \<Rightarrow> jitem list \<Rightarrow> jitem list \<Rightarrow> bytes" where
  "closed_text sp is js =
     CHR 0x7B # items_text sp False is @ closers (opens is) @
     items_text sp (is \<noteq> []) js @ closers (opens js) @ [CHR 0x7D]"

theorem closed_text_parses:
  assumes "items_ok is" and "items_ok js" and "\<forall>c \<in> set le. is_ws c"
  shows "json_parse (closed_text sp is js @ le) = Some (JObj (mems is @ mems js))"
proof -
  let ?n = "length (closed_text sp is js @ le)"
  let ?rd = "jmember (jvalue ?n)"
  let ?T = "items_text sp (is \<noteq> []) js @ closers (opens js) @ CHR 0x7D # le"
  have end_T: "tail_reads (CHR 0x7D) ?rd 0 (CHR 0x7D # le) [] le"
    by (simp add: tail_reads_close)
  have js: "length (items_text sp b js) \<le> ?n" if "b \<longleftrightarrow> is \<noteq> []" for b
    using that by (simp add: closed_text_def)
  have "group_reads (CHR 0x7D) ?rd ?n (items_text sp False is @ closers (opens is) @ ?T)
      (mems is @ mems js) le"
  proof (cases "is = []")
    case True
    moreover have "length (items_text sp False js) + 0 \<le> ?n" using js [of False] True by simp
    ultimately show ?thesis
      using reads_back_tree(2) [OF assms(2) js _ end_T, of False] group_reads_mono
      by (cases "js = []") (simp_all add: closers_0 group_reads_close del: jvalue.simps)
  next
    case False
    have T: "tail_reads (CHR 0x7D) ?rd (length (items_text sp True js)) ?T (mems js) le"
      using reads_back_tree(2) [OF assms(2) js _ end_T, of True] False by simp
    have "delim ?T" using False delim_items delim_closers by simp
    then show ?thesis
      using reads_back_tree(2) [OF assms(1) _ _ T, of sp False] False
      by (auto simp: closed_text_def group_reads_def)
  qed
  from jvalue_object [OF this order_refl]
  have "jvalue (Suc ?n) (closed_text sp is js @ le) = Some (JObj (mems is @ mems js), le)"
    by (subst (2) closed_text_def) simp
  moreover have "skip_ws le = []"
    using assms(3) by (simp add: skip_ws_def dropWhile_eq_Nil_conv)
  ultimately show ?thesis by (simp add: json_parse_def)
qed

section \<open>The leaves\<close>

lemma is_digit_facts:
  assumes "is_digit c"
  shows "\<not> is_ws c" "\<not> sep_byte c" "c \<noteq> CHR 0x5D" "c \<noteq> CHR 0x22" "c \<noteq> CHR 0x7B" "c \<noteq> CHR 0x5B"
    "c \<noteq> CHR ''-''" "c \<noteq> CHR ''t''" "c \<noteq> CHR ''f''" "c \<noteq> CHR ''n''" "c \<noteq> CHR ''.''"
    "c \<noteq> CHR ''e''" "c \<noteq> CHR ''E''" "plain_byte c"
  using assms by (auto simp: is_digit_def is_ws_def sep_byte_def plain_byte_def)

lemma delim_not_digit:
  "delim r \<Longrightarrow> takeWhile is_digit r = [] \<and> dropWhile is_digit r = r"
  by (cases r) (auto simp: delim_def is_digit_def)

lemma split_digits_app:
  "\<forall>c \<in> set a. is_digit c \<Longrightarrow> takeWhile is_digit r = [] \<Longrightarrow> split_digits (a @ r) = (a, r)"
  by (cases r) (auto simp: split_digits_def split: if_splits)

lemma jexp_delim: "delim r \<Longrightarrow> jexp r = Some ([], r)"
  by (auto simp: jexp_def delim_def)

lemma jfrac_delim: "delim r \<Longrightarrow> jfrac r = Some ([], r)"
  by (auto simp: jfrac_def delim_def)

lemma json_decimal_jnumber:
  assumes "json_decimal s" and "delim r" and "sg = [] \<or> sg = ''-''"
  shows "jnumber (sg @ s @ r) = Some (sg @ s, r)"
proof -
  from assms(1) obtain a b where ab: "s = a \<or> s = a @ ''.'' @ b" "a \<noteq> []" "b \<noteq> []"
      "\<forall>c \<in> set a. is_digit c" "\<forall>c \<in> set b. is_digit c" "length a = 1 \<or> hd a \<noteq> CHR ''0''"
    by (auto simp: json_decimal_def)
  define fr where "fr = (if s = a then [] else ''.'' @ b)"
  have s: "s = a @ fr" using ab(1) by (auto simp: fr_def)
  have fr: "jfrac (fr @ r) = Some (fr, r)"
    using ab(3,5) delim_not_digit [OF assms(2)] jfrac_delim [OF assms(2)]
    by (auto simp: fr_def jfrac_def split_digits_app)
  have nd: "takeWhile is_digit (fr @ r) = []"
    using delim_not_digit [OF assms(2)] by (auto simp: fr_def is_digit_def)
  have sd: "split_digits (a @ fr @ r) = (a, fr @ r)"
    by (rule split_digits_app [OF ab(4) nd])
  have "hd a \<noteq> CHR ''-''" using ab(2,4) is_digit_facts(7) by auto
  then show ?thesis
    using assms(3) ab(2,6) s sd fr jexp_delim [OF assms(2)] by (auto simp: jnumber_def)
qed

lemma jvalue_literal:
  assumes "s \<noteq> []" "\<not> is_ws (hd s)" "hd s \<noteq> CHR 0x22" "hd s \<noteq> CHR 0x7B" "hd s \<noteq> CHR 0x5B"
    and "length s \<le> n"
  shows "jvalue n (s @ r) = jliteral (s @ r)"
  using assms by (cases s; cases n) (auto simp: jvalue.simps(2))

lemma leaf_number:
  assumes "json_decimal s" and "sg = [] \<or> sg = ''-''"
  shows "leaf_ok (sg @ s) (JNum (sg @ s))"
proof -
  from assms(1) have s: "s \<noteq> []" "is_digit (hd s)" "is_digit (last s)"
    by (auto simp: json_decimal_def)
  have h: "hd (sg @ s) = CHR ''-'' \<or> is_digit (hd (sg @ s))"
    using assms(2) s by auto
  have hd: "hd (sg @ s) \<notin> {CHR 0x22, CHR 0x7B, CHR 0x5B, CHR 0x5D, CHR ''t'', CHR ''f'', CHR ''n''}"
    "\<not> is_ws (hd (sg @ s))"
    using h is_digit_facts [of "hd (sg @ s)"] by (auto simp: is_ws_def)
  have "jvalue n ((sg @ s) @ rest) = Some (JNum (sg @ s), rest)"
    if "length (sg @ s) \<le> n" "delim rest" for n rest
  proof -
    have "jliteral ((sg @ s) @ rest) = map_option (\<lambda>(t, r). (JNum t, r)) (jnumber ((sg @ s) @ rest))"
      using hd(1) s(1) by (cases "sg @ s") (auto simp: jliteral_def)
    moreover have "jvalue n ((sg @ s) @ rest) = jliteral ((sg @ s) @ rest)"
      using hd s(1) that(1) by (intro jvalue_literal) auto
    ultimately show ?thesis using json_decimal_jnumber [OF assms(1) that(2) assms(2)] by simp
  qed
  then show ?thesis
    using s hd is_digit_facts(2) by (auto simp: leaf_ok_def)
qed

lemma leaf_literal:
  "leaf_ok ''true'' (JBool True)" "leaf_ok ''false'' (JBool False)" "leaf_ok ''null'' JNull"
proof -
  have l: "jvalue n (c # s) = jliteral (c # s)"
    if "Suc 0 \<le> n" "c \<in> {CHR ''t'', CHR ''f'', CHR ''n''}" for n c s
    using that jvalue_literal [of "[c]" n s] by (auto simp: is_ws_def)
  show "leaf_ok ''true'' (JBool True)" "leaf_ok ''false'' (JBool False)" "leaf_ok ''null'' JNull"
    by (auto simp: leaf_ok_def sep_byte_def is_ws_def l jliteral_def)
qed

lemma leaf_string: "leaf_ok ([CHR 0x22] @ esc s @ [CHR 0x22]) (JStr (to_valid s))"
proof -
  have "jvalue n (([CHR 0x22] @ esc s @ [CHR 0x22]) @ rest) = Some (JStr (to_valid s), rest)"
    if "length ([CHR 0x22] @ esc s @ [CHR 0x22]) \<le> n" for n rest
    using that by (cases n) (simp_all add: jvalue.simps(2) jstring_esc)
  then show ?thesis by (simp add: leaf_ok_def sep_byte_def)
qed

lemma leaf_plain_string:
  assumes "\<forall>c \<in> set s. plain_byte c"
  shows "leaf_ok ([CHR 0x22] @ s @ [CHR 0x22]) (JStr s)"
proof -
  have "jvalue n (([CHR 0x22] @ s @ [CHR 0x22]) @ rest) = Some (JStr s, rest)"
    if "length ([CHR 0x22] @ s @ [CHR 0x22]) \<le> n" for n rest
    using that by (cases n) (simp_all add: jvalue.simps(2) jstring_plains [OF assms])
  then show ?thesis by (simp add: leaf_ok_def sep_byte_def)
qed

end
