(* ===== verification/Lad_Base64.thy ===== *)
theory Lad_Base64
  imports Lad_Text
begin

text \<open>
  \<open>base64.StdEncoding\<close>, which \<open>AddBinary\<close> of the JSON encoder uses: the standard alphabet with
  padding.  A decoder recovers the bytes, and the text needs no escaping.
\<close>

text \<open>The alphabet: \<open>A-Z\<close>, \<open>a-z\<close>, \<open>0-9\<close>, \<open>+\<close> and \<open>/\<close>.\<close>

definition b64_digit :: "nat \<Rightarrow> char" where
  "b64_digit n =
     (if n < 26 then byte (n + 65) else if n < 52 then byte (n + 71)
      else if n < 62 then byte (n - 4) else if n = 62 then CHR ''+'' else CHR ''/'')"

fun EncodeToString :: "bytes \<Rightarrow> bytes" where
  "EncodeToString (a # b # c # s) =
     [b64_digit (bval a div 4), b64_digit (bval a mod 4 * 16 + bval b div 16),
      b64_digit (bval b mod 16 * 4 + bval c div 64), b64_digit (bval c mod 64)]
     @ EncodeToString s"
| "EncodeToString [a, b] =
     [b64_digit (bval a div 4), b64_digit (bval a mod 4 * 16 + bval b div 16),
      b64_digit (bval b mod 16 * 4), CHR ''='']"
| "EncodeToString [a] =
     [b64_digit (bval a div 4), b64_digit (bval a mod 4 * 16), CHR ''='', CHR ''='']"
| "EncodeToString [] = []"

definition b64_value :: "char \<Rightarrow> nat option" where
  "b64_value c =
     (if 65 \<le> bval c \<and> bval c \<le> 90 then Some (bval c - 65)
      else if 97 \<le> bval c \<and> bval c \<le> 122 then Some (bval c - 71)
      else if 48 \<le> bval c \<and> bval c \<le> 57 then Some (bval c + 4)
      else if c = CHR ''+'' then Some 62
      else if c = CHR ''/'' then Some 63
      else None)"

fun DecodeString :: "bytes \<Rightarrow> bytes option" where
  "DecodeString [] = Some []"
| "DecodeString (w # x # y # z # s) =
     (case (b64_value w, b64_value x) of
        (Some i, Some j) \<Rightarrow>
          (if y = CHR ''='' then
             (if z = CHR ''='' \<and> s = [] then Some [byte (i * 4 + j div 16)] else None)
           else case b64_value y of
             None \<Rightarrow> None
           | Some k \<Rightarrow>
               if z = CHR ''='' then
                 (if s = [] then Some [byte (i * 4 + j div 16), byte (j mod 16 * 16 + k div 4)]
                  else None)
               else case b64_value z of
                 None \<Rightarrow> None
               | Some l \<Rightarrow>
                   map_option (\<lambda>r. [byte (i * 4 + j div 16), byte (j mod 16 * 16 + k div 4),
                     byte (k mod 4 * 64 + l)] @ r) (DecodeString s))
      | _ \<Rightarrow> None)"
| "DecodeString s = None"

lemma b64_digit_facts:
  assumes "n < 64"
  shows "b64_value (b64_digit n) = Some n" "b64_digit n \<noteq> CHR ''=''" "plain_byte (b64_digit n)"
  using assms by (auto simp: b64_digit_def b64_value_def plain_byte_def)

lemma b64_split:
  assumes "x < 256" "y < (256 :: nat)"
  shows "x div 4 < 64" "x mod 4 * 16 + y div 16 < 64" "x mod 16 * 4 + y div 64 < 64"
    "x mod 4 * 16 < 64" "x mod 16 * 4 < 64" "x mod 64 < 64"
  using assms by auto

lemma b64_join:
  "bval b div 16 div 16 = 0" "bval b div 16 mod 16 = bval b div 16"
  "bval c div 64 div 4 = 0" "bval c div 64 mod 4 = bval c div 64"
proof -
  have "bval b div 16 < 16" "bval c div 64 < 4"
    by (rule less_mult_imp_div_less, simp)+
  then show "bval b div 16 div 16 = 0" "bval b div 16 mod 16 = bval b div 16"
      "bval c div 64 div 4 = 0" "bval c div 64 mod 4 = bval c div 64"
    by auto
qed

lemmas b64_bounds = b64_split [OF bval_less bval_less]

lemma DecodeString_EncodeToString: "DecodeString (EncodeToString s) = Some s"
  by (induction s rule: EncodeToString.induct)
    (simp_all add: b64_digit_facts b64_bounds b64_join byte_bval)

lemma EncodeToString_plain: "\<forall>c \<in> set (EncodeToString s). plain_byte c"
proof -
  have eq: "plain_byte (CHR ''='')" by (simp add: plain_byte_def)
  show ?thesis
    by (induction s rule: EncodeToString.induct) (auto simp: eq b64_digit_facts b64_bounds)
qed

lemma EncodeToString_ascii: "\<forall>c \<in> set (EncodeToString s). bval c < 128"
proof -
  have "bval (b64_digit n) < 128" if "n < 64" for n
    using that by (auto simp: b64_digit_def)
  then show ?thesis
    by (induction s rule: EncodeToString.induct) (auto simp: b64_bounds)
qed

end
