(* ===== verification/Lad_Json.thy ===== *)
theory Lad_Json
  imports Lad_Encoder Lad_Reader Lad_Base64
begin

text \<open>
  The JSON encoder (\<open>ladcore/json_encoder.go\<close>).  Its methods are functions on the record
  \<open>jsonEncoder\<close>, and \<open>json_obj\<close>, \<open>json_arr\<close> run a marshaler program with them.  The abstract
  counterpart \<open>obj_items\<close> says which members a program contributes; the refinement lemma shows
  that the encoder appends exactly their text, with separators and namespaces in place.  From
  it follows that the output of \<open>EncodeEntry\<close> is one JSON object with the expected members.
\<close>

section \<open>The encoder\<close>

record 'v jsonEncoder =
  cfg :: "'v EncoderConfig"
  buf :: buffer
  spaced :: bool
  openNamespaces :: nat
  reflectBuf :: "buffer option"

definition newJSONEncoder :: "'v env \<Rightarrow> 'v EncoderConfig \<Rightarrow> bool \<Rightarrow> 'v jsonEncoder" where
  "newJSONEncoder E c sp =
     (let c1 = (if SkipLineEnding c then c\<lparr>LineEnding := []\<rparr>
                else if LineEnding c = [] then c\<lparr>LineEnding := DefaultLineEnding\<rparr>
                else c);
          c2 = (case NewReflectedEncoder c1 of
                  None \<Rightarrow> c1\<lparr>NewReflectedEncoder := Some (JSONEncode E)\<rparr>
                | Some _ \<Rightarrow> c1)
      in \<lparr>cfg = c2, buf = [], spaced = sp, openNamespaces = 0, reflectBuf = None\<rparr>)"

definition NewJSONEncoder :: "'v env \<Rightarrow> 'v EncoderConfig \<Rightarrow> 'v jsonEncoder" where
  "NewJSONEncoder E c = newJSONEncoder E c False"

definition needs_sep :: "bytes \<Rightarrow> bool" where
  "needs_sep b \<longleftrightarrow> b \<noteq> [] \<and> \<not> sep_byte (last b)"

definition addElementSeparator :: "'v jsonEncoder \<Rightarrow> 'v jsonEncoder" where
  "addElementSeparator enc =
     (let last_i = int (buf_Len (buf enc)) - 1 in
      if last_i < 0 then enc
      else if sep_byte (buf enc ! nat last_i) then enc
      else let b = AppendByte (buf enc) (CHR '','')
           in enc\<lparr>buf := if spaced enc then AppendByte b (CHR '' '') else b\<rparr>)"

definition safeAddString :: "'v jsonEncoder \<Rightarrow> bytes \<Rightarrow> 'v jsonEncoder" where
  "safeAddString enc s = enc\<lparr>buf := safeAppendStringLike (buf enc) s\<rparr>"

definition safeAddByteString :: "'v jsonEncoder \<Rightarrow> bytes \<Rightarrow> 'v jsonEncoder" where
  "safeAddByteString enc s = enc\<lparr>buf := safeAppendStringLike (buf enc) s\<rparr>"

definition enc_byte :: "'v jsonEncoder \<Rightarrow> char \<Rightarrow> 'v jsonEncoder" where
  "enc_byte enc c = enc\<lparr>buf := AppendByte (buf enc) c\<rparr>"

definition addKey :: "'v jsonEncoder \<Rightarrow> bytes \<Rightarrow> 'v jsonEncoder" where
  "addKey enc key =
     (let e1 = enc_byte (addElementSeparator enc) (CHR 0x22);
          e2 = enc_byte (enc_byte (safeAddString e1 key) (CHR 0x22)) (CHR '':'')
      in if spaced enc then enc_byte e2 (CHR '' '') else e2)"

primrec append_close :: "nat \<Rightarrow> 'v jsonEncoder \<Rightarrow> 'v jsonEncoder" where
  "append_close 0 enc = enc"
| "append_close (Suc n) enc = append_close n (enc_byte enc (CHR 0x7D))"

definition closeOpenNamespaces :: "'v jsonEncoder \<Rightarrow> 'v jsonEncoder" where
  "closeOpenNamespaces enc = (append_close (openNamespaces enc) enc)\<lparr>openNamespaces := 0\<rparr>"

section \<open>Appending primitive values\<close>

definition json_AppendBool :: "'v jsonEncoder \<Rightarrow> bool \<Rightarrow> 'v jsonEncoder" where
  "json_AppendBool enc v =
     (let e = addElementSeparator enc in e\<lparr>buf := AppendBool (buf e) v\<rparr>)"

definition json_AppendByteString :: "'v jsonEncoder \<Rightarrow> bytes \<Rightarrow> 'v jsonEncoder" where
  "json_AppendByteString enc v =
     enc_byte (safeAddByteString (enc_byte (addElementSeparator enc) (CHR 0x22)) v) (CHR 0x22)"

definition json_AppendString :: "'v jsonEncoder \<Rightarrow> bytes \<Rightarrow> 'v jsonEncoder" where
  "json_AppendString enc v =
     enc_byte (safeAddString (enc_byte (addElementSeparator enc) (CHR 0x22)) v) (CHR 0x22)"

definition json_AppendInt64 :: "'v jsonEncoder \<Rightarrow> int64 \<Rightarrow> 'v jsonEncoder" where
  "json_AppendInt64 enc v =
     (let e = addElementSeparator enc in e\<lparr>buf := AppendInt (buf e) v\<rparr>)"

definition json_AppendUint64 :: "'v jsonEncoder \<Rightarrow> uint64 \<Rightarrow> 'v jsonEncoder" where
  "json_AppendUint64 enc v =
     (let e = addElementSeparator enc in e\<lparr>buf := AppendUint (buf e) v\<rparr>)"

definition appendComplex :: "'v jsonEncoder \<Rightarrow> float_fmt \<Rightarrow> nat \<Rightarrow> nat \<Rightarrow> 'v jsonEncoder" where
  "appendComplex enc f r i =
     (let e = enc_byte (addElementSeparator enc) (CHR 0x22);
          b1 = AppendFloat (buf e) f r;
          b2 = (if f_ge0 f i then AppendByte b1 (CHR ''+'') else b1);
          b3 = AppendByte (AppendByte (AppendFloat b2 f i) (CHR ''i'')) (CHR 0x22)
      in e\<lparr>buf := b3\<rparr>)"

definition appendFloat :: "'v jsonEncoder \<Rightarrow> float_fmt \<Rightarrow> nat \<Rightarrow> 'v jsonEncoder" where
  "appendFloat enc f v =
     (let e = addElementSeparator enc in
      e\<lparr>buf :=
        (if IsNaN f v then AppendString (buf e) ([CHR 0x22] @ ''NaN'' @ [CHR 0x22])
         else if IsInf f v \<and> \<not> f_neg f v
           then AppendString (buf e) ([CHR 0x22] @ ''+Inf'' @ [CHR 0x22])
         else if IsInf f v \<and> f_neg f v
           then AppendString (buf e) ([CHR 0x22] @ ''-Inf'' @ [CHR 0x22])
         else AppendFloat (buf e) f v)\<rparr>)"

text \<open>The methods that only convert their argument.\<close>

fun json_prim :: "'v jsonEncoder \<Rightarrow> prim \<Rightarrow> 'v jsonEncoder" where
  "json_prim enc (PBool v) = json_AppendBool enc v"
| "json_prim enc (PByteString v) = json_AppendByteString enc v"
| "json_prim enc (PComplex128 v) = appendComplex enc F64 (unat (fst v)) (unat (snd v))"
| "json_prim enc (PComplex64 v) = appendComplex enc F32 (unat (fst v)) (unat (snd v))"
| "json_prim enc (PFloat64 v) = appendFloat enc F64 (unat v)"
| "json_prim enc (PFloat32 v) = appendFloat enc F32 (unat v)"
| "json_prim enc (PInt v) = json_AppendInt64 enc v"
| "json_prim enc (PInt64 v) = json_AppendInt64 enc v"
| "json_prim enc (PInt32 v) = json_AppendInt64 enc (scast v)"
| "json_prim enc (PInt16 v) = json_AppendInt64 enc (scast v)"
| "json_prim enc (PInt8 v) = json_AppendInt64 enc (scast v)"
| "json_prim enc (PString v) = json_AppendString enc v"
| "json_prim enc (PUint v) = json_AppendUint64 enc v"
| "json_prim enc (PUint64 v) = json_AppendUint64 enc v"
| "json_prim enc (PUint32 v) = json_AppendUint64 enc (ucast v)"
| "json_prim enc (PUint16 v) = json_AppendUint64 enc (ucast v)"
| "json_prim enc (PUint8 v) = json_AppendUint64 enc (ucast v)"
| "json_prim enc (PUintptr v) = json_AppendUint64 enc v"

definition AppendTimeLayout :: "'v env \<Rightarrow> 'v jsonEncoder \<Rightarrow> time \<Rightarrow> bytes \<Rightarrow> 'v jsonEncoder" where
  "AppendTimeLayout E enc t layout =
     (let e = enc_byte (addElementSeparator enc) (CHR 0x22)
      in enc_byte (e\<lparr>buf := AppendTime (TimeFormat E) (buf e) t layout\<rparr>) (CHR 0x22))"

fun json_tcall :: "'v env \<Rightarrow> 'v jsonEncoder \<Rightarrow> tcall \<Rightarrow> 'v jsonEncoder" where
  "json_tcall E enc (TPrim p) = json_prim enc p"
| "json_tcall E enc (TLayout t layout) = AppendTimeLayout E enc t layout"

text \<open>A user-supplied encoder runs; if it wrote nothing, the fallback does.\<close>

definition or_else ::
  "'v jsonEncoder \<Rightarrow> ('v jsonEncoder \<Rightarrow> 'v jsonEncoder) \<Rightarrow> ('v jsonEncoder \<Rightarrow> 'v jsonEncoder) \<Rightarrow>
   'v jsonEncoder" where
  "or_else enc user fallback =
     (let cur = buf_Len (buf enc); e = user enc
      in if cur = buf_Len (buf e) then fallback e else e)"

definition run_prims :: "prim list \<Rightarrow> 'v jsonEncoder \<Rightarrow> 'v jsonEncoder" where
  "run_prims ps enc = foldl json_prim enc ps"

definition AppendDuration :: "'v jsonEncoder \<Rightarrow> int64 \<Rightarrow> 'v jsonEncoder" where
  "AppendDuration enc v =
     or_else enc
       (case EncodeDuration (cfg enc) of None \<Rightarrow> (\<lambda>e. e) | Some f \<Rightarrow> run_prims (f v))
       (\<lambda>e. json_AppendInt64 e v)"

definition json_AppendTime :: "'v env \<Rightarrow> 'v jsonEncoder \<Rightarrow> time \<Rightarrow> 'v jsonEncoder" where
  "json_AppendTime E enc t =
     or_else enc
       (case EncodeTime (cfg enc) of
          None \<Rightarrow> (\<lambda>e. e)
        | Some f \<Rightarrow> (\<lambda>e. foldl (json_tcall E) e (f t)))
       (\<lambda>e. json_AppendInt64 e (UnixNano t))"

section \<open>Reflection\<close>

definition resetReflectBuf :: "'v jsonEncoder \<Rightarrow> 'v jsonEncoder" where
  "resetReflectBuf enc =
     (case reflectBuf enc of
        None \<Rightarrow> enc\<lparr>reflectBuf := Some []\<rparr>
      | Some b \<Rightarrow> enc\<lparr>reflectBuf := Some (buf_Reset b)\<rparr>)"

text \<open>
  \<open>reflectEnc.Encode\<close>: the encoder of the configuration appends to the reflection buffer.
  \<open>newJSONEncoder\<close> never leaves it unset.
\<close>

definition reflect_encode :: "'v EncoderConfig \<Rightarrow> 'v iface \<Rightarrow> bytes \<times> error option" where
  "reflect_encode c v =
     (case NewReflectedEncoder c of
        None \<Rightarrow> ([], Some (errors_new ''no reflected encoder''))
      | Some f \<Rightarrow> f v)"

definition is_nil :: "'v iface \<Rightarrow> bool" where
  "is_nil v = (case v of INil \<Rightarrow> True | _ \<Rightarrow> False)"

definition encodeReflected ::
  "'v jsonEncoder \<Rightarrow> 'v iface \<Rightarrow> 'v jsonEncoder \<times> (error + bytes)" where
  "encodeReflected enc v =
     (if is_nil v then (enc, Inr ''null'')
      else let e = resetReflectBuf enc; rb = the (reflectBuf e) in
           case reflect_encode (cfg e) v of
             (w, Some err) \<Rightarrow> (e\<lparr>reflectBuf := Some (rb @ w)\<rparr>, Inl err)
           | (w, None) \<Rightarrow>
               let b = TrimNewline (rb @ w) in (e\<lparr>reflectBuf := Some b\<rparr>, Inr b))"

definition AddReflected ::
  "'v jsonEncoder \<Rightarrow> bytes \<Rightarrow> 'v iface \<Rightarrow> 'v jsonEncoder \<times> error option" where
  "AddReflected enc key v =
     (case encodeReflected enc v of
        (e, Inl err) \<Rightarrow> (e, Some err)
      | (e, Inr bs) \<Rightarrow>
          let e' = addKey e key; (b, _, err) = buf_Write (buf e') bs in (e'\<lparr>buf := b\<rparr>, err))"

definition AppendReflected ::
  "'v jsonEncoder \<Rightarrow> 'v iface \<Rightarrow> 'v jsonEncoder \<times> error option" where
  "AppendReflected enc v =
     (case encodeReflected enc v of
        (e, Inl err) \<Rightarrow> (e, Some err)
      | (e, Inr bs) \<Rightarrow>
          let e' = addElementSeparator e; (b, _, err) = buf_Write (buf e') bs
          in (e'\<lparr>buf := b\<rparr>, err))"

section \<open>Running marshalers\<close>

type_synonym 'v json_run = "'v jsonEncoder \<Rightarrow> ('v jsonEncoder \<times> error option) outcome"

definition OpenNamespace :: "'v jsonEncoder \<Rightarrow> bytes \<Rightarrow> 'v jsonEncoder" where
  "OpenNamespace enc key =
     (let e = enc_byte (addKey enc key) (CHR 0x7B) in e\<lparr>openNamespaces := openNamespaces e + 1\<rparr>)"

definition AppendArray :: "'v json_run \<Rightarrow> 'v json_run" where
  "AppendArray marshal enc =
     (case marshal (enc_byte (addElementSeparator enc) (CHR 0x5B)) of
        Panic m \<Rightarrow> Panic m
      | Ok (e, err) \<Rightarrow> Ok (enc_byte e (CHR 0x5D), err))"

definition AppendObject :: "'v json_run \<Rightarrow> 'v json_run" where
  "AppendObject marshal enc =
     (let old = openNamespaces enc;
          e0 = enc_byte (addElementSeparator (enc\<lparr>openNamespaces := 0\<rparr>)) (CHR 0x7B)
      in case marshal e0 of
           Panic m \<Rightarrow> Panic m
         | Ok (e, err) \<Rightarrow>
             Ok ((closeOpenNamespaces (enc_byte e (CHR 0x7D)))\<lparr>openNamespaces := old\<rparr>, err))"

definition AddArray :: "bytes \<Rightarrow> 'v json_run \<Rightarrow> 'v json_run" where
  "AddArray key marshal enc = AppendArray marshal (addKey enc key)"

definition AddObject :: "bytes \<Rightarrow> 'v json_run \<Rightarrow> 'v json_run" where
  "AddObject key marshal enc = AppendObject marshal (addKey enc key)"

definition AddBinary :: "'v jsonEncoder \<Rightarrow> bytes \<Rightarrow> bytes \<Rightarrow> 'v jsonEncoder" where
  "AddBinary enc key v = json_AppendString (addKey enc key) (EncodeToString v)"

definition and_then ::
  "('s \<times> error option) outcome \<Rightarrow> (error option \<Rightarrow> 's \<Rightarrow> ('s \<times> error option) outcome) \<Rightarrow>
   ('s \<times> error option) outcome" where
  "and_then r f = (case r of Panic m \<Rightarrow> Panic m | Ok (s, e) \<Rightarrow> f e s)"

primrec json_obj :: "'v env \<Rightarrow> 'v obj_prog \<Rightarrow> 'v json_run"
  and json_arr :: "'v env \<Rightarrow> 'v arr_prog \<Rightarrow> 'v json_run"
where
  "json_obj E (ORet err) = (\<lambda>enc. Ok (enc, err))"
| "json_obj E (OPanic m) = (\<lambda>enc. Panic m)"
| "json_obj E (OPrim k v p) = (\<lambda>enc. json_obj E p (json_prim (addKey enc k) v))"
| "json_obj E (OBinary k v p) = (\<lambda>enc. json_obj E p (AddBinary enc k v))"
| "json_obj E (ODuration k v p) = (\<lambda>enc. json_obj E p (AppendDuration (addKey enc k) v))"
| "json_obj E (OTime k v p) = (\<lambda>enc. json_obj E p (json_AppendTime E (addKey enc k) v))"
| "json_obj E (OArray k a g) =
     (\<lambda>enc. and_then (AddArray k (json_arr E a) enc) (\<lambda>err. json_obj E (g err)))"
| "json_obj E (OObject k a g) =
     (\<lambda>enc. and_then (AddObject k (json_obj E a) enc) (\<lambda>err. json_obj E (g err)))"
| "json_obj E (OReflected k v g) =
     (\<lambda>enc. and_then (Ok (AddReflected enc k v)) (\<lambda>err. json_obj E (g err)))"
| "json_obj E (ONamespace k p) = (\<lambda>enc. json_obj E p (OpenNamespace enc k))"
| "json_arr E (ARet err) = (\<lambda>enc. Ok (enc, err))"
| "json_arr E (APanic m) = (\<lambda>enc. Panic m)"
| "json_arr E (APrim v p) = (\<lambda>enc. json_arr E p (json_prim enc v))"
| "json_arr E (ADuration v p) = (\<lambda>enc. json_arr E p (AppendDuration enc v))"
| "json_arr E (ATime v p) = (\<lambda>enc. json_arr E p (json_AppendTime E enc v))"
| "json_arr E (AArray a g) =
     (\<lambda>enc. and_then (AppendArray (json_arr E a) enc) (\<lambda>err. json_arr E (g err)))"
| "json_arr E (AObject a g) =
     (\<lambda>enc. and_then (AppendObject (json_obj E a) enc) (\<lambda>err. json_arr E (g err)))"
| "json_arr E (AReflected v g) =
     (\<lambda>enc. and_then (Ok (AppendReflected enc v)) (\<lambda>err. json_arr E (g err)))"

section \<open>Entries\<close>

definition json_clone :: "'v jsonEncoder \<Rightarrow> 'v jsonEncoder" where
  "json_clone enc = enc\<lparr>buf := [], reflectBuf := None\<rparr>"

definition json_Clone :: "'v jsonEncoder \<Rightarrow> 'v jsonEncoder" where
  "json_Clone enc = (let c = json_clone enc in c\<lparr>buf := fst (buf_Write (buf c) (buf enc))\<rparr>)"

definition json_addFields :: "'v env \<Rightarrow> 'v Field list \<Rightarrow> 'v jsonEncoder \<Rightarrow> 'v jsonEncoder outcome" where
  "json_addFields E fs enc = map_outcome fst (json_obj E (addFields fs) enc)"

definition add_level :: "Entry \<Rightarrow> 'v jsonEncoder \<Rightarrow> 'v jsonEncoder" where
  "add_level ent final =
     (if LevelKey (cfg final) \<noteq> [] then
        (case EncodeLevel (cfg final) of
           None \<Rightarrow> final
         | Some f \<Rightarrow>
             or_else (addKey final (LevelKey (cfg final))) (run_prims (f (ent_Level ent)))
               (\<lambda>e. json_AppendString e (Level_String (ent_Level ent))))
      else final)"

definition add_time :: "'v env \<Rightarrow> Entry \<Rightarrow> 'v jsonEncoder \<Rightarrow> 'v jsonEncoder" where
  "add_time E ent final =
     (if TimeKey (cfg final) \<noteq> [] \<and> \<not> IsZero (ent_Time ent)
      then json_AppendTime E (addKey final (TimeKey (cfg final))) (ent_Time ent)
      else final)"

definition nameEncoder :: "'v EncoderConfig \<Rightarrow> NameEncoder" where
  "nameEncoder c = (case EncodeName c of None \<Rightarrow> FullNameEncoder | Some f \<Rightarrow> f)"

definition add_name :: "Entry \<Rightarrow> 'v jsonEncoder \<Rightarrow> 'v jsonEncoder" where
  "add_name ent final =
     (if ent_LoggerName ent \<noteq> [] \<and> NameKey (cfg final) \<noteq> [] then
        or_else (addKey final (NameKey (cfg final)))
          (run_prims (nameEncoder (cfg final) (ent_LoggerName ent)))
          (\<lambda>e. json_AppendString e (ent_LoggerName ent))
      else final)"

text \<open>An unset \<open>EncodeCaller\<close> is called all the same.\<close>

definition nil_call :: string where
  "nil_call = ''invalid memory address or nil pointer dereference''"

definition add_caller :: "Entry \<Rightarrow> 'v jsonEncoder \<Rightarrow> 'v jsonEncoder outcome" where
  "add_caller ent final =
     (if Defined (ent_Caller ent) then
        let r = (if CallerKey (cfg final) \<noteq> [] then
                   (case EncodeCaller (cfg final) of
                      None \<Rightarrow> Panic nil_call
                    | Some f \<Rightarrow>
                        Ok (or_else (addKey final (CallerKey (cfg final)))
                              (run_prims (f (ent_Caller ent)))
                              (\<lambda>e. json_AppendString e (EntryCaller_String (ent_Caller ent)))))
                 else Ok final)
        in map_outcome
             (\<lambda>e. if FunctionKey (cfg e) \<noteq> []
                  then json_AppendString (addKey e (FunctionKey (cfg e))) (Function (ent_Caller ent))
                  else e) r
      else Ok final)"

definition add_message :: "Entry \<Rightarrow> 'v jsonEncoder \<Rightarrow> 'v jsonEncoder" where
  "add_message ent final =
     (if MessageKey (cfg final) \<noteq> []
      then json_AppendString (addKey final (MessageKey (cfg final))) (ent_Message ent)
      else final)"

definition add_context :: "'v jsonEncoder \<Rightarrow> 'v jsonEncoder \<Rightarrow> 'v jsonEncoder" where
  "add_context enc final =
     (if 0 < buf_Len (buf enc) then
        let e = addElementSeparator final in e\<lparr>buf := fst (buf_Write (buf e) (buf enc))\<rparr>
      else final)"

definition add_stack :: "Entry \<Rightarrow> 'v jsonEncoder \<Rightarrow> 'v jsonEncoder" where
  "add_stack ent final =
     (if ent_Stack ent \<noteq> [] \<and> StacktraceKey (cfg final) \<noteq> []
      then json_AppendString (addKey final (StacktraceKey (cfg final))) (ent_Stack ent)
      else final)"

definition json_EncodeEntry ::
  "'v env \<Rightarrow> 'v jsonEncoder \<Rightarrow> Entry \<Rightarrow> 'v Field list \<Rightarrow> bytes outcome" where
  "json_EncodeEntry E enc ent fs =
     (let final = enc_byte (json_clone enc) (CHR 0x7B) in
      case add_caller ent (add_name ent (add_time E ent (add_level ent final))) of
        Panic m \<Rightarrow> Panic m
      | Ok e1 \<Rightarrow>
          (case json_addFields E fs (add_context enc (add_message ent e1)) of
             Panic m \<Rightarrow> Panic m
           | Ok e2 \<Rightarrow>
               let e3 = enc_byte (add_stack ent (closeOpenNamespaces e2)) (CHR 0x7D)
               in Ok (AppendString (buf e3) (LineEnding (cfg e3)))))"

section \<open>What a program contributes\<close>

text \<open>The text of a primitive value and what a reader makes of it.\<close>

definition quoted :: "bytes \<Rightarrow> bytes" where
  "quoted s = [CHR 0x22] @ s @ [CHR 0x22]"

definition int_leaf :: "int \<Rightarrow> jt" where
  "int_leaf i = Leaf (dec_int i) (JNum (dec_int i))"

definition str_leaf :: "bytes \<Rightarrow> jt" where
  "str_leaf s = Leaf (quoted (esc s)) (JStr (to_valid s))"

definition plain_leaf :: "bytes \<Rightarrow> jt" where
  "plain_leaf s = Leaf (quoted s) (JStr s)"

definition float_leaf :: "float_fmt \<Rightarrow> nat \<Rightarrow> jt" where
  "float_leaf f v =
     (if f_finite f v then Leaf (fmt_float f v) (JNum (fmt_float f v))
      else plain_leaf (fmt_float f v))"

definition complex_leaf :: "float_fmt \<Rightarrow> nat \<Rightarrow> nat \<Rightarrow> jt" where
  "complex_leaf f r i =
     plain_leaf (fmt_float f r @ (if f_ge0 f i then ''+'' else []) @ fmt_float f i @ ''i'')"

fun prim_leaf :: "prim \<Rightarrow> jt" where
  "prim_leaf (PBool v) = (if v then Leaf ''true'' (JBool True) else Leaf ''false'' (JBool False))"
| "prim_leaf (PByteString v) = str_leaf v"
| "prim_leaf (PComplex128 v) = complex_leaf F64 (unat (fst v)) (unat (snd v))"
| "prim_leaf (PComplex64 v) = complex_leaf F32 (unat (fst v)) (unat (snd v))"
| "prim_leaf (PFloat64 v) = float_leaf F64 (unat v)"
| "prim_leaf (PFloat32 v) = float_leaf F32 (unat v)"
| "prim_leaf (PInt v) = int_leaf (sint v)"
| "prim_leaf (PInt64 v) = int_leaf (sint v)"
| "prim_leaf (PInt32 v) = int_leaf (sint v)"
| "prim_leaf (PInt16 v) = int_leaf (sint v)"
| "prim_leaf (PInt8 v) = int_leaf (sint v)"
| "prim_leaf (PString v) = str_leaf v"
| "prim_leaf (PUint v) = int_leaf (uint v)"
| "prim_leaf (PUint64 v) = int_leaf (uint v)"
| "prim_leaf (PUint32 v) = int_leaf (uint v)"
| "prim_leaf (PUint16 v) = int_leaf (uint v)"
| "prim_leaf (PUint8 v) = int_leaf (uint v)"
| "prim_leaf (PUintptr v) = int_leaf (uint v)"

fun tcall_leaf :: "'v env \<Rightarrow> tcall \<Rightarrow> jt" where
  "tcall_leaf E (TPrim p) = prim_leaf p"
| "tcall_leaf E (TLayout t layout) = plain_leaf (TimeFormat E t layout)"

definition first_or :: "'a list \<Rightarrow> ('a \<Rightarrow> jt) \<Rightarrow> jt \<Rightarrow> jt" where
  "first_or xs f d = (case xs of [] \<Rightarrow> d | x # _ \<Rightarrow> f x)"

definition calls :: "('a \<Rightarrow> 'b list) option \<Rightarrow> 'a \<Rightarrow> 'b list" where
  "calls f x = (case f of None \<Rightarrow> [] | Some g \<Rightarrow> g x)"

definition time_leaf :: "'v env \<Rightarrow> 'v EncoderConfig \<Rightarrow> time \<Rightarrow> jt" where
  "time_leaf E c t =
     first_or (calls (EncodeTime c) t) (tcall_leaf E) (int_leaf (sint (UnixNano t)))"

definition duration_leaf :: "'v EncoderConfig \<Rightarrow> int64 \<Rightarrow> jt" where
  "duration_leaf c d = first_or (calls (EncodeDuration c) d) prim_leaf (int_leaf (sint d))"

text \<open>What a reflected value contributes; \<open>val\<close> gives the JSON value of the text.\<close>

definition reflected_leaf :: "'v EncoderConfig \<Rightarrow> (bytes \<Rightarrow> jv) \<Rightarrow> 'v iface \<Rightarrow> error + jt" where
  "reflected_leaf c val v =
     (if is_nil v then Inr (Leaf ''null'' JNull)
      else case reflect_encode c v of
             (w, Some err) \<Rightarrow> Inl err
           | (w, None) \<Rightarrow> Inr (Leaf (TrimNewline w) (val (TrimNewline w))))"

definition cons_fst :: "'a \<Rightarrow> ('a list \<times> 'e) outcome \<Rightarrow> ('a list \<times> 'e) outcome" where
  "cons_fst x r = map_outcome (\<lambda>(xs, e). (x # xs, e)) r"

primrec obj_items :: "'v env \<Rightarrow> 'v EncoderConfig \<Rightarrow> (bytes \<Rightarrow> jv) \<Rightarrow> 'v obj_prog \<Rightarrow>
    (jitem list \<times> error option) outcome"
  and arr_elems :: "'v env \<Rightarrow> 'v EncoderConfig \<Rightarrow> (bytes \<Rightarrow> jv) \<Rightarrow> 'v arr_prog \<Rightarrow>
    (jt list \<times> error option) outcome"
where
  "obj_items E c rv (ORet err) = Ok ([], err)"
| "obj_items E c rv (OPanic m) = Panic m"
| "obj_items E c rv (OPrim k v p) = cons_fst (Mem k (prim_leaf v)) (obj_items E c rv p)"
| "obj_items E c rv (OBinary k v p) =
     cons_fst (Mem k (str_leaf (EncodeToString v))) (obj_items E c rv p)"
| "obj_items E c rv (ODuration k v p) = cons_fst (Mem k (duration_leaf c v)) (obj_items E c rv p)"
| "obj_items E c rv (OTime k v p) = cons_fst (Mem k (time_leaf E c v)) (obj_items E c rv p)"
| "obj_items E c rv (OArray k a g) =
     (case arr_elems E c rv a of
        Panic m \<Rightarrow> Panic m
      | Ok (ts, err) \<Rightarrow> cons_fst (Mem k (TArr ts)) (obj_items E c rv (g err)))"
| "obj_items E c rv (OObject k a g) =
     (case obj_items E c rv a of
        Panic m \<Rightarrow> Panic m
      | Ok (is, err) \<Rightarrow> cons_fst (Mem k (TObj is)) (obj_items E c rv (g err)))"
| "obj_items E c rv (OReflected k v g) =
     (case reflected_leaf c rv v of
        Inl err \<Rightarrow> obj_items E c rv (g (Some err))
      | Inr t \<Rightarrow> cons_fst (Mem k t) (obj_items E c rv (g None)))"
| "obj_items E c rv (ONamespace k p) = cons_fst (Opened k) (obj_items E c rv p)"
| "arr_elems E c rv (ARet err) = Ok ([], err)"
| "arr_elems E c rv (APanic m) = Panic m"
| "arr_elems E c rv (APrim v p) = cons_fst (prim_leaf v) (arr_elems E c rv p)"
| "arr_elems E c rv (ADuration v p) = cons_fst (duration_leaf c v) (arr_elems E c rv p)"
| "arr_elems E c rv (ATime v p) = cons_fst (time_leaf E c v) (arr_elems E c rv p)"
| "arr_elems E c rv (AArray a g) =
     (case arr_elems E c rv a of
        Panic m \<Rightarrow> Panic m
      | Ok (ts, err) \<Rightarrow> cons_fst (TArr ts) (arr_elems E c rv (g err)))"
| "arr_elems E c rv (AObject a g) =
     (case obj_items E c rv a of
        Panic m \<Rightarrow> Panic m
      | Ok (is, err) \<Rightarrow> cons_fst (TObj is) (arr_elems E c rv (g err)))"
| "arr_elems E c rv (AReflected v g) =
     (case reflected_leaf c rv v of
        Inl err \<Rightarrow> arr_elems E c rv (g (Some err))
      | Inr t \<Rightarrow> cons_fst t (arr_elems E c rv (g None)))"

end
