(* ===== verification/Lad_Json_Correct.thy ===== *)
theory Lad_Json_Correct
  imports Lad_Json
begin

text \<open>
  Correctness of the JSON encoder: the refinement of \<open>obj_items\<close> by \<open>json_obj\<close>, and what a
  reader makes of an encoded entry.
\<close>

section \<open>Emitting text\<close>

definition sep_text :: "'v jsonEncoder \<Rightarrow> bytes" where
  "sep_text enc = (if needs_sep (buf enc) then comma (spaced enc) else [])"

lemma addElementSeparator_emit:
  "addElementSeparator enc = enc\<lparr>buf := buf enc @ sep_text enc\<rparr>"
proof (cases "buf enc = []")
  case False
  then have "buf enc ! nat (int (length (buf enc)) - 1) = last (buf enc)"
    by (simp add: last_conv_nth nat_diff_distrib')
  with False show ?thesis
    by (auto simp: addElementSeparator_def sep_text_def needs_sep_def comma_def enc_simps Let_def)
qed (simp add: addElementSeparator_def sep_text_def needs_sep_def enc_simps)

lemmas emit_defs = addElementSeparator_emit safeAddString_def safeAddByteString_def enc_byte_def
  enc_simps Let_def

lemma addKey_emit:
  "addKey enc k = enc\<lparr>buf := buf enc @ sep_text enc @ key_text (spaced enc) k\<rparr>"
  by (simp add: addKey_def emit_defs key_text_def)

lemma key_no_sep [simp]: "needs_sep (b @ key_text sp k) = False"
  by (simp add: needs_sep_def key_text_def sep_byte_def)

lemma key_no_sep' [simp]: "needs_sep (a @ b @ key_text sp k) = False"
  using key_no_sep [of "a @ b"] by (simp del: key_no_sep)

text \<open>What a leaf looks like.\<close>

lemma float_trichotomy:
  "f_finite f v \<and> \<not> IsNaN f v \<and> \<not> IsInf f v \<or> \<not> f_finite f v \<and> (IsNaN f v \<or> IsInf f v)"
  by (auto simp: f_finite_def IsNaN_def IsInf_def)

lemma scast_sint [simp]:
  "sint (scast (a :: int32) :: int64) = sint a" "sint (scast (b :: int16) :: int64) = sint b"
  "sint (scast (c :: int8) :: int64) = sint c"
  by (simp_all add: sint_up_scast is_up)

lemma ucast_uint [simp]:
  "unat (ucast (a :: uint32) :: uint64) = unat a" "unat (ucast (b :: uint16) :: uint64) = unat b"
  "unat (ucast (c :: uint8) :: uint64) = unat c"
proof -
  have "unat a < 2 ^ LENGTH(32)" "unat b < 2 ^ LENGTH(16)" "unat c < 2 ^ LENGTH(8)"
    by (rule unsigned_less)+
  then show "unat (ucast a :: uint64) = unat a" "unat (ucast b :: uint64) = unat b"
      "unat (ucast c :: uint64) = unat c"
    by (simp_all add: unsigned_ucast_eq take_bit_nat_eq_self_iff)
qed

lemma dec_int_uint: "dec_int (uint w) = dec_nat (unat w)"
  by (simp add: dec_int_def)

lemma json_prim_emit:
  "json_prim enc v = enc\<lparr>buf := buf enc @ sep_text enc @ ttext sp (prim_leaf v)\<rparr>"
  using float_trichotomy
  by (cases v)
    (auto simp: json_AppendBool_def json_AppendByteString_def json_AppendString_def
      json_AppendInt64_def json_AppendUint64_def appendComplex_def appendFloat_def emit_defs
      str_leaf_def quoted_def int_leaf_def plain_leaf_def complex_leaf_def float_leaf_def
      fmt_float_def dec_int_uint)

lemma json_decimal_plain: "json_decimal s \<Longrightarrow> \<forall>c \<in> set s. plain_byte c"
proof -
  have "plain_byte (CHR ''.'')" by (simp add: plain_byte_def)
  then show "json_decimal s \<Longrightarrow> \<forall>c \<in> set s. plain_byte c"
    using is_digit_facts(14) by (auto simp: json_decimal_def)
qed

lemma fmt_float_plain: "\<forall>c \<in> set (fmt_float f b). plain_byte c"
proof (cases "f_finite f b")
  case True
  have "plain_byte (CHR ''-'')" by (simp add: plain_byte_def)
  then show ?thesis
    using json_decimal_plain by (cases rule: fmt_float_json [OF True]) auto
next
  case False
  then show ?thesis
    using float_trichotomy [of f b] by (auto simp: fmt_float_def plain_byte_def)
qed

lemma plain_leaf_ok: "\<forall>c \<in> set s. plain_byte c \<Longrightarrow> jt_ok (plain_leaf s)"
  using leaf_plain_string [of s] by (simp add: plain_leaf_def quoted_def)

lemma str_leaf_ok: "jt_ok (str_leaf s)"
  using leaf_string [of s] by (simp add: str_leaf_def quoted_def)

lemma int_leaf_ok: "jt_ok (int_leaf i)"
  using leaf_number [OF dec_nat_json, of "[]"] leaf_number [OF dec_nat_json, of "''-''"]
  by (simp add: int_leaf_def dec_int_def)

lemma float_leaf_ok: "jt_ok (float_leaf f v)"
proof (cases "f_finite f v")
  case True
  then show ?thesis
    using leaf_number [of _ "[]"] leaf_number [of _ "''-''"]
    by (cases rule: fmt_float_json [OF True]) (simp_all add: float_leaf_def)
qed (simp add: float_leaf_def plain_leaf_ok fmt_float_plain)

lemma complex_leaf_ok: "jt_ok (complex_leaf f r i)"
proof -
  have "plain_byte (CHR ''+'')" "plain_byte (CHR ''i'')" by (simp_all add: plain_byte_def)
  then show ?thesis unfolding complex_leaf_def
    by (intro plain_leaf_ok) (use fmt_float_plain in auto)
qed

lemma prim_leaf_ok: "jt_ok (prim_leaf v)"
  by (cases v) (simp_all add: leaf_literal str_leaf_ok complex_leaf_ok float_leaf_ok int_leaf_ok)

text \<open>
  The demands on a configuration: each time and duration encoder makes at most one call, the
  layouts it asks for produce text that needs no escaping, and a reflected encoder writes one
  JSON value per call, of which \<open>rv\<close> gives the meaning.
\<close>

definition layout_ok :: "'v env \<Rightarrow> tcall \<Rightarrow> bool" where
  "layout_ok E x =
     (case x of TPrim p \<Rightarrow> True | TLayout t l \<Rightarrow> (\<forall>c \<in> set (TimeFormat E t l). plain_byte c))"

definition values_ok :: "'v env \<Rightarrow> 'v EncoderConfig \<Rightarrow> (bytes \<Rightarrow> jv) \<Rightarrow> bool" where
  "values_ok E c rv \<longleftrightarrow>
     (\<forall>t. length (calls (EncodeTime c) t) \<le> 1 \<and> (\<forall>x \<in> set (calls (EncodeTime c) t). layout_ok E x)) \<and>
     (\<forall>d. length (calls (EncodeDuration c) d) \<le> 1) \<and>
     (\<forall>v w. reflect_encode c v = (w, None) \<longrightarrow> leaf_ok (TrimNewline w) (rv (TrimNewline w)))"

lemma needs_sep_text [simp]:
  "jt_ok t \<Longrightarrow> needs_sep (b @ ttext sp t)"
  by (cases t) (auto simp: leaf_ok_def needs_sep_def sep_byte_def closers_def)

lemma ttext_nonempty: "jt_ok t \<Longrightarrow> ttext sp t \<noteq> []"
  using ttext_front by blast

text \<open>A user-supplied encoder that makes at most one call, and its fallback.\<close>

lemma or_else_emit:
  assumes "length xs \<le> 1"
    and "\<And>x. x \<in> set xs \<Longrightarrow>
      step enc x = enc\<lparr>buf := buf enc @ sep_text enc @ ttext sp (f x)\<rparr> \<and> jt_ok (f x)"
    and "fallback enc = enc\<lparr>buf := buf enc @ sep_text enc @ ttext sp d\<rparr>"
  shows "or_else enc (\<lambda>e. foldl step e xs) fallback
    = enc\<lparr>buf := buf enc @ sep_text enc @ ttext sp (first_or xs f d)\<rparr>"
proof (cases xs)
  case Nil
  then show ?thesis using assms(3) by (simp add: or_else_def first_or_def)
next
  case (Cons x ys)
  then have "ys = []" using assms(1) by simp
  with Cons assms(2) [of x] show ?thesis
    by (simp add: or_else_def first_or_def enc_simps ttext_nonempty)
qed

lemma int64_emit:
  "json_AppendInt64 enc n = enc\<lparr>buf := buf enc @ sep_text enc @ ttext sp (int_leaf (sint n))\<rparr>"
  using json_prim_emit [of enc "PInt64 n"] by simp

lemma string_emit:
  "json_AppendString enc s = enc\<lparr>buf := buf enc @ sep_text enc @ ttext sp (str_leaf s)\<rparr>"
  using json_prim_emit [of enc "PString s"] by simp

lemma run_prims_calls:
  "(case f of None \<Rightarrow> (\<lambda>e. e) | Some g \<Rightarrow> run_prims (g v)) = (\<lambda>e. foldl json_prim e (calls f v))"
  by (cases f) (auto simp: calls_def run_prims_def)

lemma duration_emit:
  assumes "values_ok E (cfg enc) rv"
  shows "AppendDuration enc v
    = enc\<lparr>buf := buf enc @ sep_text enc @ ttext sp (duration_leaf (cfg enc) v)\<rparr>"
  unfolding AppendDuration_def duration_leaf_def run_prims_calls
  by (rule or_else_emit)
    (use assms in \<open>auto simp: values_ok_def prim_leaf_ok int64_emit intro: json_prim_emit\<close>)

lemma tcall_emit:
  "json_tcall E enc x = enc\<lparr>buf := buf enc @ sep_text enc @ ttext sp (tcall_leaf E x)\<rparr>"
  by (cases x)
    (simp_all add: json_prim_emit [of _ _ sp] AppendTimeLayout_def emit_defs plain_leaf_def
      quoted_def)

lemma tcall_leaf_ok: "layout_ok E x \<Longrightarrow> jt_ok (tcall_leaf E x)"
  by (cases x) (simp_all add: prim_leaf_ok layout_ok_def plain_leaf_ok)

lemma values_ok_layout:
  "values_ok E c rv \<Longrightarrow> x \<in> set (calls (EncodeTime c) t) \<Longrightarrow> layout_ok E x"
  unfolding values_ok_def by blast

lemma time_calls:
  "(case f of None \<Rightarrow> (\<lambda>e. e) | Some g \<Rightarrow> (\<lambda>e. foldl (json_tcall E) e (g v)))
    = (\<lambda>e. foldl (json_tcall E) e (calls f v))"
  by (cases f) (auto simp: calls_def)

lemma time_emit:
  assumes "values_ok E (cfg enc) rv"
  shows "json_AppendTime E enc t
    = enc\<lparr>buf := buf enc @ sep_text enc @ ttext sp (time_leaf E (cfg enc) t)\<rparr>"
  unfolding json_AppendTime_def time_leaf_def time_calls
proof (rule or_else_emit)
  show "length (calls (EncodeTime (cfg enc)) t) \<le> 1" using assms by (simp add: values_ok_def)
  show "json_tcall E enc x = enc\<lparr>buf := buf enc @ sep_text enc @ ttext sp (tcall_leaf E x)\<rparr> \<and>
      jt_ok (tcall_leaf E x)" if "x \<in> set (calls (EncodeTime (cfg enc)) t)" for x
    using tcall_emit tcall_leaf_ok [OF values_ok_layout [OF assms that]] by blast
qed (rule int64_emit)

lemma first_or_ok: "(\<And>x. x \<in> set xs \<Longrightarrow> jt_ok (f x)) \<Longrightarrow> jt_ok d \<Longrightarrow> jt_ok (first_or xs f d)"
  by (cases xs) (auto simp: first_or_def)

lemma duration_leaf_ok: "jt_ok (duration_leaf c d)"
  unfolding duration_leaf_def by (rule first_or_ok) (simp_all add: prim_leaf_ok int_leaf_ok)

lemma time_leaf_ok: "values_ok E c rv \<Longrightarrow> jt_ok (time_leaf E c t)"
  unfolding time_leaf_def
  by (rule first_or_ok) (simp_all add: tcall_leaf_ok values_ok_layout int_leaf_ok)

section \<open>Refinement\<close>

text \<open>
  The state after a program that contributed \<open>txt\<close> and opened \<open>n\<close> namespaces.  The reflection
  buffer may hold anything: it is reset before each use.
\<close>

definition emitted ::
  "'v jsonEncoder \<Rightarrow> bytes \<Rightarrow> nat \<Rightarrow> error option \<Rightarrow> ('v jsonEncoder \<times> error option) outcome \<Rightarrow> bool"
where
  "emitted enc txt n err r \<longleftrightarrow>
     (\<exists>rb. r = Ok (enc\<lparr>buf := buf enc @ txt, openNamespaces := openNamespaces enc + n,
                     reflectBuf := rb\<rparr>, err))"

definition refines_obj ::
  "'v jsonEncoder \<Rightarrow> (jitem list \<times> error option) outcome \<Rightarrow> ('v jsonEncoder \<times> error option) outcome \<Rightarrow> bool"
where
  "refines_obj enc d r =
     (case d of
        Panic m \<Rightarrow> r = Panic m
      | Ok (is, err) \<Rightarrow>
          items_ok is \<and>
          emitted enc (items_text (spaced enc) (needs_sep (buf enc)) is) (opens is) err r)"

definition refines_arr ::
  "'v jsonEncoder \<Rightarrow> (jt list \<times> error option) outcome \<Rightarrow> ('v jsonEncoder \<times> error option) outcome \<Rightarrow> bool"
where
  "refines_arr enc d r =
     (case d of
        Panic m \<Rightarrow> r = Panic m
      | Ok (ts, err) \<Rightarrow>
          elems_ok ts \<and> emitted enc (elems_text (spaced enc) (needs_sep (buf enc)) ts) 0 err r)"

lemma json_upd_order [simp]:
  "enc\<lparr>reflectBuf := a, buf := b\<rparr> = enc\<lparr>buf := b, reflectBuf := a\<rparr>"
  "enc\<lparr>reflectBuf := a, openNamespaces := n\<rparr> = enc\<lparr>openNamespaces := n, reflectBuf := a\<rparr>"
  "enc\<lparr>openNamespaces := n, buf := b\<rparr> = enc\<lparr>buf := b, openNamespaces := n\<rparr>"
  by simp_all

lemma emitted_self: "emitted enc [] 0 err (Ok (enc, err))"
  unfolding emitted_def by (intro exI [of _ "reflectBuf enc"]) simp

text \<open>One member, then the rest of the program.\<close>

lemma refines_obj_Mem:
  assumes "jt_ok t"
    and "e = enc\<lparr>buf := buf enc @ sep_text enc @ key_text (spaced enc) k @ ttext (spaced enc) t,
               reflectBuf := rb\<rparr>"
    and "refines_obj e d r"
  shows "refines_obj enc (cons_fst (Mem k t) d) r"
proof (cases d)
  case (Ok x)
  obtain "is" err where x: "x = (is, err)" by (cases x)
  have "needs_sep (buf e)" using assms(1,2) needs_sep_text by (simp flip: append_assoc)
  then show ?thesis
    using assms Ok x
    by (auto simp: refines_obj_def cons_fst_def emitted_def sep_text_def)
qed (use assms in \<open>simp add: refines_obj_def cons_fst_def\<close>)

lemma refines_obj_Opened:
  assumes "e = enc\<lparr>buf := buf enc @ sep_text enc @ key_text (spaced enc) k @ [CHR 0x7B],
               openNamespaces := openNamespaces enc + 1\<rparr>"
    and "refines_obj e d r"
  shows "refines_obj enc (cons_fst (Opened k) d) r"
proof (cases d)
  case (Ok x)
  obtain "is" err where x: "x = (is, err)" by (cases x)
  have "\<not> needs_sep (buf e)" using assms(1) by (simp add: needs_sep_def sep_byte_def)
  then show ?thesis
    using assms Ok x
    by (auto simp: refines_obj_def cons_fst_def emitted_def sep_text_def)
qed (use assms in \<open>simp add: refines_obj_def cons_fst_def\<close>)

lemma refines_arr_Cons:
  assumes "jt_ok t"
    and "e = enc\<lparr>buf := buf enc @ sep_text enc @ ttext (spaced enc) t, reflectBuf := rb\<rparr>"
    and "refines_arr e d r"
  shows "refines_arr enc (cons_fst t d) r"
proof (cases d)
  case (Ok x)
  obtain ts err where x: "x = (ts, err)" by (cases x)
  have "needs_sep (buf e)" using assms(1,2) needs_sep_text by (simp flip: append_assoc)
  then show ?thesis
    using assms Ok x
    by (auto simp: refines_arr_def cons_fst_def emitted_def sep_text_def)
qed (use assms in \<open>simp add: refines_arr_def cons_fst_def\<close>)

lemma append_close_emit:
  "append_close n enc = enc\<lparr>buf := buf enc @ closers n\<rparr>"
  by (induction n arbitrary: enc)
    (simp_all add: closers_def enc_byte_def enc_simps replicate_append_same)

lemma closeOpenNamespaces_emit:
  "closeOpenNamespaces enc = enc\<lparr>buf := buf enc @ closers (openNamespaces enc), openNamespaces := 0\<rparr>"
  by (simp add: closeOpenNamespaces_def append_close_emit)

text \<open>Nested arrays and objects.\<close>

lemma AppendArray_refines:
  assumes "refines_arr (enc_byte (addElementSeparator enc) (CHR 0x5B)) d
             (run (enc_byte (addElementSeparator enc) (CHR 0x5B)))"
  shows "case d of
      Panic m \<Rightarrow> AppendArray run enc = Panic m
    | Ok (ts, err) \<Rightarrow> elems_ok ts \<and>
        (\<exists>rb. AppendArray run enc = Ok (enc\<lparr>buf := buf enc @ sep_text enc @
           ttext (spaced enc) (TArr ts), reflectBuf := rb\<rparr>, err))"
  using assms
  by (auto simp: refines_arr_def emitted_def AppendArray_def emit_defs needs_sep_def sep_byte_def
      split: outcome.splits)

lemma AppendObject_refines:
  assumes "\<And>e. spaced e = spaced enc \<Longrightarrow> cfg e = cfg enc \<Longrightarrow> refines_obj e d (run e)"
  shows "case d of
      Panic m \<Rightarrow> AppendObject run enc = Panic m
    | Ok (is, err) \<Rightarrow> items_ok is \<and>
        (\<exists>rb. AppendObject run enc = Ok (enc\<lparr>buf := buf enc @ sep_text enc @
           ttext (spaced enc) (TObj is), reflectBuf := rb\<rparr>, err))"
proof -
  let ?b = "buf enc @ sep_text enc @ [CHR 0x7B]"
  let ?e = "enc\<lparr>buf := ?b, openNamespaces := 0\<rparr>"
  have e: "enc_byte (addElementSeparator (enc\<lparr>openNamespaces := 0\<rparr>)) (CHR 0x7B) = ?e"
    by (simp add: emit_defs sep_text_def)
  have ns: "\<not> needs_sep ?b" by (simp add: needs_sep_def sep_byte_def)
  have r: "refines_obj ?e d (run ?e)" using assms by simp
  show ?thesis
  proof (cases d)
    case (Panic m)
    then show ?thesis using r by (simp add: refines_obj_def AppendObject_def e)
  next
    case (Ok x)
    obtain "is" err where x: "x = (is, err)" by (cases x)
    have ok: "items_ok is" using r Ok x by (simp add: refines_obj_def)
    obtain rb where "run ?e = Ok (?e\<lparr>buf := ?b @ items_text (spaced enc) False is,
        openNamespaces := opens is, reflectBuf := rb\<rparr>, err)"
      using r ns Ok x by (auto simp: refines_obj_def emitted_def)
    then have "AppendObject run enc = Ok (enc\<lparr>buf := buf enc @ sep_text enc @
        ttext (spaced enc) (TObj is), reflectBuf := rb\<rparr>, err)"
      by (simp only: AppendObject_def e Let_def)
        (cases enc, simp add: closeOpenNamespaces_emit enc_byte_def enc_simps closers_def)
    then show ?thesis using Ok x ok by auto
  qed
qed

lemma encodeReflected_result:
  "\<exists>rb. encodeReflected enc v =
     (enc\<lparr>reflectBuf := rb\<rparr>,
      if is_nil v then Inr ''null''
      else case reflect_encode (cfg enc) v of
             (w, Some err) \<Rightarrow> Inl err
           | (w, None) \<Rightarrow> Inr (TrimNewline w))"
proof (cases "is_nil v")
  case True
  then show ?thesis
    by (intro exI [of _ "reflectBuf enc"]) (simp add: encodeReflected_def)
next
  case False
  obtain w e where "reflect_encode (cfg enc) v = (w, e)" by fastforce
  then show ?thesis using False
    by (auto simp: encodeReflected_def resetReflectBuf_def buf_Reset_def Let_def
        split: option.splits)
qed

lemma reflected_leaf_ok:
  "values_ok E c rv \<Longrightarrow> reflected_leaf c rv v = Inr t \<Longrightarrow> jt_ok t"
  by (auto simp: reflected_leaf_def values_ok_def leaf_literal split: if_splits option.splits prod.splits)

lemma AddReflected_refines:
  "\<exists>rb. AddReflected enc k v =
     (case reflected_leaf (cfg enc) rv v of
        Inl err \<Rightarrow> (enc\<lparr>reflectBuf := rb\<rparr>, Some err)
      | Inr t \<Rightarrow> (enc\<lparr>buf := buf enc @ sep_text enc @ key_text (spaced enc) k @ ttext (spaced enc) t,
                     reflectBuf := rb\<rparr>, None))"
proof -
  obtain rb where "encodeReflected enc v = (enc\<lparr>reflectBuf := rb\<rparr>,
      if is_nil v then Inr ''null''
      else case reflect_encode (cfg enc) v of
             (w, Some err) \<Rightarrow> Inl err
           | (w, None) \<Rightarrow> Inr (TrimNewline w))"
    using encodeReflected_result by blast
  then show ?thesis
    by (intro exI [of _ rb])
      (auto simp: AddReflected_def reflected_leaf_def addKey_emit buf_Write_def sep_text_def
        split: option.splits prod.splits)
qed

lemma AppendReflected_refines:
  "\<exists>rb. AppendReflected enc v =
     (case reflected_leaf (cfg enc) rv v of
        Inl err \<Rightarrow> (enc\<lparr>reflectBuf := rb\<rparr>, Some err)
      | Inr t \<Rightarrow> (enc\<lparr>buf := buf enc @ sep_text enc @ ttext (spaced enc) t,
                     reflectBuf := rb\<rparr>, None))"
proof -
  obtain rb where "encodeReflected enc v = (enc\<lparr>reflectBuf := rb\<rparr>,
      if is_nil v then Inr ''null''
      else case reflect_encode (cfg enc) v of
             (w, Some err) \<Rightarrow> Inl err
           | (w, None) \<Rightarrow> Inr (TrimNewline w))"
    using encodeReflected_result by blast
  then show ?thesis
    by (intro exI [of _ rb])
      (auto simp: AppendReflected_def reflected_leaf_def addElementSeparator_emit buf_Write_def
        sep_text_def split: option.splits prod.splits)
qed

lemma refines_reflectBuf:
  "refines_obj (enc\<lparr>reflectBuf := rb\<rparr>) d r \<Longrightarrow> refines_obj enc d r"
  "refines_arr (enc\<lparr>reflectBuf := rb\<rparr>) d' r \<Longrightarrow> refines_arr enc d' r"
  by (auto simp: refines_obj_def refines_arr_def emitted_def split: outcome.splits)

lemma after_key [simp]:
  "sep_text (enc\<lparr>buf := b @ sep_text e @ key_text sp k\<rparr>) = []"
  by (simp add: sep_text_def)

text \<open>A nested group or a reflected value, then the rest of the program.\<close>

lemma refines_obj_group:
  assumes "case d of
      Panic m \<Rightarrow> r = Panic m
    | Ok (x, err) \<Rightarrow> jt_ok (T x) \<and>
        (\<exists>rb. r = Ok (enc\<lparr>buf := buf enc @ sep_text enc @ key_text (spaced enc) k @
           ttext (spaced enc) (T x), reflectBuf := rb\<rparr>, err))"
    and "\<And>err e. cfg e = cfg enc \<Longrightarrow> refines_obj e (D err) (R err e)"
  shows "refines_obj enc
      (case d of Panic m \<Rightarrow> Panic m | Ok (x, err) \<Rightarrow> cons_fst (Mem k (T x)) (D err)) (and_then r R)"
proof (cases d)
  case (Panic m)
  then show ?thesis using assms(1) by (simp add: refines_obj_def and_then_def)
next
  case (Ok y)
  obtain x err where y: "y = (x, err)" by (cases y)
  with Ok assms(1) obtain rb where r: "jt_ok (T x)" "r = Ok (enc\<lparr>buf := buf enc @ sep_text enc @
      key_text (spaced enc) k @ ttext (spaced enc) (T x), reflectBuf := rb\<rparr>, err)"
    by auto
  have "refines_obj enc (cons_fst (Mem k (T x)) (D err)) (and_then r R)"
    unfolding r(2) and_then_def by (rule refines_obj_Mem [where rb = rb, OF r(1) refl]) (simp add: assms(2))
  then show ?thesis using Ok y by simp
qed

lemma refines_arr_group:
  assumes "case d of
      Panic m \<Rightarrow> r = Panic m
    | Ok (x, err) \<Rightarrow> jt_ok (T x) \<and>
        (\<exists>rb. r = Ok (enc\<lparr>buf := buf enc @ sep_text enc @ ttext (spaced enc) (T x),
           reflectBuf := rb\<rparr>, err))"
    and "\<And>err e. cfg e = cfg enc \<Longrightarrow> refines_arr e (D err) (R err e)"
  shows "refines_arr enc
      (case d of Panic m \<Rightarrow> Panic m | Ok (x, err) \<Rightarrow> cons_fst (T x) (D err)) (and_then r R)"
proof (cases d)
  case (Panic m)
  then show ?thesis using assms(1) by (simp add: refines_arr_def and_then_def)
next
  case (Ok y)
  obtain x err where y: "y = (x, err)" by (cases y)
  with Ok assms(1) obtain rb where r: "jt_ok (T x)"
      "r = Ok (enc\<lparr>buf := buf enc @ sep_text enc @ ttext (spaced enc) (T x), reflectBuf := rb\<rparr>, err)"
    by auto
  have "refines_arr enc (cons_fst (T x) (D err)) (and_then r R)"
    unfolding r(2) and_then_def by (rule refines_arr_Cons [where rb = rb, OF r(1) refl]) (simp add: assms(2))
  then show ?thesis using Ok y by simp
qed

lemma refines_obj_reflected:
  assumes "values_ok E (cfg enc) rv"
    and "\<And>err e. cfg e = cfg enc \<Longrightarrow> refines_obj e (D err) (R err e)"
  shows "refines_obj enc
      (case reflected_leaf (cfg enc) rv v of
         Inl err \<Rightarrow> D (Some err) | Inr t \<Rightarrow> cons_fst (Mem k t) (D None))
      (and_then (Ok (AddReflected enc k v)) R)"
proof -
  obtain rb where A: "AddReflected enc k v =
     (case reflected_leaf (cfg enc) rv v of
        Inl err \<Rightarrow> (enc\<lparr>reflectBuf := rb\<rparr>, Some err)
      | Inr t \<Rightarrow> (enc\<lparr>buf := buf enc @ sep_text enc @ key_text (spaced enc) k @ ttext (spaced enc) t,
                     reflectBuf := rb\<rparr>, None))"
    using AddReflected_refines by blast
  show ?thesis
  proof (cases "reflected_leaf (cfg enc) rv v")
    case (Inl err)
    then show ?thesis
      using A refines_reflectBuf(1) [OF assms(2) [of "enc\<lparr>reflectBuf := rb\<rparr>" "Some err"]]
      by (simp add: and_then_def)
  next
    case (Inr t)
    then show ?thesis using A assms
      by (auto simp: and_then_def reflected_leaf_ok intro!: refines_obj_Mem [where rb = rb])
  qed
qed

lemma refines_arr_reflected:
  assumes "values_ok E (cfg enc) rv"
    and "\<And>err e. cfg e = cfg enc \<Longrightarrow> refines_arr e (D err) (R err e)"
  shows "refines_arr enc
      (case reflected_leaf (cfg enc) rv v of
         Inl err \<Rightarrow> D (Some err) | Inr t \<Rightarrow> cons_fst t (D None))
      (and_then (Ok (AppendReflected enc v)) R)"
proof -
  obtain rb where A: "AppendReflected enc v =
     (case reflected_leaf (cfg enc) rv v of
        Inl err \<Rightarrow> (enc\<lparr>reflectBuf := rb\<rparr>, Some err)
      | Inr t \<Rightarrow> (enc\<lparr>buf := buf enc @ sep_text enc @ ttext (spaced enc) t,
                     reflectBuf := rb\<rparr>, None))"
    using AppendReflected_refines by blast
  show ?thesis
  proof (cases "reflected_leaf (cfg enc) rv v")
    case (Inl err)
    then show ?thesis
      using A refines_reflectBuf(2) [OF assms(2) [of "enc\<lparr>reflectBuf := rb\<rparr>" "Some err"]]
      by (simp add: and_then_def)
  next
    case (Inr t)
    then show ?thesis using A assms
      by (auto simp: and_then_def reflected_leaf_ok intro!: refines_arr_Cons [where rb = rb])
  qed
qed

lemma AddArray_refines:
  assumes "\<And>e. cfg e = cfg enc \<Longrightarrow> refines_arr e d (run e)"
  shows "case d of
      Panic m \<Rightarrow> AddArray k run enc = Panic m
    | Ok (ts, err) \<Rightarrow> jt_ok (TArr ts) \<and>
        (\<exists>rb. AddArray k run enc = Ok (enc\<lparr>buf := buf enc @ sep_text enc @
           key_text (spaced enc) k @ ttext (spaced enc) (TArr ts), reflectBuf := rb\<rparr>, err))"
  using AppendArray_refines [of "addKey enc k" d run] assms
  by (auto simp: AddArray_def addKey_emit emit_defs split: outcome.splits)

lemma AddObject_refines:
  assumes "\<And>e. cfg e = cfg enc \<Longrightarrow> refines_obj e d (run e)"
  shows "case d of
      Panic m \<Rightarrow> AddObject k run enc = Panic m
    | Ok (is, err) \<Rightarrow> jt_ok (TObj is) \<and>
        (\<exists>rb. AddObject k run enc = Ok (enc\<lparr>buf := buf enc @ sep_text enc @
           key_text (spaced enc) k @ ttext (spaced enc) (TObj is), reflectBuf := rb\<rparr>, err))"
  using AppendObject_refines [of "addKey enc k" d run] assms
  by (auto simp: AddObject_def addKey_emit split: outcome.splits)

lemma AppendArray_refines':
  assumes "\<And>e. cfg e = cfg enc \<Longrightarrow> refines_arr e d (run e)"
  shows "case d of
      Panic m \<Rightarrow> AppendArray run enc = Panic m
    | Ok (ts, err) \<Rightarrow> jt_ok (TArr ts) \<and>
        (\<exists>rb. AppendArray run enc = Ok (enc\<lparr>buf := buf enc @ sep_text enc @
           ttext (spaced enc) (TArr ts), reflectBuf := rb\<rparr>, err))"
  using AppendArray_refines [of enc d run] assms
  by (auto simp: emit_defs split: outcome.splits)

lemma AppendObject_refines':
  assumes "\<And>e. cfg e = cfg enc \<Longrightarrow> refines_obj e d (run e)"
  shows "case d of
      Panic m \<Rightarrow> AppendObject run enc = Panic m
    | Ok (is, err) \<Rightarrow> jt_ok (TObj is) \<and>
        (\<exists>rb. AppendObject run enc = Ok (enc\<lparr>buf := buf enc @ sep_text enc @
           ttext (spaced enc) (TObj is), reflectBuf := rb\<rparr>, err))"
  using AppendObject_refines [of enc d run] assms by (auto split: outcome.splits)

lemmas obj_member = refines_obj_Mem [where rb = "reflectBuf enc" and enc = enc for enc]
lemmas arr_member = refines_arr_Cons [where rb = "reflectBuf enc" and enc = enc for enc]

lemma json_refines:
  fixes E :: "'v env"
  assumes ok: "values_ok E c rv"
  shows "cfg enc = c \<Longrightarrow> refines_obj enc (obj_items E c rv p) (json_obj E p enc)"
    and "cfg enc' = c \<Longrightarrow> refines_arr enc' (arr_elems E c rv a) (json_arr E a enc')"
    and "is_nil v \<or> \<not> is_nil (v :: 'v iface)"
proof (induction p and a and v arbitrary: enc and enc')
  case (ORet err)
  then show ?case by (simp add: refines_obj_def emitted_self)
next
  case (OPanic m)
  then show ?case by (simp add: refines_obj_def)
next
  case (OPrim k w p)
  then show ?case by (auto intro!: obj_member
        simp: prim_leaf_ok json_prim_emit [where sp = "spaced enc"] addKey_emit)
next
  case (OBinary k w p)
  then show ?case by (auto intro!: obj_member
        simp: str_leaf_ok AddBinary_def string_emit [where sp = "spaced enc"] addKey_emit)
next
  case (ODuration k w p)
  then show ?case using ok by (auto intro!: obj_member
        simp: duration_leaf_ok duration_emit [where sp = "spaced enc"] addKey_emit)
next
  case (OTime k w p)
  then show ?case using ok by (auto intro!: obj_member
        simp: time_leaf_ok time_emit [where sp = "spaced enc"] addKey_emit)
next
  case (OArray k a g)
  then show ?case
    by (simp, intro refines_obj_group [where T = TArr] AddArray_refines) auto
next
  case (OObject k a g)
  then show ?case
    by (simp, intro refines_obj_group [where T = TObj] AddObject_refines) auto
next
  case (OReflected k v g)
  then show ?case using refines_obj_reflected [of E enc rv "\<lambda>e. obj_items E c rv (g e)"] ok by simp
next
  case (ONamespace k p)
  then show ?case by (auto intro!: refines_obj_Opened
        simp: OpenNamespace_def enc_byte_def enc_simps addKey_emit Let_def)
next
  case (ARet err)
  then show ?case by (simp add: refines_arr_def emitted_self)
next
  case (APanic m)
  then show ?case by (simp add: refines_arr_def)
next
  case (APrim w p)
  then show ?case by (auto intro!: arr_member
        simp: prim_leaf_ok json_prim_emit [where sp = "spaced enc'"])
next
  case (ADuration w p)
  then show ?case using ok by (auto intro!: arr_member
        simp: duration_leaf_ok duration_emit [where sp = "spaced enc'"])
next
  case (ATime w p)
  then show ?case using ok by (auto intro!: arr_member
        simp: time_leaf_ok time_emit [where sp = "spaced enc'"])
next
  case (AArray a g)
  then show ?case
    by (simp, intro refines_arr_group [where T = TArr] AppendArray_refines' ) auto
next
  case (AObject a g)
  then show ?case
    by (simp, intro refines_arr_group [where T = TObj] AppendObject_refines') auto
next
  case (AReflected v g)
  then show ?case using refines_arr_reflected [of E enc' rv "\<lambda>e. arr_elems E c rv (g e)"] ok by simp
qed simp_all

section \<open>Sequences of members\<close>

text \<open>Whether a separator is due after a sequence of items.\<close>

fun sep_after :: "bool \<Rightarrow> jitem list \<Rightarrow> bool" where
  "sep_after b [] = b"
| "sep_after b (Mem k t # is) = sep_after True is"
| "sep_after b (Opened k # is) = sep_after False is"

lemma items_text_append:
  "items_text sp b (xs @ ys) = items_text sp b xs @ items_text sp (sep_after b xs) ys"
  by (induction b xs rule: sep_after.induct) auto

lemma opens_append [simp]: "opens (xs @ ys) = opens xs + opens ys"
  by (induction xs rule: opens.induct) auto

lemma items_ok_append [simp]: "items_ok (xs @ ys) \<longleftrightarrow> items_ok xs \<and> items_ok ys"
  by (induction xs rule: opens.induct) auto

lemma needs_sep_after:
  "items_ok xs \<Longrightarrow> needs_sep (u @ items_text sp b xs) = (if xs = [] then needs_sep u else sep_after b xs)"
proof (induction b xs arbitrary: u rule: sep_after.induct)
  case (2 b k t "is")
  have "needs_sep (u @ (if b then comma sp else []) @ key_text sp k @ ttext sp t)"
    using needs_sep_text [of t "u @ (if b then comma sp else []) @ key_text sp k" sp] 2(2) by simp
  then show ?case
    using 2(1) [of "u @ (if b then comma sp else []) @ key_text sp k @ ttext sp t"] 2(2)
    by (cases "is = []") simp_all
next
  case (3 b k "is")
  have "\<not> needs_sep (u @ (if b then comma sp else []) @ key_text sp k @ [CHR 0x7B])"
    by (simp add: needs_sep_def sep_byte_def)
  then show ?case
    using 3(1) [of "u @ (if b then comma sp else []) @ key_text sp k @ [CHR 0x7B]"] 3(2)
    by (cases "is = []") simp_all
qed simp

lemma sep_after_open: "xs \<noteq> [] \<Longrightarrow> \<not> sep_after b xs \<Longrightarrow> 0 < opens xs"
  by (induction b xs rule: sep_after.induct) (auto, (case_tac "is"; simp)+)

text \<open>An encoder \<open>e\<close> that \<open>enc\<close> became by adding items, \<open>n\<close> of them namespaces it opened.\<close>

definition adds :: "'v jsonEncoder \<Rightarrow> jitem list \<Rightarrow> nat \<Rightarrow> 'v jsonEncoder \<Rightarrow> bool" where
  "adds enc is n e \<longleftrightarrow>
     items_ok is \<and> cfg e = cfg enc \<and> spaced e = spaced enc \<and>
     buf e = buf enc @ items_text (spaced enc) (needs_sep (buf enc)) is \<and>
     openNamespaces e = openNamespaces enc + n"

lemma adds_none: "adds enc [] 0 enc"
  by (simp add: adds_def)

lemma adds_trans:
  assumes "adds enc xs n e" and "adds e ys m e'"
  shows "adds enc (xs @ ys) (n + m) e'"
proof -
  have "needs_sep (buf e) = sep_after (needs_sep (buf enc)) xs"
    using assms(1) needs_sep_after [of xs "buf enc" "spaced enc" "needs_sep (buf enc)"]
    by (auto simp: adds_def)
  then show ?thesis using assms by (auto simp: adds_def items_text_append)
qed

lemma adds_Mem:
  assumes "jt_ok t"
    and "e = enc\<lparr>buf := buf enc @ sep_text enc @ key_text (spaced enc) k @ ttext (spaced enc) t\<rparr>"
  shows "adds enc [Mem k t] 0 e"
  using assms by (simp add: adds_def sep_text_def)

lemma json_addFields_adds:
  assumes "values_ok E (cfg enc) rv" and "obj_items E (cfg enc) rv (addFields fs) = Ok (is, err)"
  obtains e where "json_addFields E fs enc = Ok e" and "adds enc is (opens is) e"
proof -
  have "refines_obj enc (Ok (is, err)) (json_obj E (addFields fs) enc)"
    using json_refines(1) [OF assms(1) refl, of "addFields fs"] assms(2) by simp
  then obtain rb where "items_ok is" "json_obj E (addFields fs) enc = Ok (enc\<lparr>buf := buf enc @
      items_text (spaced enc) (needs_sep (buf enc)) is,
      openNamespaces := openNamespaces enc + opens is, reflectBuf := rb\<rparr>, err)"
    by (auto simp: refines_obj_def emitted_def)
  then show ?thesis using that by (simp add: json_addFields_def adds_def)
qed

section \<open>The metadata of an entry\<close>

definition level_items :: "'v EncoderConfig \<Rightarrow> Entry \<Rightarrow> jitem list" where
  "level_items c ent =
     (if LevelKey c \<noteq> [] \<and> EncodeLevel c \<noteq> None then
        [Mem (LevelKey c) (first_or (calls (EncodeLevel c) (ent_Level ent)) prim_leaf
           (str_leaf (Level_String (ent_Level ent))))]
      else [])"

definition time_items :: "'v env \<Rightarrow> 'v EncoderConfig \<Rightarrow> Entry \<Rightarrow> jitem list" where
  "time_items E c ent =
     (if TimeKey c \<noteq> [] \<and> \<not> IsZero (ent_Time ent)
      then [Mem (TimeKey c) (time_leaf E c (ent_Time ent))] else [])"

definition name_items :: "'v EncoderConfig \<Rightarrow> Entry \<Rightarrow> jitem list" where
  "name_items c ent =
     (if ent_LoggerName ent \<noteq> [] \<and> NameKey c \<noteq> [] then
        [Mem (NameKey c) (first_or (nameEncoder c (ent_LoggerName ent)) prim_leaf
           (str_leaf (ent_LoggerName ent)))]
      else [])"

definition caller_items :: "'v EncoderConfig \<Rightarrow> Entry \<Rightarrow> jitem list" where
  "caller_items c ent =
     (if Defined (ent_Caller ent) then
        (if CallerKey c \<noteq> [] then
           [Mem (CallerKey c) (first_or (calls (EncodeCaller c) (ent_Caller ent)) prim_leaf
              (str_leaf (EntryCaller_String (ent_Caller ent))))]
         else []) @
        (if FunctionKey c \<noteq> []
         then [Mem (FunctionKey c) (str_leaf (Function (ent_Caller ent)))] else [])
      else [])"

definition message_items :: "'v EncoderConfig \<Rightarrow> Entry \<Rightarrow> jitem list" where
  "message_items c ent =
     (if MessageKey c \<noteq> [] then [Mem (MessageKey c) (str_leaf (ent_Message ent))] else [])"

definition stack_items :: "'v EncoderConfig \<Rightarrow> Entry \<Rightarrow> jitem list" where
  "stack_items c ent =
     (if ent_Stack ent \<noteq> [] \<and> StacktraceKey c \<noteq> []
      then [Mem (StacktraceKey c) (str_leaf (ent_Stack ent))] else [])"

definition meta_items :: "'v env \<Rightarrow> 'v EncoderConfig \<Rightarrow> Entry \<Rightarrow> jitem list" where
  "meta_items E c ent =
     level_items c ent @ time_items E c ent @ name_items c ent @ caller_items c ent @
     message_items c ent"

text \<open>The further demands on a configuration: no primitive encoder makes more than one call.\<close>

definition entry_ok :: "'v env \<Rightarrow> 'v EncoderConfig \<Rightarrow> (bytes \<Rightarrow> jv) \<Rightarrow> bool" where
  "entry_ok E c rv \<longleftrightarrow>
     values_ok E c rv \<and>
     (\<forall>l. length (calls (EncodeLevel c) l) \<le> 1) \<and>
     (\<forall>n. length (nameEncoder c n) \<le> 1) \<and>
     (\<forall>x. length (calls (EncodeCaller c) x) \<le> 1)"

lemma user_member:
  assumes "length xs \<le> 1"
  shows "adds enc [Mem k (first_or xs prim_leaf (str_leaf s))] 0
    (or_else (addKey enc k) (run_prims xs) (\<lambda>e. json_AppendString e s))"
proof (rule adds_Mem)
  show "jt_ok (first_or xs prim_leaf (str_leaf s))"
    by (rule first_or_ok) (simp_all add: prim_leaf_ok str_leaf_ok)
  have "or_else (addKey enc k) (\<lambda>e. foldl json_prim e xs) (\<lambda>e. json_AppendString e s) =
      (addKey enc k)\<lparr>buf := buf (addKey enc k) @ sep_text (addKey enc k) @
        ttext (spaced enc) (first_or xs prim_leaf (str_leaf s))\<rparr>"
    by (rule or_else_emit) (use assms in \<open>simp_all add: prim_leaf_ok json_prim_emit [where sp = "spaced enc"]
        string_emit [where sp = "spaced enc"]\<close>)
  then show "or_else (addKey enc k) (run_prims xs) (\<lambda>e. json_AppendString e s) =
      enc\<lparr>buf := buf enc @ sep_text enc @ key_text (spaced enc) k @
        ttext (spaced enc) (first_or xs prim_leaf (str_leaf s))\<rparr>"
    by (simp add: run_prims_def [abs_def] addKey_emit)
qed

lemma string_member: "adds enc [Mem k (str_leaf s)] 0 (json_AppendString (addKey enc k) s)"
  by (rule adds_Mem) (simp_all add: str_leaf_ok string_emit [where sp = "spaced enc"] addKey_emit)

lemma add_level_adds: "entry_ok E (cfg enc) rv \<Longrightarrow> adds enc (level_items (cfg enc) ent) 0 (add_level ent enc)"
  by (cases "EncodeLevel (cfg enc)")
    (simp_all add: entry_ok_def level_items_def add_level_def adds_none user_member calls_def)

lemma add_time_adds: "entry_ok E (cfg enc) rv \<Longrightarrow> adds enc (time_items E (cfg enc) ent) 0 (add_time E ent enc)"
  by (auto simp: entry_ok_def time_items_def add_time_def adds_none time_leaf_ok
      time_emit [where sp = "spaced enc"] addKey_emit intro!: adds_Mem)

lemma add_name_adds: "entry_ok E (cfg enc) rv \<Longrightarrow> adds enc (name_items (cfg enc) ent) 0 (add_name ent enc)"
  by (auto simp: entry_ok_def name_items_def add_name_def adds_none user_member)

lemma add_message_adds: "adds enc (message_items (cfg enc) ent) 0 (add_message ent enc)"
  by (simp add: message_items_def add_message_def adds_none string_member)

lemma add_stack_adds: "adds enc (stack_items (cfg enc) ent) 0 (add_stack ent enc)"
  by (simp add: stack_items_def add_stack_def adds_none string_member)

lemma adds_cfg: "adds enc is n e \<Longrightarrow> cfg e = cfg enc"
  by (simp add: adds_def)

text \<open>The caller encoder is there when it is needed.\<close>

definition caller_set :: "'v EncoderConfig \<Rightarrow> Entry \<Rightarrow> bool" where
  "caller_set c ent \<longleftrightarrow> (Defined (ent_Caller ent) \<and> CallerKey c \<noteq> [] \<longrightarrow> EncodeCaller c \<noteq> None)"

lemma add_caller_adds:
  assumes "entry_ok E (cfg enc) rv" and "caller_set (cfg enc) ent"
  obtains e where "add_caller ent enc = Ok e" and "adds enc (caller_items (cfg enc) ent) 0 e"
proof (cases "Defined (ent_Caller ent)")
  case True
  let ?c = "cfg enc" and ?x = "ent_Caller ent"
  let ?is = "if CallerKey ?c \<noteq> [] then [Mem (CallerKey ?c) (first_or (calls (EncodeCaller ?c) ?x)
      prim_leaf (str_leaf (EntryCaller_String ?x)))] else []"
  obtain e where e: "(if CallerKey ?c \<noteq> [] then
        (case EncodeCaller ?c of
           None \<Rightarrow> Panic nil_call
         | Some f \<Rightarrow> Ok (or_else (addKey enc (CallerKey ?c)) (run_prims (f ?x))
             (\<lambda>e. json_AppendString e (EntryCaller_String ?x))))
      else Ok enc) = Ok e" "adds enc ?is 0 e"
  proof (cases "CallerKey ?c = []")
    case False
    with assms(2) True obtain f where f: "EncodeCaller ?c = Some f" by (auto simp: caller_set_def)
    have "length (f ?x) \<le> 1" using assms(1) f by (auto simp: entry_ok_def calls_def)
    from user_member [OF this, of enc "CallerKey ?c" "EntryCaller_String ?x"]
    show ?thesis using that False f by (simp add: calls_def)
  qed (use that adds_none in auto)
  let ?e' = "if FunctionKey (cfg e) \<noteq> []
    then json_AppendString (addKey e (FunctionKey (cfg e))) (Function ?x) else e"
  have "adds e (if FunctionKey ?c \<noteq> [] then [Mem (FunctionKey ?c) (str_leaf (Function ?x))] else []) 0 ?e'"
    using adds_cfg [OF e(2)] by (simp add: string_member adds_none)
  from adds_trans [OF e(2) this] have "adds enc (caller_items ?c ent) 0 ?e'"
    using True by (simp add: caller_items_def)
  moreover have "add_caller ent enc = Ok ?e'" using True e(1) by (simp add: add_caller_def)
  ultimately show ?thesis using that by blast
next
  case False
  then show ?thesis
    by (intro that [of enc]) (simp_all add: add_caller_def caller_items_def adds_none)
qed

section \<open>Encoded entries\<close>

lemma items_text_comma: "is \<noteq> [] \<Longrightarrow> items_text sp True is = comma sp @ items_text sp False is"
  by (cases "(sp, True, is)" rule: items_text.cases) auto

lemma items_text_empty: "items_text sp False is = [] \<longleftrightarrow> is = []"
  by (cases "(sp, False, is)" rule: items_text.cases) (auto simp: key_text_def)

lemma add_context_adds:
  assumes "buf enc = items_text (spaced final) False is" and "items_ok is"
  shows "adds final is 0 (add_context enc final)"
proof (cases "is = []")
  case True
  then show ?thesis using assms by (simp add: add_context_def enc_simps adds_none)
next
  case False
  then have "0 < buf_Len (buf enc)" using assms(1) by (simp add: enc_simps items_text_empty)
  then show ?thesis
    using assms False
    by (simp add: add_context_def addElementSeparator_emit buf_Write_def adds_def sep_text_def
        items_text_comma)
qed

text \<open>The text of an entry: metadata, context and fields, then the stack outside every namespace.\<close>

definition entry_text ::
  "'v env \<Rightarrow> 'v jsonEncoder \<Rightarrow> Entry \<Rightarrow> jitem list \<Rightarrow> jitem list \<Rightarrow> bytes" where
  "entry_text E enc ent ctx is =
     closed_text (spaced enc) (meta_items E (cfg enc) ent @ ctx @ is) (stack_items (cfg enc) ent)
     @ LineEnding (cfg enc)"

lemma closed_needs_sep:
  assumes "items_ok xs"
  shows "needs_sep (CHR 0x7B # items_text sp False xs @ closers (opens xs)) = (xs \<noteq> [])"
proof (cases "opens xs")
  case 0
  have "needs_sep ([CHR 0x7B] @ items_text sp False xs)
      = (if xs = [] then needs_sep [CHR 0x7B] else sep_after False xs)"
    by (rule needs_sep_after [OF assms])
  moreover have "\<not> needs_sep [CHR 0x7B]" by (simp add: needs_sep_def sep_byte_def)
  ultimately show ?thesis using 0 sep_after_open [of xs False] by (auto simp: closers_0)
next
  case (Suc n)
  then have "xs \<noteq> []" by auto
  then show ?thesis using Suc by (simp add: needs_sep_def sep_byte_def closers_def)
qed

text \<open>The part of \<open>EncodeEntry\<close> before the context.\<close>

lemma metadata_adds:
  assumes ok: "entry_ok E (cfg f) rv" and "caller_set (cfg f) ent"
  obtains e1 where
    "add_caller ent (add_name ent (add_time E ent (add_level ent f))) = Ok e1"
    "adds f (meta_items E (cfg f) ent) 0 (add_message ent e1)"
proof -
  let ?l = "add_level ent f"
  let ?t = "add_time E ent ?l"
  let ?n = "add_name ent ?t"
  have a1: "adds f (level_items (cfg f) ent) 0 ?l"
    using add_level_adds [OF ok] .
  have a2: "adds ?l (time_items E (cfg f) ent) 0 ?t"
    using add_time_adds [of E ?l] ok adds_cfg [OF a1] by simp
  note a12 = adds_trans [OF a1 a2]
  have a3: "adds ?t (name_items (cfg f) ent) 0 ?n"
    using add_name_adds [of E ?t] ok adds_cfg [OF a12] by simp
  note a123 = adds_trans [OF a12 a3]
  obtain e1 where e1: "add_caller ent ?n = Ok e1" "adds ?n (caller_items (cfg f) ent) 0 e1"
    using add_caller_adds [of E ?n rv ent] ok assms(2) adds_cfg [OF a123] by auto
  note a4 = adds_trans [OF a123 e1(2)]
  have "adds e1 (message_items (cfg f) ent) 0 (add_message ent e1)"
    using add_message_adds [of e1 ent] adds_cfg [OF a4] by simp
  from adds_trans [OF a4 this] show ?thesis
    using that e1(1) by (simp add: meta_items_def)
qed

lemma meta_no_opens: "opens (meta_items E c ent) = 0" "opens (stack_items c ent) = 0"
  by (simp_all add: meta_items_def level_items_def time_items_def name_items_def
      caller_items_def message_items_def stack_items_def)

lemma json_EncodeEntry_text:
  assumes ok: "entry_ok E (cfg enc) rv" and "caller_set (cfg enc) ent"
    and ctx: "buf enc = items_text (spaced enc) False ctx" "items_ok ctx"
      "openNamespaces enc = opens ctx"
    and fs: "obj_items E (cfg enc) rv (addFields fs) = Ok (is, err)"
  shows "json_EncodeEntry E enc ent fs = Ok (entry_text E enc ent ctx is)"
    and "items_ok (meta_items E (cfg enc) ent @ ctx @ is)"
proof -
  let ?f = "enc_byte (json_clone enc) (CHR 0x7B)" and ?c = "cfg enc"
  let ?all = "meta_items E ?c ent @ ctx @ is"
  have f: "cfg ?f = ?c" "spaced ?f = spaced enc" "buf ?f = [CHR 0x7B]" "openNamespaces ?f = opens ctx"
    using ctx(3) by (simp_all add: json_clone_def enc_byte_def enc_simps)
  obtain e1 where e1: "add_caller ent (add_name ent (add_time E ent (add_level ent ?f))) = Ok e1"
      "adds ?f (meta_items E ?c ent) 0 (add_message ent e1)"
    using metadata_adds [of E ?f rv ent] ok assms(2) f by auto
  have "spaced (add_message ent e1) = spaced enc" using e1(2) f by (simp add: adds_def)
  then have "adds (add_message ent e1) ctx 0 (add_context enc (add_message ent e1))"
    by (intro add_context_adds) (use ctx in simp_all)
  note mc = adds_trans [OF e1(2) this]
  obtain e2 where e2: "json_addFields E fs (add_context enc (add_message ent e1)) = Ok e2"
      "adds (add_context enc (add_message ent e1)) is (opens is) e2"
    using json_addFields_adds [of E "add_context enc (add_message ent e1)" rv fs "is" err]
      ok fs adds_cfg [OF mc] f by (auto simp: entry_ok_def)
  have e2': "cfg e2 = ?c" "spaced e2 = spaced enc" "openNamespaces e2 = opens ?all"
      "buf e2 = CHR 0x7B # items_text (spaced enc) False ?all"
    and all_ok: "items_ok ?all"
    using adds_trans [OF mc e2(2)] f by (auto simp: adds_def needs_sep_def sep_byte_def meta_no_opens)
  let ?g = "closeOpenNamespaces e2"
  have g: "cfg ?g = ?c" "spaced ?g = spaced enc"
      "buf ?g = CHR 0x7B # items_text (spaced enc) False ?all @ closers (opens ?all)"
    using e2' by (simp_all add: closeOpenNamespaces_emit)
  have st: "adds ?g (stack_items ?c ent) 0 (add_stack ent ?g)"
    using add_stack_adds [of ?g ent] g by simp
  then have "buf (add_stack ent ?g) = CHR 0x7B # items_text (spaced enc) False ?all @
      closers (opens ?all) @ items_text (spaced enc) (?all \<noteq> []) (stack_items ?c ent)"
    using closed_needs_sep [OF all_ok, of "spaced enc"] g by (simp add: adds_def)
  then show "json_EncodeEntry E enc ent fs = Ok (entry_text E enc ent ctx is)"
    using e1(1) e2(1) adds_cfg [OF st] g(1)
    by (simp add: json_EncodeEntry_def entry_text_def closed_text_def enc_byte_def enc_simps
        closers_0 meta_no_opens Let_def)
  show "items_ok ?all" by (rule all_ok)
qed

text \<open>An encoder that was made for a configuration and then got the fields of a context.\<close>

lemma context_encoder:
  assumes "values_ok E (cfg (newJSONEncoder E c sp)) rv"
    and "obj_items E (cfg (newJSONEncoder E c sp)) rv (addFields fs) = Ok (ctx, err)"
  obtains enc where "json_addFields E fs (newJSONEncoder E c sp) = Ok enc"
    "cfg enc = cfg (newJSONEncoder E c sp)" "spaced enc = sp"
    "buf enc = items_text sp False ctx" "openNamespaces enc = opens ctx" "items_ok ctx"
proof -
  have n: "buf (newJSONEncoder E c sp) = []" "openNamespaces (newJSONEncoder E c sp) = 0"
      "spaced (newJSONEncoder E c sp) = sp"
    by (simp_all add: newJSONEncoder_def Let_def)
  from assms obtain enc where "json_addFields E fs (newJSONEncoder E c sp) = Ok enc"
      "adds (newJSONEncoder E c sp) ctx (opens ctx) enc"
    by (rule json_addFields_adds)
  then show ?thesis using that n by (simp add: adds_def needs_sep_def)
qed

lemma stack_items_ok: "items_ok (stack_items c ent)"
  by (simp add: stack_items_def str_leaf_ok)

text \<open>An encoder with the fields of a context encodes every entry as one JSON object.\<close>

lemma json_context_encodes:
  assumes "c' = cfg (NewJSONEncoder E c)" and "entry_ok E c' rv"
    and "obj_items E c' rv (addFields ctx_fs) = Ok (ctx, err)"
  obtains enc where "json_addFields E ctx_fs (NewJSONEncoder E c) = Ok enc"
    and "\<And>ent fs is err'. caller_set c' ent \<Longrightarrow> \<forall>x \<in> set (LineEnding c'). is_ws x \<Longrightarrow>
      obj_items E c' rv (addFields fs) = Ok (is, err') \<Longrightarrow>
      \<exists>out. json_EncodeEntry E enc ent fs = Ok out \<and> json_parse out =
        Some (JObj (mems (meta_items E c' ent @ ctx @ is) @ mems (stack_items c' ent)))"
proof -
  have v: "values_ok E (cfg (newJSONEncoder E c False)) rv"
    using assms(1,2) by (simp add: NewJSONEncoder_def entry_ok_def)
  have o: "obj_items E (cfg (newJSONEncoder E c False)) rv (addFields ctx_fs) = Ok (ctx, err)"
    using assms(1,3) by (simp add: NewJSONEncoder_def)
  obtain enc where enc: "json_addFields E ctx_fs (NewJSONEncoder E c) = Ok enc" "cfg enc = c'"
      "spaced enc = False" "buf enc = items_text False False ctx" "openNamespaces enc = opens ctx"
      "items_ok ctx"
    using context_encoder [OF v o] assms(1) unfolding NewJSONEncoder_def by metis
  show ?thesis
  proof (rule that [OF enc(1)])
    fix ent fs "is" err'
    assume a: "caller_set c' ent" "\<forall>x \<in> set (LineEnding c'). is_ws x"
      "obj_items E c' rv (addFields fs) = Ok (is, err')"
    have out: "json_EncodeEntry E enc ent fs = Ok (entry_text E enc ent ctx is)"
        and ok: "items_ok (meta_items E c' ent @ ctx @ is)"
      using json_EncodeEntry_text [of E enc rv ent ctx fs "is" err'] assms a enc by simp_all
    have "json_parse (entry_text E enc ent ctx is) =
        Some (JObj (mems (meta_items E c' ent @ ctx @ is) @ mems (stack_items c' ent)))"
      using closed_text_parses [OF ok stack_items_ok] a(2) enc(2) by (simp add: entry_text_def)
    then show "\<exists>out. json_EncodeEntry E enc ent fs = Ok out \<and> json_parse out =
        Some (JObj (mems (meta_items E c' ent @ ctx @ is) @ mems (stack_items c' ent)))"
      using out by blast
  qed
qed

text \<open>
  C2: the JSON encoder writes valid JSON.  Take an encoder made by \<open>NewJSONEncoder\<close> to which the
  context fields \<open>ctx_fs\<close> were added.  If the configured primitive encoders make at most one call
  and no marshaler panics, then \<open>EncodeEntry\<close> returns, and a JSON reader takes its output for one
  object: the metadata of the entry, the members of the context, the members of the fields, all
  inside the namespaces that are open at their place, and last, outside every namespace, the
  stack trace.
\<close>

theorem json_EncodeEntry_parses:
  assumes "c' = cfg (NewJSONEncoder E c)" and "entry_ok E c' rv" and "caller_set c' ent"
    and "\<forall>x \<in> set (LineEnding c'). is_ws x"
    and "obj_items E c' rv (addFields ctx_fs) = Ok (ctx, err)"
    and "obj_items E c' rv (addFields fs) = Ok (is, err')"
  shows "\<exists>enc out. json_addFields E ctx_fs (NewJSONEncoder E c) = Ok enc \<and>
    json_EncodeEntry E enc ent fs = Ok out \<and>
    json_parse out =
      Some (JObj (mems (meta_items E c' ent @ ctx @ is) @ mems (stack_items c' ent)))"
  using json_context_encodes [OF assms(1,2,5)] assms(3,4,6) by metis

text \<open>A configuration, an environment and an entry to instantiate the theorem with.\<close>

definition sample_config :: "nat EncoderConfig" where
  "sample_config = \<lparr>MessageKey = ''msg'', LevelKey = ''level'', TimeKey = ''ts'', NameKey = ''logger'',
     CallerKey = ''caller'', FunctionKey = [], StacktraceKey = ''stack'', SkipLineEnding = False,
     LineEnding = [], EncodeLevel = Some LowercaseLevelEncoder, EncodeTime = Some ISO8601TimeEncoder,
     EncodeDuration = Some NanosDurationEncoder, EncodeCaller = Some ShortCallerEncoder,
     EncodeName = None, NewReflectedEncoder = None, ConsoleSeparator = []\<rparr>"

definition sample_entry :: Entry where
  "sample_entry = \<lparr>ent_Level = InfoLevel, ent_Time = Instant 1 UTC, ent_LoggerName = [],
     ent_Message = ''hi'' @ [CHR 0x22], ent_Caller = zeroCaller, ent_Stack = ''main''\<rparr>"

definition sample_rv :: "bytes \<Rightarrow> jv" where "sample_rv s = JNum s"

lemma sample_cfg: "cfg (NewJSONEncoder sample_env sample_config)
  = sample_config\<lparr>LineEnding := [CHR 0x0A], NewReflectedEncoder := Some (JSONEncode sample_env)\<rparr>"
  by (simp add: NewJSONEncoder_def newJSONEncoder_def sample_config_def DefaultLineEnding_def Let_def)

lemma sample_ok: "entry_ok sample_env (cfg (NewJSONEncoder sample_env sample_config)) sample_rv"
proof -
  have "json_decimal ''42''"
    unfolding json_decimal_def
    by (rule exI [of _ "''42''"], rule exI [of _ "''0''"]) (simp add: is_digit_def)
  then have "leaf_ok ''42'' (JNum ''42'')" using leaf_number [of "''42''" "[]"] by simp
  moreover have "TrimNewline (''42'' @ [CHR 0x0A]) = ''42''" by (rule TrimNewline_newline)
  ultimately show ?thesis unfolding sample_cfg
    by (auto simp: entry_ok_def values_ok_def sample_config_def sample_env_def sample_rv_def
        calls_def nameEncoder_def LowercaseLevelEncoder_def ISO8601TimeEncoder_def
        encodeTimeLayout_def NanosDurationEncoder_def ShortCallerEncoder_def FullNameEncoder_def
        reflect_encode_def layout_ok_def plain_byte_def)
qed

theorem json_EncodeEntry_parses_witness:
  "\<exists>enc out. json_addFields sample_env [Namespace ''ns'', String ''a'' ''b'']
      (NewJSONEncoder sample_env sample_config) = Ok enc \<and>
    json_EncodeEntry sample_env enc sample_entry [Int64 ''n'' 3, Reflect ''r'' INil] = Ok out \<and>
    json_parse out = Some (JObj
      [(''level'', JStr ''info''), (''ts'', JStr ''2024-01-02''), (''msg'', JStr (''hi'' @ [CHR 0x22])),
       (''ns'', JObj [(''a'', JStr ''b''), (''n'', JNum ''3''), (''r'', JNull)]),
       (''stack'', JStr ''main'')])"
proof -
  let ?c = "cfg (NewJSONEncoder sample_env sample_config)"
  let ?ctx = "[Opened ''ns'', Mem ''a'' (str_leaf ''b'')]"
  let ?is = "[Mem ''n'' (int_leaf 3), Mem ''r'' (Leaf ''null'' JNull)]"
  have ctx: "obj_items sample_env ?c sample_rv (addFields [Namespace ''ns'', String ''a'' ''b''])
      = Ok (?ctx, None)"
    by (simp add: addto_defs field_defs cons_fst_def)
  have "is": "obj_items sample_env ?c sample_rv (addFields [Int64 ''n'' 3, Reflect ''r'' INil])
      = Ok (?is, None)"
    by (simp add: addto_defs field_defs cons_fst_def reflected_leaf_def is_nil_def)
  have lv: "Level_String InfoLevel = ''info''" by code_simp
  have d3: "dec_int 3 = ''3''" by code_simp
  have v: "mems (meta_items sample_env ?c sample_entry @ ?ctx @ ?is) @
      mems (stack_items ?c sample_entry) =
      [(''level'', JStr ''info''), (''ts'', JStr ''2024-01-02''), (''msg'', JStr (''hi'' @ [CHR 0x22])),
       (''ns'', JObj [(''a'', JStr ''b''), (''n'', JNum ''3''), (''r'', JNull)]),
       (''stack'', JStr ''main'')]"
    unfolding sample_cfg
    by (simp add: meta_items_def level_items_def time_items_def name_items_def caller_items_def
        message_items_def stack_items_def sample_entry_def sample_config_def sample_env_def
        zeroCaller_def IsZero_def first_or_def calls_def LowercaseLevelEncoder_def time_leaf_def
        ISO8601TimeEncoder_def encodeTimeLayout_def str_leaf_def plain_leaf_def int_leaf_def
        lv d3 to_valid_ascii)
  have "caller_set ?c sample_entry"
    by (simp add: caller_set_def sample_entry_def zeroCaller_def)
  moreover have "\<forall>x \<in> set (LineEnding ?c). is_ws x"
    unfolding sample_cfg by (simp add: is_ws_def)
  ultimately show ?thesis
    using json_EncodeEntry_parses [OF refl sample_ok _ _ ctx "is", of sample_entry] v by simp
qed

text \<open>
  A binary field survives the JSON encoder: behind its key stands a JSON string, and the
  characters a reader gets from it decode, in the standard base64 alphabet, to exactly the
  bytes of the field.
\<close>

lemma Binary_roundtrip:
  "\<exists>b. json_obj E (AddTo (Binary k v)) enc =
      Ok (enc\<lparr>buf := buf enc @ sep_text enc @ key_text (spaced enc) k @ [CHR 0x22] @ b @ [CHR 0x22]\<rparr>,
          None) \<and>
     (\<exists>s. jstring (b @ CHR 0x22 # rest) = Some (s, rest) \<and> DecodeString s = Some v)"
  by (intro exI [of _ "esc (EncodeToString v)"])
    (simp add: addto_defs field_defs AddBinary_def string_emit [where sp = "spaced enc"]
      addKey_emit str_leaf_def quoted_def jstring_esc to_valid_ascii EncodeToString_ascii
      DecodeString_EncodeToString)

end
