(* ===== verification/Lad_WriteSyncer.thy ===== *)
theory Lad_WriteSyncer
  imports Lad_Encoder
begin

text \<open>
  Write syncers (\<open>ladcore/write_syncer.go\<close>).  A destination outside the library is a
  \<open>sink\<close>: its answers to \<open>Write\<close> and \<open>Sync\<close> are functions of the calls it has seen, and the
  model records these calls and the bytes it took.  The wrappers of the library are the data
  type \<open>ws\<close>.
\<close>

section \<open>Destinations\<close>

record sink =
  s_calls :: "bytes list"
  s_data :: bytes
  s_syncs :: nat
  s_write :: "bytes list \<Rightarrow> bytes \<Rightarrow> nat \<times> error option"
  s_sync :: "bytes list \<Rightarrow> nat \<Rightarrow> error option"

definition sink_Write :: "bytes \<Rightarrow> sink \<Rightarrow> (nat \<times> error option) \<times> sink" where
  "sink_Write p s =
     (let (n, err) = s_write s (s_calls s) p
      in ((n, err), s\<lparr>s_calls := s_calls s @ [p], s_data := s_data s @ take n p\<rparr>))"

definition sink_Sync :: "sink \<Rightarrow> error option \<times> sink" where
  "sink_Sync s = (s_sync s (s_calls s) (s_syncs s), s\<lparr>s_syncs := s_syncs s + 1\<rparr>)"

text \<open>A destination that takes every write in full.\<close>

definition good_sink :: "sink \<Rightarrow> bool" where
  "good_sink s \<longleftrightarrow> (\<forall>h p. s_write s h p = (length p, None))"

record ios =
  sinks :: "nat \<Rightarrow> sink"

section \<open>Wrappers\<close>

datatype ws =
    Sink nat
  | writerWrapper nat
  | lockedWriteSyncer ws
  | multiWriteSyncer "ws list"

text \<open>An \<open>io.Writer\<close> that may or may not have a \<open>Sync\<close> method.\<close>

datatype io_writer = HasSync ws | NoSync nat

definition AddSync :: "io_writer \<Rightarrow> ws" where
  "AddSync w = (case w of HasSync s \<Rightarrow> s | NoSync i \<Rightarrow> writerWrapper i)"

definition Lock :: "ws \<Rightarrow> ws" where
  "Lock w = (case w of lockedWriteSyncer _ \<Rightarrow> w | _ \<Rightarrow> lockedWriteSyncer w)"

definition NewMultiWriteSyncer :: "ws list \<Rightarrow> ws" where
  "NewMultiWriteSyncer ws = (case ws of [w] \<Rightarrow> w | _ \<Rightarrow> multiWriteSyncer ws)"

definition on_sink ::
  "nat \<Rightarrow> (sink \<Rightarrow> 'a \<times> sink) \<Rightarrow> 'z ios_scheme \<Rightarrow> 'a \<times> 'z ios_scheme" where
  "on_sink i f st = (case f (sinks st i) of (r, s) \<Rightarrow> (r, st\<lparr>sinks := (sinks st)(i := s)\<rparr>))"

text \<open>The body of the loop of \<open>multiWriteSyncer.Write\<close>.\<close>

definition multi_count :: "nat \<Rightarrow> nat \<Rightarrow> nat" where
  "multi_count nWritten n =
     (if nWritten = 0 \<and> n \<noteq> 0 then n else if n < nWritten then n else nWritten)"

fun ws_Write ::
  "'v env \<Rightarrow> ws \<Rightarrow> bytes \<Rightarrow> 'z ios_scheme \<Rightarrow> (nat \<times> error option) \<times> 'z ios_scheme"
  and wss_Write ::
  "'v env \<Rightarrow> ws list \<Rightarrow> nat \<Rightarrow> error option \<Rightarrow> bytes \<Rightarrow> 'z ios_scheme \<Rightarrow>
   (nat \<times> error option) \<times> 'z ios_scheme"
where
  "ws_Write E (Sink i) p st = on_sink i (sink_Write p) st"
| "ws_Write E (writerWrapper i) p st = on_sink i (sink_Write p) st"
| "ws_Write E (lockedWriteSyncer w) p st = ws_Write E w p st"
| "ws_Write E (multiWriteSyncer ws) p st = wss_Write E ws 0 None p st"
| "wss_Write E [] nWritten writeErr p st = ((nWritten, writeErr), st)"
| "wss_Write E (w # ws) nWritten writeErr p st =
     (case ws_Write E w p st of
        ((n, err), st') \<Rightarrow>
          wss_Write E ws (multi_count nWritten n) (multierr_Append E writeErr err) p st')"

fun ws_Sync :: "'v env \<Rightarrow> ws \<Rightarrow> 'z ios_scheme \<Rightarrow> error option \<times> 'z ios_scheme"
  and wss_Sync ::
  "'v env \<Rightarrow> ws list \<Rightarrow> error option \<Rightarrow> 'z ios_scheme \<Rightarrow> error option \<times> 'z ios_scheme"
where
  "ws_Sync E (Sink i) st = on_sink i sink_Sync st"
| "ws_Sync E (writerWrapper i) st = (None, st)"
| "ws_Sync E (lockedWriteSyncer w) st = ws_Sync E w st"
| "ws_Sync E (multiWriteSyncer ws) st = wss_Sync E ws None st"
| "wss_Sync E [] err st = (err, st)"
| "wss_Sync E (w # ws) err st =
     (case ws_Sync E w st of (e, st') \<Rightarrow> wss_Sync E ws (multierr_Append E err e) st')"

section \<open>What a write reaches\<close>

text \<open>The sinks behind a write syncer, in the order in which a write reaches them.\<close>

fun ws_sinks :: "ws \<Rightarrow> nat list" where
  "ws_sinks (Sink i) = [i]"
| "ws_sinks (writerWrapper i) = [i]"
| "ws_sinks (lockedWriteSyncer w) = ws_sinks w"
| "ws_sinks (multiWriteSyncer ws) = concat (map ws_sinks ws)"

text \<open>A write changes nothing but sinks, and of these only their histories.\<close>

definition deliver :: "bytes \<Rightarrow> nat \<Rightarrow> 'z ios_scheme \<Rightarrow> 'z ios_scheme" where
  "deliver p i st = snd (on_sink i (sink_Write p) st)"

lemma ws_Write_deliver:
  shows "snd (ws_Write E w p st) = fold (deliver p) (ws_sinks w) st"
    and "snd (wss_Write E ws n err p st) = fold (deliver p) (concat (map ws_sinks ws)) st"
proof (induction E w p st and E ws n err p st rule: ws_Write_wss_Write.induct)
  case (6 E w ws n err p st)
  obtain m e st' where w: "ws_Write E w p st = ((m, e), st')" by (metis prod.exhaust)
  then show ?case using 6(1) 6(2) [of "(m, e)" st' m e] by simp
qed (simp_all add: deliver_def)

lemma deliver_calls:
  "s_calls (sinks (deliver p i st) j) = s_calls (sinks st j) @ (if i = j then [p] else [])"
  by (simp add: deliver_def on_sink_def sink_Write_def split: prod.splits)

lemma fold_deliver_calls:
  "s_calls (sinks (fold (deliver p) is st) j) = s_calls (sinks st j) @ replicate (count_list is j) p"
  by (induction "is" arbitrary: st) (auto simp: deliver_calls)

text \<open>The answers that the writers of a \<open>multiWriteSyncer\<close> give one after the other.\<close>

primrec wss_results ::
  "'v env \<Rightarrow> ws list \<Rightarrow> bytes \<Rightarrow> 'z ios_scheme \<Rightarrow> (nat \<times> error option) list" where
  "wss_results E [] p st = []"
| "wss_results E (w # ws) p st =
     (case ws_Write E w p st of (r, st') \<Rightarrow> r # wss_results E ws p st')"

lemma wss_Write_results:
  "fst (wss_Write E ws n err p st) =
     (foldl multi_count n (map fst (wss_results E ws p st)),
      foldl (multierr_Append E) err (map snd (wss_results E ws p st)))"
  by (induction ws arbitrary: n err st) (auto split: prod.splits)

lemma foldl_multi_count:
  "0 \<notin> set ns \<Longrightarrow> 0 < n \<Longrightarrow> foldl multi_count n ns = Min (insert n (set ns))"
proof (induction ns arbitrary: n)
  case (Cons m ns)
  then have "multi_count n m = min n m" "0 < min n m" by (auto simp: multi_count_def)
  then have "foldl multi_count n (m # ns) = Min (insert (min n m) (set ns))"
    using Cons by simp
  also have "\<dots> = Min (insert n (set (m # ns)))"
    by (cases "set ns = {}") (simp_all add: Min_insert min.assoc)
  finally show ?case .
qed simp

lemma foldl_multierr:
  "multierr_ok E \<Longrightarrow> foldl (multierr_Append E) e es = None \<longleftrightarrow> e = None \<and> (\<forall>x \<in> set es. x = None)"
  by (induction es arbitrary: e) (auto simp: multierr_simps)

section \<open>Contracts\<close>

text \<open>
  What the library asks of a write syncer (the documentation of \<open>io.Writer\<close>): a write reports
  at most the bytes it was given, and reports fewer only together with an error.
\<close>

locale io_writer_contract =
  fixes wr :: "bytes \<Rightarrow> 's \<Rightarrow> (nat \<times> error option) \<times> 's"
    and wok :: "'s \<Rightarrow> bool"
  assumes write_ok: "wok s \<Longrightarrow> wok (snd (wr p s))"
    and write_bound: "wok s \<Longrightarrow> wr p s = ((n, err), s') \<Longrightarrow> n \<le> length p"
    and write_short: "wok s \<Longrightarrow> wr p s = ((n, None), s') \<Longrightarrow> n = length p"
begin

text \<open>A write that reports no error took the whole slice.\<close>

lemma success_is_full: "wok s \<Longrightarrow> snd (fst (wr p s)) = None \<Longrightarrow> fst (fst (wr p s)) = length p"
  using write_short by (metis prod.collapse)

end

text \<open>Sinks that keep the contract, and write syncers without an empty group.\<close>

definition sink_ok :: "sink \<Rightarrow> bool" where
  "sink_ok s \<longleftrightarrow> (\<forall>h p. fst (s_write s h p) \<le> length p \<and>
     (snd (s_write s h p) = None \<longrightarrow> fst (s_write s h p) = length p))"

definition sinks_ok :: "'z ios_scheme \<Rightarrow> bool" where
  "sinks_ok st \<longleftrightarrow> (\<forall>i. sink_ok (sinks st i))"

fun ws_wf :: "ws \<Rightarrow> bool" where
  "ws_wf (Sink i) = True"
| "ws_wf (writerWrapper i) = True"
| "ws_wf (lockedWriteSyncer w) = ws_wf w"
| "ws_wf (multiWriteSyncer ws) = (ws \<noteq> [] \<and> list_all ws_wf ws)"

lemma deliver_ok: "sinks_ok st \<Longrightarrow> sinks_ok (deliver p i st)"
  by (auto simp: sinks_ok_def sink_ok_def deliver_def on_sink_def sink_Write_def split: prod.splits)

lemma fold_deliver_ok: "sinks_ok st \<Longrightarrow> sinks_ok (fold (deliver p) is st)"
  by (induction "is" arbitrary: st) (auto simp: deliver_ok)

lemma sink_Write_contract:
  "sinks_ok st \<Longrightarrow> fst (fst (on_sink i (sink_Write p) st)) \<le> length p \<and>
     (snd (fst (on_sink i (sink_Write p) st)) = None \<longrightarrow>
       fst (fst (on_sink i (sink_Write p) st)) = length p)"
  by (auto simp: sinks_ok_def sink_ok_def on_sink_def sink_Write_def split_def Let_def)

lemma foldl_count_bound:
  "\<forall>m \<in> set ns. m \<le> L \<Longrightarrow> n \<le> (L :: nat) \<Longrightarrow> foldl multi_count n ns \<le> L"
  by (induction ns arbitrary: n) (auto simp: multi_count_def)

lemma foldl_count_const: "\<forall>m \<in> set ns. m = L \<Longrightarrow> n = L \<or> n = 0 \<and> ns \<noteq> [] \<Longrightarrow> foldl multi_count n ns = L"
  by (induction ns arbitrary: n) (auto simp: multi_count_def)

text \<open>The wrappers keep the contract of the sinks behind them.\<close>

lemma ws_contract:
  fixes st :: "'z ios_scheme"
  shows "multierr_ok E \<Longrightarrow> ws_wf w \<Longrightarrow> sinks_ok st \<Longrightarrow>
   fst (fst (ws_Write E w p st)) \<le> length p \<and>
   (snd (fst (ws_Write E w p st)) = None \<longrightarrow> fst (fst (ws_Write E w p st)) = length p)"
proof (induction w arbitrary: st)
  case (multiWriteSyncer ws)
  let ?P = "\<lambda>(n, err). n \<le> length p \<and> (err = None \<longrightarrow> n = length p)"
  have all: "\<forall>r \<in> set (wss_results E ws' p st'). ?P r"
    if "set ws' \<subseteq> set ws" "sinks_ok st'" for ws' and st' :: "'z ios_scheme"
    using that
  proof (induction ws' arbitrary: st')
    case (Cons w ws')
    have wf: "ws_wf w" using multiWriteSyncer.prems(2) Cons.prems(1) by (auto simp: list_all_iff)
    obtain n err st'' where w: "ws_Write E w p st' = ((n, err), st'')" by (metis prod.exhaust)
    have "sinks_ok st''"
      using fold_deliver_ok [OF Cons.prems(2)] ws_Write_deliver(1) [of E w p st'] w by simp
    then show ?case
      using multiWriteSyncer.IH [of w st'] multiWriteSyncer.prems(1) Cons wf w by auto
  qed simp
  have ne: "ws \<noteq> []" using multiWriteSyncer.prems(2) by simp
  then have ne': "wss_results E ws p st \<noteq> []" by (cases ws) (auto split: prod.splits)
  have r: "\<forall>r \<in> set (wss_results E ws p st). ?P r" using all multiWriteSyncer.prems(3) by blast
  have bound: "foldl multi_count 0 (map fst (wss_results E ws p st)) \<le> length p"
    by (rule foldl_count_bound) (use r in auto)
  have full: "foldl multi_count 0 (map fst (wss_results E ws p st)) = length p"
    if "\<forall>x \<in> set (map snd (wss_results E ws p st)). x = None"
    by (rule foldl_count_const) (use r that ne' in \<open>fastforce+\<close>)
  show ?case
    using bound full foldl_multierr [OF multiWriteSyncer.prems(1)]
    by (simp add: wss_Write_results)
qed (simp_all add: sink_Write_contract)

interpretation sink_writer: io_writer_contract "\<lambda>p. on_sink i (sink_Write p)" sinks_ok
  for i
  by unfold_locales
    (simp add: deliver_ok flip: deliver_def, (metis sink_Write_contract fst_conv snd_conv)+)

lemma ws_writer: "multierr_ok E \<Longrightarrow> ws_wf w \<Longrightarrow> io_writer_contract (ws_Write E w) sinks_ok"
  by unfold_locales
    (simp add: ws_Write_deliver fold_deliver_ok, (metis ws_contract fst_conv snd_conv)+)

text \<open>A write that reports no error appended the slice to every destination.\<close>

lemma deliver_data: "sinks_ok st \<Longrightarrow> \<exists>k. s_data (sinks (deliver p i st) j) = s_data (sinks st j) @ (if i = j then take k p else [])"
  by (auto simp: deliver_def on_sink_def sink_Write_def split_def Let_def)

lemma fold_deliver_data:
  "sinks_ok st \<Longrightarrow> \<exists>ks. length ks = count_list is j \<and>
     s_data (sinks (fold (deliver p) is st) j) = s_data (sinks st j) @ concat (map (\<lambda>k. take k p) ks)"
proof (induction "is" arbitrary: st)
  case (Cons i "is")
  obtain ks where ks: "length ks = count_list is j"
      "s_data (sinks (fold (deliver p) is (deliver p i st)) j) =
       s_data (sinks (deliver p i st) j) @ concat (map (\<lambda>k. take k p) ks)"
    using Cons.IH [OF deliver_ok [OF Cons.prems]] by blast
  obtain k where "s_data (sinks (deliver p i st) j) = s_data (sinks st j) @ (if i = j then take k p else [])"
    using deliver_data [OF Cons.prems] by blast
  then show ?case using ks by (intro exI [of _ "if i = j then k # ks else ks"]) auto
qed simp

lemma sink_Write_success_data:
  "sinks_ok st \<Longrightarrow> snd (fst (on_sink i (sink_Write p) st)) = None \<Longrightarrow>
   s_data (sinks (snd (on_sink i (sink_Write p) st)) j) = s_data (sinks st j) @ (if i = j then p else [])"
  by (auto simp: sinks_ok_def sink_ok_def on_sink_def sink_Write_def split_def Let_def)

lemma ws_Write_success_data:
  assumes "multierr_ok E"
  shows "sinks_ok st \<Longrightarrow> snd (fst (ws_Write E w p st)) = None \<Longrightarrow>
      s_data (sinks (snd (ws_Write E w p st)) j) =
      s_data (sinks st j) @ concat (replicate (count_list (ws_sinks w) j) p)"
    and "sinks_ok st \<Longrightarrow> snd (fst (wss_Write E ws n err p st)) = None \<Longrightarrow>
      s_data (sinks (snd (wss_Write E ws n err p st)) j) =
      s_data (sinks st j) @ concat (replicate (count_list (concat (map ws_sinks ws)) j) p)"
  using assms
proof (induction E w p st and E ws n err p st rule: ws_Write_wss_Write.induct)
  case (6 E w ws n err p st)
  obtain m e st' where w: "ws_Write E w p st = ((m, e), st')" by (metis prod.exhaust)
  have ok: "sinks_ok st'" using fold_deliver_ok [OF 6(3)] ws_Write_deliver(1) [of E w p st] w by simp
  have r: "snd (fst (wss_Write E ws (multi_count n m) (multierr_Append E err e) p st')) = None"
    using 6(4) w by simp
  then have "e = None" using wss_Write_results [of E ws "multi_count n m" "multierr_Append E err e" p st']
    by (simp add: foldl_multierr [OF 6(5)] multierr_simps [OF 6(5)])
  then show ?case
    using 6(1) [OF 6(3) _ 6(5)] 6(2) [OF w [symmetric] refl ok r 6(5)] w
    by (simp add: replicate_add)
qed (simp_all add: sink_Write_success_data)

text \<open>A \<open>Sync\<close> writes nothing.\<close>

lemma ws_Sync_frame:
  "s_calls (sinks (snd (ws_Sync E w st)) i) = s_calls (sinks st i) \<and>
   s_data (sinks (snd (ws_Sync E w st)) i) = s_data (sinks st i) \<and>
   s_write (sinks (snd (ws_Sync E w st)) i) = s_write (sinks st i)"
  "s_calls (sinks (snd (wss_Sync E ws err st)) i) = s_calls (sinks st i) \<and>
   s_data (sinks (snd (wss_Sync E ws err st)) i) = s_data (sinks st i) \<and>
   s_write (sinks (snd (wss_Sync E ws err st)) i) = s_write (sinks st i)"
  by (induction E w st and E ws err st rule: ws_Sync_wss_Sync.induct)
    (auto simp: on_sink_def sink_Sync_def split: prod.splits)

section \<open>Properties\<close>

text \<open>
  A write to any composition of wrappers reaches every sink behind it with the whole slice,
  once for each time the sink occurs, and no other sink, whatever the sinks before it answered.
\<close>

lemma ws_Write_fanout:
  "s_calls (sinks (snd (ws_Write E w p st)) i) =
     s_calls (sinks st i) @ replicate (count_list (ws_sinks w) i) p"
  by (simp add: ws_Write_deliver fold_deliver_calls)


definition answering :: "(nat \<times> error option) list \<Rightarrow> ios" where
  "answering rs = \<lparr>sinks = (\<lambda>i. \<lparr>s_calls = [], s_data = [], s_syncs = 0,
     s_write = (\<lambda>h p. rs ! i), s_sync = (\<lambda>h n. None)\<rparr>)\<rparr>"


text \<open>Destinations that take everything.\<close>

definition sample_ios :: ios where
  "sample_ios = \<lparr>sinks = (\<lambda>i. \<lparr>s_calls = [], s_data = [], s_syncs = 0,
     s_write = (\<lambda>h p. (length p, None)), s_sync = (\<lambda>h n. None)\<rparr>)\<rparr>"

lemma sample_ios_ok: "sinks_ok sample_ios"
  by (simp add: sinks_ok_def sink_ok_def sample_ios_def)

end
