(* ===== verification/Lad_Buffered.thy ===== *)
theory Lad_Buffered
  imports Lad_WriteSyncer "HOL-Library.Sublist"
begin

text \<open>
  The buffered write syncer (\<open>ladcore/buffered_write_syncer.go\<close>): the \<open>bufio.Writer\<close> it keeps,
  its operations, and the interleavings of its callers with the goroutine \<open>flushLoop\<close>.  The
  loop of \<open>bufio.Writer.Write\<close> need not end for an arbitrary writer, so it is a partial function
  whose value \<open>None\<close> means that the call does not return.
\<close>

section \<open>The buffered writer of the standard library\<close>

text \<open>
  The slice \<open>buf[0:n]\<close> is the list \<open>bw_buf\<close>, and \<open>len(buf)\<close> is \<open>bw_size\<close>.  The writer behind it
  is a function \<open>wr\<close> on a state of its own.
\<close>

record bufio_Writer =
  bw_err :: "error option"
  bw_buf :: bytes
  bw_size :: nat

definition ErrShortWrite :: error where
  "ErrShortWrite = errors_new ''short write''"

definition bufio_NewWriterSize :: "int \<Rightarrow> bufio_Writer" where
  "bufio_NewWriterSize sz =
     \<lparr>bw_err = None, bw_buf = [], bw_size = (if sz \<le> 0 then 4096 else nat sz)\<rparr>"

definition bufio_Available :: "bufio_Writer \<Rightarrow> nat" where
  "bufio_Available b = bw_size b - length (bw_buf b)"

definition bufio_Buffered :: "bufio_Writer \<Rightarrow> nat" where
  "bufio_Buffered b = length (bw_buf b)"

type_synonym 's wr = "bytes \<Rightarrow> 's \<Rightarrow> (nat \<times> error option) \<times> 's"

definition bufio_Flush :: "'s wr \<Rightarrow> bufio_Writer \<Rightarrow> 's \<Rightarrow> error option \<times> bufio_Writer \<times> 's" where
  "bufio_Flush wr b s =
     (if bw_err b \<noteq> None then (bw_err b, b, s)
      else if bw_buf b = [] then (None, b, s)
      else case wr (bw_buf b) s of
        ((n, err), s') \<Rightarrow>
          let err = (if n < length (bw_buf b) \<and> err = None then Some ErrShortWrite else err)
          in if err \<noteq> None then (err, b\<lparr>bw_buf := drop n (bw_buf b), bw_err := err\<rparr>, s')
             else (None, b\<lparr>bw_buf := []\<rparr>, s'))"

partial_function (option) bufio_loop ::
  "'s wr \<Rightarrow> bufio_Writer \<Rightarrow> bytes \<Rightarrow> nat \<Rightarrow> 's \<Rightarrow> (bufio_Writer \<times> bytes \<times> nat \<times> 's) option" where
  [code]: "bufio_loop wr b p nn s =
     (if bufio_Available b < length p \<and> bw_err b = None then
        if bufio_Buffered b = 0 then
          case wr p s of
            ((n, err), s') \<Rightarrow> bufio_loop wr (b\<lparr>bw_err := err\<rparr>) (drop n p) (nn + n) s'
        else
          let n = min (bufio_Available b) (length p) in
          case bufio_Flush wr (b\<lparr>bw_buf := bw_buf b @ take n p\<rparr>) s of
            (_, b', s') \<Rightarrow> bufio_loop wr b' (drop n p) (nn + n) s'
      else Some (b, p, nn, s))"

definition bufio_Write ::
  "'s wr \<Rightarrow> bufio_Writer \<Rightarrow> bytes \<Rightarrow> 's \<Rightarrow> ((nat \<times> error option) \<times> bufio_Writer \<times> 's) option" where
  "bufio_Write wr b p s =
     (case bufio_loop wr b p 0 s of
        None \<Rightarrow> None
      | Some (b', p', nn, s') \<Rightarrow>
          if bw_err b' \<noteq> None then Some ((nn, bw_err b'), b', s')
          else let n = min (bufio_Available b') (length p') in
            Some ((nn + n, None), b'\<lparr>bw_buf := bw_buf b' @ take n p'\<rparr>, s'))"

section \<open>The operations\<close>

text \<open>
  The channels \<open>stop\<close> and \<open>done\<close> are the flags that tell whether they are closed.  \<open>ticker\<close> is the
  interval of the running ticker.
\<close>

record BufferedWriteSyncer =
  WS :: ws
  Size :: int
  FlushInterval :: int
  initialized :: bool
  stopped :: bool
  bwriter :: bufio_Writer
  ticker :: "int option"
  stop_closed :: bool
  done_closed :: bool

definition defaultBufferSize :: int where
  "defaultBufferSize = 256 * 1024"

definition defaultFlushInterval :: int where
  "defaultFlushInterval = 30 * 1000000000"

definition bws_initialize :: "BufferedWriteSyncer \<Rightarrow> BufferedWriteSyncer" where
  "bws_initialize s =
     (let sz = (if Size s = 0 then defaultBufferSize else Size s);
          flushInterval = (if FlushInterval s = 0 then defaultFlushInterval else FlushInterval s)
      in s\<lparr>ticker := Some flushInterval, bwriter := bufio_NewWriterSize sz,
           stop_closed := False, done_closed := False, initialized := True\<rparr>)"

definition bws_Write ::
  "'v env \<Rightarrow> BufferedWriteSyncer \<Rightarrow> bytes \<Rightarrow> 'z ios_scheme \<Rightarrow>
   ((nat \<times> error option) \<times> BufferedWriteSyncer \<times> 'z ios_scheme) option" where
  "bws_Write E s bs st =
     (let s = (if \<not> initialized s then bws_initialize s else s);
          wr = ws_Write E (WS s);
          put = (\<lambda>(r, b, st'). (r, s\<lparr>bwriter := b\<rparr>, st'))
      in if bufio_Available (bwriter s) < length bs \<and> 0 < bufio_Buffered (bwriter s) then
           case bufio_Flush wr (bwriter s) st of
             (err, b, st') \<Rightarrow>
               if err \<noteq> None then Some ((0, err), s\<lparr>bwriter := b\<rparr>, st')
               else map_option put (bufio_Write wr b bs st')
         else map_option put (bufio_Write wr (bwriter s) bs st))"

definition bws_Sync ::
  "'v env \<Rightarrow> BufferedWriteSyncer \<Rightarrow> 'z ios_scheme \<Rightarrow>
   error option \<times> BufferedWriteSyncer \<times> 'z ios_scheme" where
  "bws_Sync E s st =
     (let (err, b, st') = (if initialized s then bufio_Flush (ws_Write E (WS s)) (bwriter s) st
                           else (None, bwriter s, st))
      in case ws_Sync E (WS s) st' of
           (e, st'') \<Rightarrow> (multierr_Append E err e, s\<lparr>bwriter := b\<rparr>, st''))"

text \<open>The critical section of \<open>Stop\<close>; the result tells whether this call stops the loop.\<close>

definition bws_Stop_critical :: "BufferedWriteSyncer \<Rightarrow> bool \<times> BufferedWriteSyncer" where
  "bws_Stop_critical s =
     (if \<not> initialized s then (False, s)
      else if stopped s then (False, s)
      else (True, s\<lparr>stopped := True, ticker := None, stop_closed := True\<rparr>))"

section \<open>The buffer and its writer\<close>

text \<open>
  A write syncer as the buffer sees it: a writer that keeps the contract of \<open>io.Writer\<close>, a
  \<open>Sync\<close>, and, for one destination behind it, the writes it saw and the bytes it took.
\<close>

locale write_syncer = io_writer_contract wr wok
  for wr :: "bytes \<Rightarrow> 's \<Rightarrow> (nat \<times> error option) \<times> 's" and wok :: "'s \<Rightarrow> bool" +
  fixes sy :: "'s \<Rightarrow> error option \<times> 's"
    and calls :: "'s \<Rightarrow> bytes list"
    and dat :: "'s \<Rightarrow> bytes"
  assumes sync_ok: "wok s \<Longrightarrow> wok (snd (sy s))"
    and sync_calls: "calls (snd (sy s)) = calls s"
    and sync_dat: "dat (snd (sy s)) = dat s"
    and write_calls: "calls (snd (wr p s)) = calls s @ [p]"
    and write_dat: "wok s \<Longrightarrow> \<exists>k. dat (snd (wr p s)) = dat s @ take k p"
    and write_dat_full: "wok s \<Longrightarrow> snd (fst (wr p s)) = None \<Longrightarrow> dat (snd (wr p s)) = dat s @ p"

text \<open>
  The state of the buffer against the messages written so far.  While no write has failed, the
  destination has seen the messages in order, each write it saw being a number of whole messages,
  and the rest is in the buffer.  After a failed write it has a prefix of the messages.
\<close>

definition buffer_inv ::
  "bytes list \<Rightarrow> bytes \<Rightarrow> bytes list \<Rightarrow> bufio_Writer \<Rightarrow> bytes list \<Rightarrow> bytes \<Rightarrow> bool" where
  "buffer_inv c0 d0 msgs b cs d \<longleftrightarrow>
     length (bw_buf b) \<le> bw_size b \<and> 0 < bw_size b \<and>
     (if bw_err b = None
      then \<exists>gs pend. msgs = concat gs @ pend \<and> bw_buf b = concat pend \<and>
             cs = c0 @ map concat gs \<and> d = d0 @ concat (concat gs)
      else \<exists>pre. d = d0 @ pre \<and> prefix pre (concat msgs))"

lemma buffer_inv_new:
  "0 < bw_size b \<Longrightarrow> bw_err b = None \<Longrightarrow> bw_buf b = [] \<Longrightarrow> buffer_inv c d [] b c d"
  by (auto simp: buffer_inv_def intro!: exI [of _ "[]"])

lemma buffer_inv_good:
  "length (bw_buf b) \<le> bw_size b \<Longrightarrow> 0 < bw_size b \<Longrightarrow> bw_err b = None \<Longrightarrow>
   msgs = concat gs @ pend \<Longrightarrow> bw_buf b = concat pend \<Longrightarrow> cs = c0 @ map concat gs \<Longrightarrow>
   d = d0 @ concat (concat gs) \<Longrightarrow> buffer_inv c0 d0 msgs b cs d"
  by (auto simp: buffer_inv_def)

lemma buffer_inv_bad:
  "length (bw_buf b) \<le> bw_size b \<Longrightarrow> 0 < bw_size b \<Longrightarrow> bw_err b \<noteq> None \<Longrightarrow>
   d = d0 @ pre \<Longrightarrow> prefix pre (concat msgs) \<Longrightarrow> buffer_inv c0 d0 msgs b cs d"
  by (auto simp: buffer_inv_def)

lemma buffer_inv_room: "buffer_inv c0 d0 msgs b cs d \<Longrightarrow> length (bw_buf b) \<le> bw_size b \<and> 0 < bw_size b"
  by (auto simp: buffer_inv_def)

lemma buffer_inv_flushed:
  "buffer_inv c0 d0 msgs b cs d \<Longrightarrow> bw_err b = None \<Longrightarrow> bw_buf b = [] \<Longrightarrow> d = d0 @ concat msgs"
  unfolding buffer_inv_def by (metis append_Nil2 concat_append)

context write_syncer
begin

text \<open>Without a stored error and with something in the buffer, a flush is one write of it.\<close>

lemma flush_step:
  assumes "wok s" and "bw_err b = None" and "bw_buf b \<noteq> []" and "bufio_Flush wr b s = (e, b', s')"
  shows "s' = snd (wr (bw_buf b) s) \<and> e = snd (fst (wr (bw_buf b) s)) \<and> bw_err b' = e \<and>
    bw_size b' = bw_size b \<and> length (bw_buf b') \<le> length (bw_buf b) \<and> (e = None \<longrightarrow> bw_buf b' = [])"
proof -
  obtain n err s1 where w: "wr (bw_buf b) s = ((n, err), s1)" by (metis prod.exhaust)
  have "err = None \<Longrightarrow> n = length (bw_buf b)" using write_short [OF assms(1)] w by blast
  then show ?thesis using assms w by (auto simp: bufio_Flush_def Let_def split: if_splits)
qed

lemma flush_inv:
  assumes "wok s" and "buffer_inv c0 d0 msgs b (calls s) (dat s)" and "bufio_Flush wr b s = (e, b', s')"
  shows "wok s' \<and> buffer_inv c0 d0 msgs b' (calls s') (dat s') \<and> bw_size b' = bw_size b \<and>
    bw_err b' = e \<and> (e = None \<longrightarrow> bw_buf b' = [])"
proof (cases "bw_err b = None \<and> bw_buf b \<noteq> []")
  case True
  note f = flush_step [OF assms(1) _ _ assms(3)]
  obtain gs pend where m: "msgs = concat gs @ pend" "bw_buf b = concat pend"
      "calls s = c0 @ map concat gs" "dat s = d0 @ concat (concat gs)"
    using assms(2) True by (auto simp: buffer_inv_def)
  obtain k where k: "dat s' = dat s @ take k (bw_buf b)" using write_dat [OF assms(1), of "bw_buf b"] f True by auto
  have "buffer_inv c0 d0 msgs b' (calls s') (dat s')"
  proof (cases "e = None")
    case None: True
    then have "dat s' = dat s @ bw_buf b" "calls s' = calls s @ [bw_buf b]"
      using write_dat_full [OF assms(1)] write_calls f True by auto
    then show ?thesis using None f True buffer_inv_room [OF assms(2)] m
      by (intro buffer_inv_good [where gs = "gs @ [pend]" and pend = "[]"]) auto
  next
    case False
    have "prefix (concat (concat gs) @ take k (concat pend)) (concat msgs)"
      by (simp add: m(1) take_is_prefix)
    then show ?thesis using False f True buffer_inv_room [OF assms(2)] m k
      by (intro buffer_inv_bad [where pre = "concat (concat gs) @ take k (concat pend)"]) auto
  qed
  then show ?thesis using f True write_ok [OF assms(1)] by auto
next
  case False
  then show ?thesis using assms by (auto simp: bufio_Flush_def split: if_splits)
qed

text \<open>A message that fits, or that meets an empty buffer, is taken whole.\<close>

lemma write_inv:
  assumes "wok s" and "buffer_inv c0 d0 msgs b (calls s) (dat s)"
    and "bw_buf b = [] \<or> length p \<le> bufio_Available b"
  shows "\<exists>r b' s'. bufio_Write wr b p s = Some (r, b', s') \<and> wok s' \<and>
    buffer_inv c0 d0 (msgs @ [p]) b' (calls s') (dat s') \<and> bw_size b' = bw_size b \<and>
    snd r = bw_err b' \<and> (snd r = None \<longrightarrow> fst r = length p)"
proof (cases "bw_err b = None")
  case True
  obtain gs pend where m: "msgs = concat gs @ pend" "bw_buf b = concat pend"
      "calls s = c0 @ map concat gs" "dat s = d0 @ concat (concat gs)"
    using assms(2) True by (auto simp: buffer_inv_def)
  show ?thesis
  proof (cases "length p \<le> bufio_Available b")
    case fits: True
    then have "bufio_loop wr b p 0 s = Some (b, p, 0, s)" by (subst bufio_loop.simps) simp
    then show ?thesis using fits True assms m
      by (auto simp: bufio_Write_def buffer_inv_def bufio_Available_def intro!: exI [of _ gs])
  next
    case False
    then have e: "bw_buf b = []" using assms(3) by simp
    obtain n err s' where w: "wr p s = ((n, err), s')" by (metis prod.exhaust)
    have n: "err = None \<Longrightarrow> n = length p" using write_short [OF assms(1)] w by blast
    obtain k where k: "dat s' = dat s @ take k p" using write_dat [OF assms(1), of p] w by auto
    have c: "calls s' = calls s @ [p]" "err = None \<Longrightarrow> dat s' = dat s @ p"
      using write_calls [of p s] write_dat_full [OF assms(1), of p] w by auto
    have "bufio_loop wr b p 0 s = bufio_loop wr (b\<lparr>bw_err := err\<rparr>) (drop n p) n s'"
      using False True e w by (subst bufio_loop.simps) (simp add: bufio_Buffered_def)
    also have "\<dots> = Some (b\<lparr>bw_err := err\<rparr>, drop n p, n, s')"
      using n by (subst bufio_loop.simps) auto
    finally have l: "bufio_loop wr b p 0 s = Some (b\<lparr>bw_err := err\<rparr>, drop n p, n, s')" .
    have "buffer_inv c0 d0 (msgs @ [p]) (b\<lparr>bw_err := err\<rparr>) (calls s') (dat s')"
    proof (cases "err = None")
      case True
      then show ?thesis using e m c buffer_inv_room [OF assms(2)]
        by (intro buffer_inv_good [where gs = "gs @ [pend @ [p]]" and pend = "[]"]) auto
    next
      case False
      have "prefix (concat (concat gs) @ take k p) (concat (msgs @ [p]))"
        using e by (simp add: m(1) take_is_prefix flip: m(2))
      then show ?thesis using False k m buffer_inv_room [OF assms(2)]
        by (intro buffer_inv_bad [where pre = "concat (concat gs) @ take k p"]) auto
    qed
    then show ?thesis using l n w write_ok [OF assms(1), of p]
      by (auto simp: bufio_Write_def)
  qed
next
  case False
  then have "bufio_loop wr b p 0 s = Some (b, p, 0, s)" by (subst bufio_loop.simps) auto
  then show ?thesis using False assms
    by (auto simp: bufio_Write_def buffer_inv_def intro: prefix_prefix)
qed

end

interpretation sink_syncer: write_syncer "\<lambda>p. on_sink i (sink_Write p)" sinks_ok
  "on_sink i sink_Sync" "\<lambda>st. s_calls (sinks st i)" "\<lambda>st. s_data (sinks st i)"
  for i
proof unfold_locales
  show "\<exists>k. s_data (sinks (snd (on_sink i (sink_Write p) s)) i) = s_data (sinks s i) @ take k p"
    if "sinks_ok s" for p and s :: "'a ios_scheme"
    using deliver_data [OF that, of p i i] by (simp add: deliver_def)
qed (auto simp: sinks_ok_def sink_ok_def on_sink_def sink_Write_def sink_Sync_def split_def Let_def)

text \<open>Every composition of wrappers around a sink that occurs in it once is such a syncer.\<close>

lemma ws_Write_data_prefix:
  assumes "count_list (ws_sinks w) i = 1" and "sinks_ok st"
  shows "\<exists>k. s_data (sinks (snd (ws_Write E w p st)) i) = s_data (sinks st i) @ take k p"
  using fold_deliver_data [OF assms(2), of "ws_sinks w" i p] assms(1)
  by (auto simp: ws_Write_deliver length_Suc_conv)

lemma ws_Sync_ok: "sinks_ok st \<Longrightarrow> sinks_ok (snd (ws_Sync E w st))"
  by (simp add: sinks_ok_def sink_ok_def ws_Sync_frame)

lemma ws_syncer:
  assumes "multierr_ok E" and "ws_wf w" and "count_list (ws_sinks w) i = 1"
  shows "write_syncer (ws_Write E w) sinks_ok (ws_Sync E w)
    (\<lambda>st. s_calls (sinks st i)) (\<lambda>st. s_data (sinks st i))"
  unfolding write_syncer_def write_syncer_axioms_def
  by (simp add: ws_writer [OF assms(1,2)] ws_Sync_ok ws_Sync_frame ws_Write_data_prefix [OF assms(3)]
      ws_Write_success_data(1) [OF assms(1)] assms(3))
    (simp add: ws_Write_deliver fold_deliver_calls assms(3))

section \<open>The operations and the buffer\<close>

text \<open>A write syncer on which nothing has been written behaves like one with an empty buffer.\<close>

definition bws_size :: "BufferedWriteSyncer \<Rightarrow> nat" where
  "bws_size s = (if Size s = 0 then 262144 else if Size s < 0 then 4096 else nat (Size s))"

definition bws_inv ::
  "nat \<Rightarrow> bytes list \<Rightarrow> bytes \<Rightarrow> bytes list \<Rightarrow> BufferedWriteSyncer \<Rightarrow> 'z ios_scheme \<Rightarrow> bool" where
  "bws_inv i c0 d0 msgs s st \<longleftrightarrow>
     (if initialized s
      then bw_size (bwriter s) = bws_size s \<and>
        buffer_inv c0 d0 msgs (bwriter s) (s_calls (sinks st i)) (s_data (sinks st i))
      else msgs = [] \<and> s_calls (sinks st i) = c0 \<and> s_data (sinks st i) = d0)"

definition same_control :: "BufferedWriteSyncer \<Rightarrow> BufferedWriteSyncer \<Rightarrow> bool" where
  "same_control s s' \<longleftrightarrow> WS s' = WS s \<and> Size s' = Size s \<and> stopped s' = stopped s \<and> stop_closed s' = stop_closed s \<and>
     done_closed s' = done_closed s \<and> ticker s' = ticker s \<and> initialized s' = initialized s"

lemma bws_size_update [simp]:
  "bws_size (s\<lparr>bwriter := b\<rparr>) = bws_size s" "bws_size (s\<lparr>stopped := x\<rparr>) = bws_size s"
  "bws_size (s\<lparr>ticker := t\<rparr>) = bws_size s" "bws_size (s\<lparr>stop_closed := x\<rparr>) = bws_size s"
  "bws_size (s\<lparr>done_closed := x\<rparr>) = bws_size s"
  by (simp_all add: bws_size_def)

lemma bws_initialize_fields:
  "WS (bws_initialize s) = WS s" "Size (bws_initialize s) = Size s"
  "initialized (bws_initialize s)" "ticker (bws_initialize s) \<noteq> None"
  "stopped (bws_initialize s) = stopped s" "\<not> stop_closed (bws_initialize s)"
  "\<not> done_closed (bws_initialize s)"
  by (simp_all add: bws_initialize_def Let_def)

lemma bws_initialize_inv: "\<not> initialized s \<Longrightarrow> bws_inv i c0 d0 msgs s st \<Longrightarrow> bws_inv i c0 d0 msgs (bws_initialize s) st"
  by (auto simp: bws_inv_def bws_initialize_def Let_def bufio_NewWriterSize_def defaultBufferSize_def
      bws_size_def intro!: buffer_inv_new)

lemma bws_Write_inv:
  fixes st :: "'z ios_scheme"
  assumes ws: "multierr_ok E" "ws_wf (WS s)" "count_list (ws_sinks (WS s)) i = 1"
    and "sinks_ok st" and "bws_inv i c0 d0 msgs s st"
  shows "\<exists>n err s' st'. bws_Write E s p st = Some ((n, err), s', st') \<and> sinks_ok st' \<and>
    bws_inv i c0 d0 (msgs @ [p]) s' st' \<and> (err = None \<longrightarrow> n = length p) \<and>
    same_control (if initialized s then s else bws_initialize s) s'"
proof -
  let ?s = "if initialized s then s else bws_initialize s" and ?wr = "ws_Write E (WS s)"
  let ?inv = "\<lambda>m b (st :: 'z ios_scheme). buffer_inv c0 d0 m b (s_calls (sinks st i)) (s_data (sinks st i))"
  have WS: "WS ?s = WS s" by (simp add: bws_initialize_fields)
  have init: "initialized ?s" by (simp add: bws_initialize_fields)
  have inv: "?inv msgs (bwriter ?s) st" "bw_size (bwriter ?s) = bws_size ?s"
    using assms(5) bws_initialize_inv [of s i c0 d0 msgs st]
    by (auto simp: bws_inv_def bws_initialize_fields)
  have wr: "\<exists>r b' st'. bufio_Write ?wr b p st1 = Some (r, b', st') \<and> sinks_ok st' \<and>
      ?inv (msgs @ [p]) b' st' \<and> bw_size b' = bw_size b \<and> (snd r = None \<longrightarrow> fst r = length p)"
    if "sinks_ok st1" "?inv msgs b st1" "bw_buf b = [] \<or> length p \<le> bufio_Available b"
    for b and st1 :: "'z ios_scheme"
    using write_syncer.write_inv [OF ws_syncer [OF ws] that(1), of c0 d0 msgs b p] that(2,3) by metis
  have eq: "bws_Write E s p st =
     (if bufio_Available (bwriter ?s) < length p \<and> 0 < bufio_Buffered (bwriter ?s) then
        case bufio_Flush ?wr (bwriter ?s) st of
          (err, b, st') \<Rightarrow>
            if err \<noteq> None then Some ((0, err), ?s\<lparr>bwriter := b\<rparr>, st')
            else map_option (\<lambda>(r, b, st'). (r, ?s\<lparr>bwriter := b\<rparr>, st')) (bufio_Write ?wr b p st')
      else map_option (\<lambda>(r, b, st'). (r, ?s\<lparr>bwriter := b\<rparr>, st')) (bufio_Write ?wr (bwriter ?s) p st))"
    by (auto simp: bws_Write_def Let_def WS bws_initialize_fields split: prod.splits)
  show ?thesis
  proof (cases "bufio_Available (bwriter ?s) < length p \<and> 0 < bufio_Buffered (bwriter ?s)")
    case True
    obtain e b st1 where f: "bufio_Flush ?wr (bwriter ?s) st = (e, b, st1)" by (metis prod.exhaust)
    have b: "sinks_ok st1" "?inv msgs b st1" "bw_err b = e" "e = None \<Longrightarrow> bw_buf b = []"
      "bw_size b = bws_size ?s"
      using write_syncer.flush_inv [OF ws_syncer [OF ws] assms(4) inv(1) f] inv(2) by auto
    show ?thesis
    proof (cases "e = None")
      case None: True
      then show ?thesis using wr [OF b(1,2)] b(4,5) True f init
        by (fastforce simp: eq bws_inv_def same_control_def)
    next
      case False
      then have "?inv (msgs @ [p]) b st1" using b(2,3) by (auto simp: buffer_inv_def intro: prefix_prefix)
      then show ?thesis using False True f b init
        by (auto simp: eq bws_inv_def same_control_def)
    qed
  next
    case False
    then have "bw_buf (bwriter ?s) = [] \<or> length p \<le> bufio_Available (bwriter ?s)"
      by (auto simp: bufio_Buffered_def)
    then show ?thesis using wr [OF assms(4) inv(1)] inv(2) False init
      by (fastforce simp: eq bws_inv_def same_control_def)
  qed
qed

lemma bws_Sync_inv:
  assumes ws: "multierr_ok E" "ws_wf (WS s)" "count_list (ws_sinks (WS s)) i = 1"
    and "sinks_ok st" and "bws_inv i c0 d0 msgs s st"
    and "bws_Sync E s st = (e, s', st')"
  shows "sinks_ok st' \<and> bws_inv i c0 d0 msgs s' st' \<and> same_control s s' \<and>
    (e = None \<longrightarrow> s_data (sinks st' i) = d0 @ concat msgs)"
proof -
  let ?inv = "\<lambda>b st. buffer_inv c0 d0 msgs b (s_calls (sinks st i)) (s_data (sinks st i))"
  let ?f = "if initialized s then bufio_Flush (ws_Write E (WS s)) (bwriter s) st else (None, bwriter s, st)"
  obtain e1 b st1 where f: "?f = (e1, b, st1)" by (metis prod.exhaust)
  obtain e2 st2 where y: "ws_Sync E (WS s) st1 = (e2, st2)" by fastforce
  have r: "e = multierr_Append E e1 e2" "s' = s\<lparr>bwriter := b\<rparr>" "st' = st2"
    using assms(6) f y by (auto simp: bws_Sync_def)
  have 1: "sinks_ok st1 \<and> bws_inv i c0 d0 msgs s' st1 \<and>
      (e1 = None \<longrightarrow> s_data (sinks st1 i) = d0 @ concat msgs)"
  proof (cases "initialized s")
    case True
    then show ?thesis
      using write_syncer.flush_inv [OF ws_syncer [OF ws] assms(4), of c0 d0 msgs "bwriter s" e1 b st1] f assms(5) r(2)
      by (auto simp: bws_inv_def dest: buffer_inv_flushed)
  next
    case False
    then show ?thesis using f assms(4,5) r(2) by (auto simp: bws_inv_def)
  qed
  have "sinks_ok st2" "s_calls (sinks st2 i) = s_calls (sinks st1 i)" "s_data (sinks st2 i) = s_data (sinks st1 i)"
    using write_syncer.sync_ok [OF ws_syncer [OF ws], of st1] write_syncer.sync_calls [OF ws_syncer [OF ws], of st1]
      write_syncer.sync_dat [OF ws_syncer [OF ws], of st1] y 1 by auto
  then show ?thesis using 1 r by (auto simp: bws_inv_def same_control_def multierr_simps [OF ws(1)])
qed

section \<open>Callers and the flush loop\<close>

text \<open>
  A configuration has the write syncer, its mutex \<open>mu\<close>, a tick waiting in the channel of the
  ticker (which holds one), the goroutine \<open>flushLoop\<close>, and callers that are inside \<open>Write\<close>, \<open>Sync\<close>
  or \<open>Stop\<close>.  Taking the mutex and the body that holds it are separate steps, so every order of
  the critical sections is a run.  \<open>written\<close> records the messages in the order of these sections.
\<close>

datatype loop_pc = NotStarted | Select | LoopWant | LoopHold | Exited

datatype call_pc =
    WriteWant bytes | WriteHold bytes
  | SyncWant | SyncHold
  | StopWant | StopHold | StopWait | StopSyncWant | StopSyncHold
  | Returned "error option"

datatype owner = LoopOwner | Caller nat

record bcfg =
  bws :: BufferedWriteSyncer
  io :: ios
  mu :: "owner option"
  tick :: bool
  floop :: loop_pc
  callers :: "call_pc list"
  written :: "bytes list"

fun lock_pc :: "call_pc \<Rightarrow> call_pc option" where
  "lock_pc (WriteWant p) = Some (WriteHold p)"
| "lock_pc SyncWant = Some SyncHold"
| "lock_pc StopWant = Some StopHold"
| "lock_pc StopSyncWant = Some StopSyncHold"
| "lock_pc _ = None"

fun holds :: "call_pc \<Rightarrow> bool" where
  "holds (WriteHold p) = True"
| "holds SyncHold = True"
| "holds StopHold = True"
| "holds StopSyncHold = True"
| "holds _ = False"

definition leave :: "nat \<Rightarrow> call_pc \<Rightarrow> BufferedWriteSyncer \<Rightarrow> ios \<Rightarrow> bcfg \<Rightarrow> bcfg" where
  "leave j pc s st c = c\<lparr>bws := s, io := st, mu := None, callers := (callers c)[j := pc]\<rparr>"

inductive bstep :: "'v env \<Rightarrow> bcfg \<Rightarrow> bcfg \<Rightarrow> bool" for E where
  tick: "ticker (bws c) \<noteq> None \<Longrightarrow> \<not> tick c \<Longrightarrow> bstep E c (c\<lparr>tick := True\<rparr>)"
| loop_tick: "floop c = Select \<Longrightarrow> tick c \<Longrightarrow> bstep E c (c\<lparr>tick := False, floop := LoopWant\<rparr>)"
| loop_stop: "floop c = Select \<Longrightarrow> stop_closed (bws c) \<Longrightarrow>
    bstep E c (c\<lparr>floop := Exited, bws := (bws c)\<lparr>done_closed := True\<rparr>\<rparr>)"
| loop_lock: "floop c = LoopWant \<Longrightarrow> mu c = None \<Longrightarrow>
    bstep E c (c\<lparr>floop := LoopHold, mu := Some LoopOwner\<rparr>)"
| loop_sync: "floop c = LoopHold \<Longrightarrow> bws_Sync E (bws c) (io c) = (e, s, st) \<Longrightarrow>
    bstep E c (c\<lparr>floop := Select, mu := None, bws := s, io := st\<rparr>)"
| lock: "j < length (callers c) \<Longrightarrow> mu c = None \<Longrightarrow> lock_pc (callers c ! j) = Some pc \<Longrightarrow>
    bstep E c (c\<lparr>mu := Some (Caller j), callers := (callers c)[j := pc]\<rparr>)"
| wr: "j < length (callers c) \<Longrightarrow> callers c ! j = WriteHold p \<Longrightarrow>
    bws_Write E (bws c) p (io c) = Some ((n, e), s, st) \<Longrightarrow>
    bstep E c ((leave j (Returned e) s st c)\<lparr>written := written c @ [p],
      floop := (if initialized (bws c) then floop c else Select)\<rparr>)"
| sync: "j < length (callers c) \<Longrightarrow> callers c ! j = SyncHold \<Longrightarrow>
    bws_Sync E (bws c) (io c) = (e, s, st) \<Longrightarrow> bstep E c (leave j (Returned e) s st c)"
| stop: "j < length (callers c) \<Longrightarrow> callers c ! j = StopHold \<Longrightarrow>
    bws_Stop_critical (bws c) = (b, s) \<Longrightarrow>
    bstep E c (leave j (if b then StopWait else Returned None) s (io c) c)"
| stop_wait: "j < length (callers c) \<Longrightarrow> callers c ! j = StopWait \<Longrightarrow> done_closed (bws c) \<Longrightarrow>
    bstep E c (c\<lparr>callers := (callers c)[j := StopSyncWant]\<rparr>)"
| stop_sync: "j < length (callers c) \<Longrightarrow> callers c ! j = StopSyncHold \<Longrightarrow>
    bws_Sync E (bws c) (io c) = (e, s, st) \<Longrightarrow> bstep E c (leave j (Returned e) s st c)"

definition entering :: "call_pc \<Rightarrow> bool" where
  "entering pc \<longleftrightarrow> pc = SyncWant \<or> pc = StopWant \<or> (\<exists>p. pc = WriteWant p)"

text \<open>A fresh write syncer around \<open>w\<close>, with callers that are about to enter their calls.\<close>

definition bws_new :: "ws \<Rightarrow> int \<Rightarrow> int \<Rightarrow> BufferedWriteSyncer" where
  "bws_new w sz interval = \<lparr>WS = w, Size = sz, FlushInterval = interval, initialized = False,
     stopped = False, bwriter = \<lparr>bw_err = None, bw_buf = [], bw_size = 0\<rparr>, ticker = None,
     stop_closed = False, done_closed = False\<rparr>"

definition binit :: "BufferedWriteSyncer \<Rightarrow> ios \<Rightarrow> call_pc list \<Rightarrow> bcfg" where
  "binit s st pcs = \<lparr>bws = s, io = st, mu = None, tick = False, floop = NotStarted,
     callers = pcs, written = []\<rparr>"

subsection \<open>The control invariant\<close>

definition control_inv :: "bcfg \<Rightarrow> bool" where
  "control_inv c \<longleftrightarrow>
     (floop c = NotStarted \<longleftrightarrow> \<not> initialized (bws c)) \<and>
     (stopped (bws c) \<longrightarrow> initialized (bws c)) \<and>
     (ticker (bws c) \<noteq> None \<longleftrightarrow> initialized (bws c) \<and> \<not> stopped (bws c)) \<and>
     (stop_closed (bws c) \<longleftrightarrow> stopped (bws c)) \<and>
     (done_closed (bws c) \<longleftrightarrow> floop c = Exited) \<and>
     (floop c = Exited \<longrightarrow> stopped (bws c))"

definition lock_inv :: "bcfg \<Rightarrow> bool" where
  "lock_inv c \<longleftrightarrow>
     (floop c = LoopHold \<longleftrightarrow> mu c = Some LoopOwner) \<and>
     (\<forall>j. mu c = Some (Caller j) \<longleftrightarrow> j < length (callers c) \<and> holds (callers c ! j))"

definition waiting_inv :: "bcfg \<Rightarrow> bool" where
  "waiting_inv c \<longleftrightarrow>
     (StopWait \<in> set (callers c) \<longrightarrow> stopped (bws c))"

lemma lock_pc_holds: "lock_pc pc = Some pc' \<Longrightarrow> holds pc' \<and> \<not> holds pc \<and> pc' \<noteq> StopWait"
  by (cases pc) auto

lemma same_controlD:
  "same_control s s' \<Longrightarrow> WS s' = WS s \<and> stopped s' = stopped s \<and> stop_closed s' = stop_closed s \<and>
     done_closed s' = done_closed s \<and> ticker s' = ticker s \<and> initialized s' = initialized s"
  by (simp add: same_control_def)

definition binv :: "nat \<Rightarrow> ws \<Rightarrow> bytes list \<Rightarrow> bytes \<Rightarrow> bcfg \<Rightarrow> bool" where
  "binv i w c0 d0 c \<longleftrightarrow> WS (bws c) = w \<and> sinks_ok (io c) \<and>
     bws_inv i c0 d0 (written c) (bws c) (io c) \<and> control_inv c \<and> lock_inv c \<and> waiting_inv c"

lemma lock_inv_owner:
  "lock_inv c \<Longrightarrow> j < length (callers c) \<Longrightarrow> holds (callers c ! j) \<longleftrightarrow> mu c = Some (Caller j)"
  "lock_inv c \<Longrightarrow> mu c = Some (Caller j) \<Longrightarrow> j < length (callers c)"
  "lock_inv c \<Longrightarrow> floop c = LoopHold \<longleftrightarrow> mu c = Some LoopOwner"
  unfolding lock_inv_def by blast+

lemma lock_inv_leave:
  assumes "lock_inv c" and "j < length (callers c)" and "holds (callers c ! j)" and "\<not> holds pc"
  shows "lock_inv (leave j pc s st c)" and "floop c \<noteq> LoopHold"
proof -
  have j: "mu c = Some (Caller j)" using lock_inv_owner [OF assms(1)] assms(2,3) by simp
  then show l: "floop c \<noteq> LoopHold" using lock_inv_owner(3) [OF assms(1)] by simp
  have "\<not> holds ((callers c)[j := pc] ! k)" if "k < length (callers c)" for k
    using that j lock_inv_owner(1) [OF assms(1) that] assms(4) by (cases "k = j") simp_all
  then show "lock_inv (leave j pc s st c)" using l by (simp add: lock_inv_def leave_def)
qed

lemma waiting_inv_update:
  "waiting_inv c \<Longrightarrow> stopped (bws c) \<longrightarrow> stopped s \<Longrightarrow> pc = StopWait \<longrightarrow> stopped s \<Longrightarrow>
   StopWait \<in> set ((callers c)[j := pc]) \<Longrightarrow> stopped s"
  using set_update_subset_insert [of "callers c" j pc] by (auto simp: waiting_inv_def)

text \<open>Leaving a critical section that keeps the control state.\<close>

lemma binv_leave:
  assumes "binv i w c0 d0 c" and "j < length (callers c)" and "holds (callers c ! j)"
    and "\<not> holds pc" and "pc \<noteq> StopWait" and "sinks_ok st" and "same_control (bws c) s"
    and "bws_inv i c0 d0 (written c) s st"
  shows "binv i w c0 d0 (leave j pc s st c)"
proof -
  have "lock_inv (leave j pc s st c)"
    using lock_inv_leave [of c j pc] assms by (auto simp: binv_def)
  moreover have "waiting_inv (leave j pc s st c)"
    using waiting_inv_update [of c s pc j] assms by (auto simp: binv_def waiting_inv_def leave_def same_control_def)
  moreover have "control_inv (leave j pc s st c)"
    using assms by (auto simp: binv_def control_inv_def leave_def same_control_def)
  ultimately show ?thesis using assms by (auto simp: binv_def leave_def same_control_def)
qed

lemma binv_write:
  assumes "binv i w c0 d0 c" and "j < length (callers c)" and "callers c ! j = WriteHold p"
    and "sinks_ok st" and "same_control (if initialized (bws c) then bws c else bws_initialize (bws c)) s"
    and "bws_inv i c0 d0 (written c @ [p]) s st"
  shows "binv i w c0 d0 ((leave j (Returned e) s st c)\<lparr>written := written c @ [p],
      floop := (if initialized (bws c) then floop c else Select)\<rparr>)" (is "binv i w c0 d0 ?c")
proof -
  have h: "holds (callers c ! j)" using assms(3) by simp
  have "lock_inv (leave j (Returned e) s st c)" "floop c \<noteq> LoopHold"
    using lock_inv_leave [OF _ assms(2) h, of "Returned e"] assms(1) by (auto simp: binv_def)
  then have "lock_inv ?c" by (simp add: lock_inv_def leave_def)
  moreover have "control_inv ?c"
    using assms(1,5) by (auto simp: binv_def control_inv_def leave_def same_control_def bws_initialize_fields)
  moreover have "stopped (bws c) \<longrightarrow> stopped s"
    using assms(5) by (auto simp: same_control_def bws_initialize_fields split: if_splits)
  then have "waiting_inv ?c"
    using waiting_inv_update [of c s "Returned e" j] assms(1)
    by (auto simp: binv_def waiting_inv_def leave_def)
  ultimately show ?thesis using assms
    by (auto simp: binv_def leave_def same_control_def bws_initialize_fields split: if_splits)
qed

lemma binv_stop:
  assumes "binv i w c0 d0 c" and "j < length (callers c)" and "callers c ! j = StopHold"
    and "bws_Stop_critical (bws c) = (b, s)"
  shows "binv i w c0 d0 (leave j (if b then StopWait else Returned None) s (io c) c)"
proof (cases "initialized (bws c) \<and> \<not> stopped (bws c)")
  case True
  then have s: "b" "s = (bws c)\<lparr>stopped := True, ticker := None, stop_closed := True\<rparr>"
    using assms(4) by (auto simp: bws_Stop_critical_def)
  have "bws_inv i c0 d0 (written c) s (io c)"
    using assms(1) by (simp add: s(2) binv_def bws_inv_def)
  moreover have "lock_inv (leave j StopWait s (io c) c)"
    using lock_inv_leave [of c j StopWait] assms by (simp add: binv_def)
  moreover have "waiting_inv (leave j StopWait s (io c) c)" by (simp add: waiting_inv_def leave_def s(2))
  moreover have "control_inv (leave j StopWait s (io c) c)"
    using assms(1) True by (auto simp: binv_def control_inv_def leave_def s(2))
  ultimately show ?thesis using assms(1) s by (simp add: binv_def leave_def)
next
  case False
  then have "\<not> b" "s = bws c" using assms(4) by (auto simp: bws_Stop_critical_def split: if_splits)
  then show ?thesis
    using binv_leave [OF assms(1,2), of "Returned None" "io c" "bws c"] assms(1,3)
    by (simp add: same_control_def binv_def)
qed

text \<open>Steps that neither write nor leave a critical section.\<close>

lemma binv_silent:
  assumes "binv i w c0 d0 c" and "WS (bws c') = w" and "io c' = io c" and "written c' = written c"
    and "initialized (bws c') = initialized (bws c)" and "bwriter (bws c') = bwriter (bws c)"
    and "bws_size (bws c') = bws_size (bws c)"
    and "control_inv c'" and "lock_inv c'" and "waiting_inv c'"
  shows "binv i w c0 d0 c'"
  using assms by (simp add: binv_def bws_inv_def)

lemma binv_step_silent:
  assumes "binv i w c0 d0 c"
  shows "ticker (bws c) \<noteq> None \<Longrightarrow> binv i w c0 d0 (c\<lparr>tick := True\<rparr>)"
    and "floop c = Select \<Longrightarrow> binv i w c0 d0 (c\<lparr>tick := False, floop := LoopWant\<rparr>)"
    and "floop c = Select \<Longrightarrow> stop_closed (bws c) \<Longrightarrow>
      binv i w c0 d0 (c\<lparr>floop := Exited, bws := (bws c)\<lparr>done_closed := True\<rparr>\<rparr>)"
    and "floop c = LoopWant \<Longrightarrow> mu c = None \<Longrightarrow>
      binv i w c0 d0 (c\<lparr>floop := LoopHold, mu := Some LoopOwner\<rparr>)"
    and "j < length (callers c) \<Longrightarrow> mu c = None \<Longrightarrow> lock_pc (callers c ! j) = Some pc \<Longrightarrow>
      binv i w c0 d0 (c\<lparr>mu := Some (Caller j), callers := (callers c)[j := pc]\<rparr>)"
    and "j < length (callers c) \<Longrightarrow> callers c ! j = StopWait \<Longrightarrow>
      binv i w c0 d0 (c\<lparr>callers := (callers c)[j := StopSyncWant]\<rparr>)"
proof -
  have inv: "WS (bws c) = w" "control_inv c" "lock_inv c" "waiting_inv c"
    using assms by (auto simp: binv_def)
  show "binv i w c0 d0 (c\<lparr>tick := True\<rparr>)" if "ticker (bws c) \<noteq> None"
    using inv by (intro binv_silent [OF assms]) (simp_all add: control_inv_def lock_inv_def waiting_inv_def)
  show "binv i w c0 d0 (c\<lparr>tick := False, floop := LoopWant\<rparr>)" if "floop c = Select"
    using inv that by (intro binv_silent [OF assms]) (simp_all add: control_inv_def lock_inv_def waiting_inv_def)
  show "binv i w c0 d0 (c\<lparr>floop := Exited, bws := (bws c)\<lparr>done_closed := True\<rparr>\<rparr>)"
    if "floop c = Select" "stop_closed (bws c)"
    using inv that by (intro binv_silent [OF assms]) (simp_all add: control_inv_def lock_inv_def waiting_inv_def)
  show "binv i w c0 d0 (c\<lparr>floop := LoopHold, mu := Some LoopOwner\<rparr>)" if "floop c = LoopWant" "mu c = None"
    using inv that by (intro binv_silent [OF assms]) (simp_all add: control_inv_def lock_inv_def waiting_inv_def)
  show "binv i w c0 d0 (c\<lparr>mu := Some (Caller j), callers := (callers c)[j := pc]\<rparr>)"
    if "j < length (callers c)" "mu c = None" "lock_pc (callers c ! j) = Some pc"
  proof (rule binv_silent [OF assms])
    show "lock_inv (c\<lparr>mu := Some (Caller j), callers := (callers c)[j := pc]\<rparr>)"
      unfolding lock_inv_def
      using lock_inv_owner [OF inv(3)] that lock_pc_holds [OF that(3)] by (simp add: nth_list_update)
    show "waiting_inv (c\<lparr>mu := Some (Caller j), callers := (callers c)[j := pc]\<rparr>)"
      using inv(4) lock_pc_holds [OF that(3)] waiting_inv_update [of c "bws c" pc j]
      by (auto simp: waiting_inv_def)
  qed (use inv in \<open>simp_all add: control_inv_def\<close>)
  show "binv i w c0 d0 (c\<lparr>callers := (callers c)[j := StopSyncWant]\<rparr>)"
    if "j < length (callers c)" "callers c ! j = StopWait"
  proof (rule binv_silent [OF assms])
    have "\<not> holds (callers c ! j)" using that(2) by simp
    then show "lock_inv (c\<lparr>callers := (callers c)[j := StopSyncWant]\<rparr>)"
      unfolding lock_inv_def using lock_inv_owner [OF inv(3)] that(1)
      by (simp add: nth_list_update) metis
    show "waiting_inv (c\<lparr>callers := (callers c)[j := StopSyncWant]\<rparr>)"
      using inv(4) waiting_inv_update [of c "bws c" StopSyncWant j] by (auto simp: waiting_inv_def)
  qed (use inv in \<open>simp_all add: control_inv_def\<close>)
qed

lemma binv_loop_sync:
  assumes "binv i w c0 d0 c" and "floop c = LoopHold" and "sinks_ok st" and "same_control (bws c) s"
    and "bws_inv i c0 d0 (written c) s st"
  shows "binv i w c0 d0 (c\<lparr>floop := Select, mu := None, bws := s, io := st\<rparr>)" (is "binv _ _ _ _ ?c")
proof -
  have inv: "lock_inv c" "control_inv c" "waiting_inv c" using assms(1) by (auto simp: binv_def)
  have "\<not> holds (callers c ! k)" if "k < length (callers c)" for k
    using lock_inv_owner [OF inv(1)] assms(2) that by simp
  then have "lock_inv ?c" by (simp add: lock_inv_def)
  moreover have "control_inv ?c" using inv(2) assms(2,4) by (simp add: control_inv_def same_control_def)
  moreover have "waiting_inv ?c" using inv(3) assms(4) by (simp add: waiting_inv_def same_control_def)
  ultimately show ?thesis using assms by (simp add: binv_def same_control_def)
qed

lemma binv_step:
  assumes "bstep E c c'" and "multierr_ok E" and "ws_wf w" and "count_list (ws_sinks w) i = 1"
    and "binv i w c0 d0 c"
  shows "binv i w c0 d0 c'"
proof -
  have w: "WS (bws c) = w" "sinks_ok (io c)" "bws_inv i c0 d0 (written c) (bws c) (io c)"
    using assms(5) by (auto simp: binv_def)
  note y = bws_Sync_inv [of E "bws c" i "io c" c0 d0 "written c", unfolded w(1), OF assms(2-4) w(2,3)]
  show ?thesis using assms(1)
  proof cases
    case (loop_sync e s st)
    then show ?thesis using binv_loop_sync [OF assms(5) loop_sync(2)] y [OF loop_sync(3)] by simp
  next
    case (wr j p n e s st)
    then show ?thesis
      using binv_write [OF assms(5) wr(2,3), of st s e] assms(2-4) w
        bws_Write_inv [of E "bws c" i "io c" c0 d0 "written c" p] by (simp split: if_splits)
  next
    case (sync j e s st)
    then show ?thesis
      using y [OF sync(4)] binv_leave [OF assms(5) sync(2), of "Returned e" st s] by simp
  next
    case (stop_sync j e s st)
    then show ?thesis
      using y [OF stop_sync(4)] binv_leave [OF assms(5) stop_sync(2), of "Returned e" st s] by simp
  qed (simp_all add: binv_step_silent [OF assms(5)] binv_stop [OF assms(5)])
qed

lemma binv_init:
  assumes "sinks_ok st" and "list_all entering pcs"
  shows "binv i w (s_calls (sinks st i)) (s_data (sinks st i)) (binit (bws_new w sz interval) st pcs)"
proof -
  have "\<not> holds pc \<and> pc \<noteq> StopWait" if "pc \<in> set pcs" for pc
    using that assms(2) by (auto simp: list_all_iff entering_def)
  then show ?thesis using assms(1)
    by (auto simp: binv_def binit_def bws_new_def bws_inv_def control_inv_def lock_inv_def waiting_inv_def)
qed

lemma binv_reach:
  assumes "multierr_ok E" and "ws_wf w" and "count_list (ws_sinks w) i = 1" and "sinks_ok st"
    and "list_all entering pcs" and "(bstep E)\<^sup>*\<^sup>* (binit (bws_new w sz interval) st pcs) c"
  shows "binv i w (s_calls (sinks st i)) (s_data (sinks st i)) c"
  using assms(6) by (induction rule: rtranclp_induct) (auto simp: binv_init assms intro: binv_step)

subsection \<open>Progress\<close>

text \<open>The steps that are left once \<open>Stop\<close> has told the loop to end.\<close>

fun call_left :: "call_pc \<Rightarrow> nat" where
  "call_left (WriteWant p) = 2"
| "call_left (WriteHold p) = 1"
| "call_left SyncWant = 2"
| "call_left SyncHold = 1"
| "call_left StopWant = 5"
| "call_left StopHold = 4"
| "call_left StopWait = 3"
| "call_left StopSyncWant = 2"
| "call_left StopSyncHold = 1"
| "call_left (Returned e) = 0"

fun loop_left :: "loop_pc \<Rightarrow> nat" where
  "loop_left NotStarted = 0"
| "loop_left Select = 1"
| "loop_left LoopWant = 3"
| "loop_left LoopHold = 2"
| "loop_left Exited = 0"

definition steps_left :: "bcfg \<Rightarrow> nat" where
  "steps_left c = (if tick c then 3 else 0) + loop_left (floop c) + sum_list (map call_left (callers c))"

lemma call_left_update:
  "j < length cs \<Longrightarrow> call_left pc < call_left (cs ! j) \<Longrightarrow>
   sum_list (map call_left (cs[j := pc])) < sum_list (map call_left cs)"
  by (induction cs arbitrary: j) (auto split: nat.splits)

lemma lock_pc_left: "lock_pc pc = Some pc' \<Longrightarrow> call_left pc' < call_left pc"
  by (cases pc) auto

lemma steps_left_call:
  "j < length (callers c) \<Longrightarrow> call_left pc < call_left (callers c ! j) \<Longrightarrow>
   callers c' = (callers c)[j := pc] \<Longrightarrow> tick c' = tick c \<Longrightarrow> floop c' = floop c \<Longrightarrow>
   steps_left c' < steps_left c"
  using call_left_update [of j "callers c" pc] by (simp add: steps_left_def)

lemma stopped_step:
  assumes "bstep E c c'" and "control_inv c" and "stopped (bws c)"
    and "control_inv c'" and "stopped (bws c')"
  shows "steps_left c' < steps_left c"
  using assms(1)
proof cases
  case (lock j pc)
  then show ?thesis using lock_pc_left by (intro steps_left_call [of j c pc]) auto
next
  case (wr j p n e s st)
  have "initialized (bws c)" using assms(2,3) by (simp add: control_inv_def)
  then show ?thesis using wr by (intro steps_left_call [of j c "Returned e"]) (auto simp: leave_def)
next
  case (sync j e s st)
  then show ?thesis by (intro steps_left_call [of j c "Returned e"]) (auto simp: leave_def)
next
  case (stop j b s)
  then show ?thesis
    by (intro steps_left_call [of j c "if b then StopWait else Returned None"]) (auto simp: leave_def)
next
  case (stop_wait j)
  then show ?thesis by (intro steps_left_call [of j c StopSyncWant]) auto
next
  case (stop_sync j e s st)
  then show ?thesis by (intro steps_left_call [of j c "Returned e"]) (auto simp: leave_def)
qed (use assms(2,3) in \<open>auto simp: steps_left_def control_inv_def\<close>)

lemma bws_Stop_stopped: "bws_Stop_critical s = (b, s') \<Longrightarrow> stopped s \<Longrightarrow> stopped s'"
  by (auto simp: bws_Stop_critical_def split: if_splits)

lemma bws_Sync_stopped: "bws_Sync E s st = (e, s', st') \<Longrightarrow> stopped s' = stopped s"
  by (auto simp: bws_Sync_def split: prod.splits)

lemma bws_Write_stopped: "bws_Write E s p st = Some (r, s', st') \<Longrightarrow> stopped s' = stopped s"
  by (auto simp: bws_Write_def Let_def bws_initialize_fields split: prod.splits if_splits)

lemma bstep_stopped: "bstep E c c' \<Longrightarrow> stopped (bws c) \<Longrightarrow> stopped (bws c')"
  by (cases rule: bstep.cases)
    (auto simp: leave_def dest: bws_Stop_stopped bws_Sync_stopped bws_Write_stopped)

text \<open>A caller that has not returned means that some step can be taken.\<close>

lemma holder_progress:
  assumes "multierr_ok E" and "ws_wf w" and "count_list (ws_sinks w) i = 1" and "binv i w c0 d0 c"
    and "j < length (callers c)" and "holds (callers c ! j)"
  shows "\<exists>c'. bstep E c c'"
proof -
  have w: "WS (bws c) = w" "sinks_ok (io c)" "bws_inv i c0 d0 (written c) (bws c) (io c)"
    using assms(4) by (auto simp: binv_def)
  obtain e s st where y: "bws_Sync E (bws c) (io c) = (e, s, st)" by (metis prod.exhaust)
  obtain b s' where t: "bws_Stop_critical (bws c) = (b, s')" by fastforce
  show ?thesis
  proof (cases "callers c ! j")
    case (WriteHold p)
    obtain n e s st where "bws_Write E (bws c) p (io c) = Some ((n, e), s, st)"
      using bws_Write_inv [of E "bws c" i "io c" c0 d0 "written c" p] assms(1-3) w by auto
    then show ?thesis using bstep.wr [OF assms(5) WriteHold] by blast
  next
    case SyncHold
    then show ?thesis using bstep.sync [OF assms(5) SyncHold y] by blast
  next
    case StopHold
    then show ?thesis using bstep.stop [OF assms(5) StopHold t] by blast
  next
    case StopSyncHold
    then show ?thesis using bstep.stop_sync [OF assms(5) StopSyncHold y] by blast
  qed (use assms(6) in auto)
qed

lemma wait_progress:
  assumes "binv i w c0 d0 c" and "mu c = None" and "j < length (callers c)" and "callers c ! j = StopWait"
  shows "\<exists>c'. bstep E c c'"
proof -
  have inv: "control_inv c" "lock_inv c" "stopped (bws c)"
    using assms by (auto simp: binv_def waiting_inv_def dest: nth_mem)
  show ?thesis
  proof (cases "floop c")
    case NotStarted
    then show ?thesis using inv by (auto simp: control_inv_def)
  next
    case Select
    then show ?thesis using inv bstep.loop_stop [of c E] by (auto simp: control_inv_def)
  next
    case LoopWant
    then show ?thesis using bstep.loop_lock [of c E] assms(2) by blast
  next
    case LoopHold
    then show ?thesis using lock_inv_owner(3) [OF inv(2)] assms(2) by simp
  next
    case Exited
    then show ?thesis using inv bstep.stop_wait [OF assms(3,4), of E] by (auto simp: control_inv_def)
  qed
qed

lemma call_progress:
  assumes "multierr_ok E" and "ws_wf w" and "count_list (ws_sinks w) i = 1" and "binv i w c0 d0 c"
    and "j < length (callers c)" and "\<forall>e. callers c ! j \<noteq> Returned e"
  shows "\<exists>c'. bstep E c c'"
proof (cases "mu c")
  case None
  have l: "lock_inv c" using assms(4) by (simp add: binv_def)
  then have "\<not> holds (callers c ! j)" using lock_inv_owner(1) [OF l assms(5)] None by simp
  then consider pc where "lock_pc (callers c ! j) = Some pc" | "callers c ! j = StopWait"
    using assms(6) by (cases "callers c ! j") auto
  then show ?thesis
  proof cases
    case 1
    then show ?thesis using bstep.lock [OF assms(5) None] by blast
  next
    case 2
    then show ?thesis using wait_progress [OF assms(4) None assms(5)] by blast
  qed
next
  case (Some t)
  have l: "lock_inv c" using assms(4) by (simp add: binv_def)
  obtain e s st where y: "bws_Sync E (bws c) (io c) = (e, s, st)" by (metis prod.exhaust)
  show ?thesis
  proof (cases t)
    case LoopOwner
    then show ?thesis using lock_inv_owner(3) [OF l] Some bstep.loop_sync [OF _ y] by blast
  next
    case (Caller k)
    then have "k < length (callers c)" "holds (callers c ! k)"
      using lock_inv_owner(1,2) [OF l, of k] Some by auto
    then show ?thesis using holder_progress [OF assms(1-4)] by blast
  qed
qed

section \<open>Properties\<close>

text \<open>
  C6: in every interleaving of writers, of callers of \<open>Sync\<close> and \<open>Stop\<close> and of the flush loop, each
  destination receives the messages in the order in which their writes entered the critical
  section: what it has taken is a prefix of them.  As long as no write to it has failed, every
  write it saw is a number of whole messages, and the buffer holds exactly the messages that it
  has not seen.
\<close>

theorem Buffered_whole_messages_in_order:
  assumes "multierr_ok E" and "ws_wf w" and "count_list (ws_sinks w) i = 1" and "sinks_ok st"
    and "list_all entering pcs" and "(bstep E)\<^sup>*\<^sup>* (binit (bws_new w sz interval) st pcs) c"
  shows "(\<exists>pre. s_data (sinks (io c) i) = s_data (sinks st i) @ pre \<and> prefix pre (concat (written c))) \<and>
    (initialized (bws c) \<and> bw_err (bwriter (bws c)) = None \<longrightarrow>
      (\<exists>gs pend. written c = concat gs @ pend \<and> bw_buf (bwriter (bws c)) = concat pend \<and>
        s_calls (sinks (io c) i) = s_calls (sinks st i) @ map concat gs))"
proof -
  note r = binv_reach [OF assms]
  show ?thesis
  proof (cases "initialized (bws c)")
    case True
    then have "buffer_inv (s_calls (sinks st i)) (s_data (sinks st i)) (written c) (bwriter (bws c))
        (s_calls (sinks (io c) i)) (s_data (sinks (io c) i))"
      using r by (simp add: binv_def bws_inv_def)
    then show ?thesis by (auto simp: buffer_inv_def split: if_splits)
  qed (use r in \<open>simp add: binv_def bws_inv_def\<close>)
qed

text \<open>
  C22: the buffer never holds more than the configured number of bytes (256 kB when the size is
  zero, the default of \<open>bufio\<close> when it is negative).
\<close>

theorem Buffered_bound:
  assumes "multierr_ok E" and "ws_wf w" and "count_list (ws_sinks w) i = 1" and "sinks_ok st"
    and "list_all entering pcs" and "(bstep E)\<^sup>*\<^sup>* (binit (bws_new w sz interval) st pcs) c"
    and "initialized (bws c)"
  shows "length (bw_buf (bwriter (bws c))) \<le> bws_size (bws c)"
  using binv_reach [OF assms(1-6)] assms(7)
  by (metis binv_def bws_inv_def buffer_inv_room)

text \<open>
  C23: when \<open>Sync\<close> returns no error (also as the last act of \<open>Stop\<close>), each destination has taken
  every message written so far.
\<close>

theorem Buffered_Sync_delivers:
  assumes "multierr_ok E" and "ws_wf w" and "count_list (ws_sinks w) i = 1" and "sinks_ok st"
    and "list_all entering pcs" and "(bstep E)\<^sup>*\<^sup>* (binit (bws_new w sz interval) st pcs) c"
    and "bws_Sync E (bws c) (io c) = (None, s', st')"
  shows "s_data (sinks st' i) = s_data (sinks st i) @ concat (written c)"
proof -
  have "WS (bws c) = w" "sinks_ok (io c)"
    "bws_inv i (s_calls (sinks st i)) (s_data (sinks st i)) (written c) (bws c) (io c)"
    using binv_reach [OF assms(1-6)] by (auto simp: binv_def)
  then show ?thesis
    using bws_Sync_inv [of E "bws c" i "io c" _ _ "written c", OF assms(1)] assms(2,3,7) by blast
qed

text \<open>
  C21: no reachable configuration is a deadlock: as long as some call has not returned, a step is
  possible.  In particular \<open>Stop\<close> waits for the loop without holding the mutex that the loop may
  need.
\<close>

theorem Buffered_no_deadlock:
  assumes "multierr_ok E" and "ws_wf w" and "count_list (ws_sinks w) i = 1" and "sinks_ok st"
    and "list_all entering pcs" and "(bstep E)\<^sup>*\<^sup>* (binit (bws_new w sz interval) st pcs) c"
    and "j < length (callers c)" and "\<forall>e. callers c ! j \<noteq> Returned e"
  shows "\<exists>c'. bstep E c c'"
  by (rule call_progress [OF assms(1-3) binv_reach [OF assms(1-6)] assms(7,8)])

text \<open>
  C20: once a call of \<open>Stop\<close> has passed its critical section, every run ends after at most
  \<open>steps_left\<close> steps: the loop sees at most one more tick and then ends.
\<close>

theorem Buffered_Stop_terminates:
  assumes "multierr_ok E" and "ws_wf w" and "count_list (ws_sinks w) i = 1" and "sinks_ok st"
    and "list_all entering pcs" and "(bstep E)\<^sup>*\<^sup>* (binit (bws_new w sz interval) st pcs) c"
    and "stopped (bws c)" and "(bstep E ^^ n) c c'"
  shows "n + steps_left c' \<le> steps_left c"
proof -
  have "binv i w (s_calls (sinks st i)) (s_data (sinks st i)) c' \<and> stopped (bws c') \<and>
      n + steps_left c' \<le> steps_left c"
    using assms(8)
  proof (induction n arbitrary: c')
    case 0
    then show ?case using binv_reach [OF assms(1-6)] assms(7) by simp
  next
    case (Suc n)
    then obtain d where d: "(bstep E ^^ n) c d" "bstep E d c'" by auto
    have "binv i w (s_calls (sinks st i)) (s_data (sinks st i)) d" "stopped (bws d)"
      "n + steps_left d \<le> steps_left c" using Suc.IH [OF d(1)] by auto
    moreover have "binv i w (s_calls (sinks st i)) (s_data (sinks st i)) c'"
      using binv_step [OF d(2) assms(1-3)] calculation(1) .
    ultimately show ?case
      using stopped_step [OF d(2)] bstep_stopped [OF d(2)] by (fastforce simp: binv_def)
  qed
  then show ?thesis by simp
qed

section \<open>A run\<close>

text \<open>One caller writes, another one stops the writer.\<close>

definition sample_start :: bcfg where
  "sample_start = binit (bws_new (Sink 0) 4 0) sample_ios [WriteWant ''ab'', StopWant]"

definition sample_written :: bcfg where
  "sample_written = sample_start\<lparr>callers := [Returned None, StopWant], written := [''ab''], floop := Select,
     bws := (bws_initialize (bws_new (Sink 0) 4 0))\<lparr>bwriter := \<lparr>bw_err = None, bw_buf = ''ab'', bw_size = 4\<rparr>\<rparr>\<rparr>"

definition sample_stopped :: bcfg where
  "sample_stopped = sample_written\<lparr>callers := [Returned None, StopWait],
     bws := (bws sample_written)\<lparr>stopped := True, ticker := None, stop_closed := True\<rparr>\<rparr>"

lemma sample_write:
  "bws_Write sample_env (bws_new (Sink 0) 4 0) ''ab'' sample_ios =
     Some ((2, None), bws sample_written, sample_ios)"
  by (simp add: bws_Write_def bws_new_def bws_initialize_def bufio_NewWriterSize_def bufio_Available_def
      bufio_Write_def bufio_loop.simps sample_written_def Let_def)

lemma sample_run_written: "(bstep sample_env)\<^sup>*\<^sup>* sample_start sample_written"
proof -
  let ?h = "sample_start\<lparr>mu := Some (Caller 0), callers := [WriteHold ''ab'', StopWant]\<rparr>"
  have 1: "bstep sample_env sample_start ?h"
    using bstep.lock [of 0 sample_start "WriteHold ''ab''" sample_env] by (simp add: sample_start_def binit_def)
  have "bws ?h = bws_new (Sink 0) 4 0" "io ?h = sample_ios" by (simp_all add: sample_start_def binit_def)
  then have "bstep sample_env ?h sample_written"
    using bstep.wr [of 0 ?h "''ab''" sample_env 2 None "bws sample_written" sample_ios] sample_write
    by (simp add: leave_def sample_written_def) (simp add: sample_start_def binit_def bws_new_def)
  then show ?thesis using 1 by (meson converse_rtranclp_into_rtranclp rtranclp.rtrancl_refl)
qed

lemma sample_run_stopped: "(bstep sample_env)\<^sup>*\<^sup>* sample_start sample_stopped"
proof -
  let ?h = "sample_written\<lparr>mu := Some (Caller 1), callers := [Returned None, StopHold]\<rparr>"
  have 1: "bstep sample_env sample_written ?h"
    using bstep.lock [of 1 sample_written StopHold sample_env]
    by (simp add: sample_written_def sample_start_def binit_def)
  have "bws_Stop_critical (bws ?h) = (True, bws sample_stopped)"
    by (simp add: bws_Stop_critical_def sample_stopped_def sample_written_def bws_initialize_fields)
      (simp add: bws_initialize_def bws_new_def Let_def)
  then have "bstep sample_env ?h sample_stopped"
    using bstep.stop [of 1 ?h True "bws sample_stopped" sample_env]
    by (simp add: leave_def sample_stopped_def) (simp add: sample_written_def sample_start_def binit_def)
  then show ?thesis using 1 sample_run_written by (meson rtranclp.rtrancl_into_rtrancl)
qed

lemma sample_hyps:
  "multierr_ok sample_env" "ws_wf (Sink 0)" "count_list (ws_sinks (Sink 0)) 0 = 1" "sinks_ok sample_ios"
  "list_all entering [WriteWant ''ab'', StopWant]"
  "(bstep sample_env)\<^sup>*\<^sup>* (binit (bws_new (Sink 0) 4 0) sample_ios [WriteWant ''ab'', StopWant]) sample_stopped"
  using sample_run_stopped
  by (simp_all add: sample_multierr sample_ios_ok entering_def sample_start_def)

theorem Buffered_whole_messages_in_order_witness:
  "\<exists>gs pend. written sample_stopped = concat gs @ pend \<and> ''ab'' = concat pend \<and>
     s_calls (sinks (io sample_stopped) 0) = map concat gs"
  using Buffered_whole_messages_in_order [OF sample_hyps]
  by (simp add: sample_stopped_def sample_written_def sample_start_def binit_def bws_initialize_fields
      sample_ios_def)

theorem Buffered_bound_witness: "length (bw_buf (bwriter (bws sample_stopped))) \<le> 4"
  using Buffered_bound [OF sample_hyps]
  by (simp add: sample_stopped_def sample_written_def bws_initialize_fields bws_size_def bws_new_def)

theorem Buffered_Sync_delivers_witness:
  "s_data (sinks (snd (snd (bws_Sync sample_env (bws sample_stopped) (io sample_stopped)))) 0) = ''ab''"
proof -
  obtain e s st where y: "bws_Sync sample_env (bws sample_stopped) (io sample_stopped) = (e, s, st)"
    by (metis prod.exhaust)
  then have "e = None"
    by (auto simp: bws_Sync_def sample_stopped_def sample_written_def bws_initialize_fields bufio_Flush_def
        bws_new_def sample_start_def binit_def sample_ios_def on_sink_def sink_Write_def sink_Sync_def
        sample_env_def bws_initialize_def Let_def)
  then show ?thesis
    using Buffered_Sync_delivers [OF sample_hyps, of s st] y
    by (simp add: sample_stopped_def sample_written_def sample_start_def binit_def sample_ios_def)
qed

theorem Buffered_no_deadlock_witness:
  "callers sample_stopped ! 1 = StopWait \<and> (\<exists>c'. bstep sample_env sample_stopped c')"
  using Buffered_no_deadlock [OF sample_hyps, of 1]
  by (simp add: sample_stopped_def)

theorem Buffered_Stop_terminates_witness:
  "\<exists>c'. bstep sample_env sample_stopped c' \<and> floop c' = Exited \<and> 1 + steps_left c' \<le> 4"
proof -
  let ?c = "sample_stopped\<lparr>floop := Exited, bws := (bws sample_stopped)\<lparr>done_closed := True\<rparr>\<rparr>"
  have st: "stopped (bws sample_stopped)" "floop sample_stopped = Select" "steps_left sample_stopped = 4"
    "stop_closed (bws sample_stopped)"
    by (simp_all add: sample_stopped_def sample_written_def sample_start_def binit_def steps_left_def)
  then have s: "bstep sample_env sample_stopped ?c" using bstep.loop_stop by blast
  then have "(bstep sample_env ^^ 1) sample_stopped ?c" by auto
  then show ?thesis
    using s st Buffered_Stop_terminates [OF sample_hyps st(1)] by fastforce
qed

section \<open>A writer that breaks the contract\<close>

lemma bufio_loop_diverges:
  assumes "wr p s = ((0, None), s)"
  shows "bw_err b = None \<Longrightarrow> bw_buf b = [] \<Longrightarrow> bw_size b < length p \<Longrightarrow> bufio_loop wr b p nn s = None"
proof (rule ccontr)
  assume a: "bw_err b = None" "bw_buf b = []" "bw_size b < length p" "bufio_loop wr b p nn s \<noteq> None"
  then obtain r where r: "bufio_loop wr b p nn s = Some r" by blast
  have "wr p s = ((0, None), s) \<longrightarrow> bw_err b = None \<longrightarrow> bw_buf b = [] \<longrightarrow> \<not> bw_size b < length p"
    by (rule bufio_loop.raw_induct [OF _ r, where P = "\<lambda>wr b p nn s r.
        wr p s = ((0, None), s) \<longrightarrow> bw_err b = None \<longrightarrow> bw_buf b = [] \<longrightarrow> \<not> bw_size b < length p"])
      (auto simp: bufio_Available_def bufio_Buffered_def split: if_splits, fastforce)
  then show False using a assms by blast
qed

text \<open>
  C40: a group without writers reports that it wrote nothing and no error.  Over such a group a
  \<open>Write\<close> that is larger than the buffer never returns: \<open>bufio.Writer\<close> tries the same write again
  and again while the mutex is held.
\<close>

theorem Buffered_empty_group_hangs:
  assumes "bws_size s < length p" and "\<not> initialized s" and "WS s = NewMultiWriteSyncer []"
  shows "bws_Write E s p st = None"
proof -
  let ?s = "bws_initialize s"
  have w: "ws_Write E (WS ?s) p st = ((0, None), st)"
    by (simp add: bws_initialize_fields assms(3) NewMultiWriteSyncer_def)
  have b: "bw_err (bwriter ?s) = None" "bw_buf (bwriter ?s) = []" "bw_size (bwriter ?s) < length p"
    using assms(1) by (auto simp: bws_initialize_def bufio_NewWriterSize_def Let_def bws_size_def
        defaultBufferSize_def)
  show ?thesis
    using assms(2) b bufio_loop_diverges [of "ws_Write E (WS ?s)" p st "bwriter ?s", OF w b]
    by (simp add: bws_Write_def bufio_Write_def bufio_Buffered_def Let_def)
qed

theorem Buffered_empty_group_hangs_witness:
  "bws_Write sample_env (bws_new (NewMultiWriteSyncer []) 2 0) ''abc'' sample_ios = None"
  by (rule Buffered_empty_group_hangs) (simp_all add: bws_size_def bws_new_def)

end
