(* ===== verification/Lad_Console.thy ===== *)
theory Lad_Console
  imports Lad_Json_Correct
begin

text \<open>
  The in-memory encoders (\<open>ladcore/memory_encoder.go\<close>) and the console encoder
  (\<open>ladcore/console_encoder.go\<close>), which prints the metadata of an entry from a
  \<open>sliceArrayEncoder\<close> and its fields as JSON.
\<close>

section \<open>The in-memory encoders\<close>

text \<open>
  The values of type \<open>interface{}\<close> that the in-memory encoders collect.  A byte string is stored
  as a string.
\<close>

datatype 'v mval =
    MPrim prim
  | MBinary bytes
  | MDuration int64
  | MTime time
  | MReflected "'v iface"
  | MSlice "'v mval list"
  | MMap "bytes \<Rightarrow> 'v mval option"

type_synonym 'v mmap = "bytes \<Rightarrow> 'v mval option"

fun mem_prim :: "prim \<Rightarrow> 'v mval" where
  "mem_prim (PByteString v) = MPrim (PString v)"
| "mem_prim v = MPrim v"

text \<open>
  \<open>MapObjectEncoder\<close> and \<open>sliceArrayEncoder\<close> as interpreters of marshalers.  The map that is
  threaded through is \<open>cur\<close>; what follows \<open>OpenNamespace\<close> goes to a new map under the key.
\<close>

primrec map_obj :: "'v obj_prog \<Rightarrow> 'v mmap \<Rightarrow> ('v mmap \<times> error option) outcome"
  and slice_arr :: "'v arr_prog \<Rightarrow> 'v mval list \<Rightarrow> ('v mval list \<times> error option) outcome"
where
  "map_obj (ORet err) m = Ok (m, err)"
| "map_obj (OPanic s) m = Panic s"
| "map_obj (OPrim k v p) m = map_obj p (m(k \<mapsto> mem_prim v))"
| "map_obj (OBinary k v p) m = map_obj p (m(k \<mapsto> MBinary v))"
| "map_obj (ODuration k v p) m = map_obj p (m(k \<mapsto> MDuration v))"
| "map_obj (OTime k v p) m = map_obj p (m(k \<mapsto> MTime v))"
| "map_obj (OArray k a g) m =
     (case slice_arr a [] of
        Panic s \<Rightarrow> Panic s
      | Ok (xs, err) \<Rightarrow> map_obj (g err) (m(k \<mapsto> MSlice xs)))"
| "map_obj (OObject k a g) m =
     (case map_obj a Map.empty of
        Panic s \<Rightarrow> Panic s
      | Ok (n, err) \<Rightarrow> map_obj (g err) (m(k \<mapsto> MMap n)))"
| "map_obj (OReflected k v g) m = map_obj (g None) (m(k \<mapsto> MReflected v))"
| "map_obj (ONamespace k p) m =
     (case map_obj p Map.empty of
        Panic s \<Rightarrow> Panic s
      | Ok (n, err) \<Rightarrow> Ok (m(k \<mapsto> MMap n), err))"
| "slice_arr (ARet err) xs = Ok (xs, err)"
| "slice_arr (APanic s) xs = Panic s"
| "slice_arr (APrim v p) xs = slice_arr p (xs @ [mem_prim v])"
| "slice_arr (ADuration v p) xs = slice_arr p (xs @ [MDuration v])"
| "slice_arr (ATime v p) xs = slice_arr p (xs @ [MTime v])"
| "slice_arr (AArray a g) xs =
     (case slice_arr a [] of
        Panic s \<Rightarrow> Panic s
      | Ok (ys, err) \<Rightarrow> slice_arr (g err) (xs @ [MSlice ys]))"
| "slice_arr (AObject a g) xs =
     (case map_obj a Map.empty of
        Panic s \<Rightarrow> Panic s
      | Ok (n, err) \<Rightarrow> slice_arr (g err) (xs @ [MMap n]))"
| "slice_arr (AReflected v g) xs = slice_arr (g None) (xs @ [MReflected v])"

definition NewMapObjectEncoder :: "'v mmap" where
  "NewMapObjectEncoder = Map.empty"

section \<open>The console encoder\<close>

text \<open>
  The metadata passes through a \<open>sliceArrayEncoder\<close>, which has no \<open>AppendTimeLayout\<close>, so a layout
  is formatted at once.  Here its elements are the primitive values the configured encoders
  append, printed by \<open>fmt.Fprint\<close>.
\<close>

fun slice_tcall :: "'v env \<Rightarrow> tcall \<Rightarrow> prim" where
  "slice_tcall E (TPrim v) = v"
| "slice_tcall E (TLayout t layout) = PString (TimeFormat E t layout)"

fun fprint :: "'v env \<Rightarrow> prim \<Rightarrow> bytes" where
  "fprint E (PBool v) = (if v then ''true'' else ''false'')"
| "fprint E (PByteString v) = v"
| "fprint E (PString v) = v"
| "fprint E (PInt v) = dec_int (sint v)"
| "fprint E (PInt64 v) = dec_int (sint v)"
| "fprint E (PInt32 v) = dec_int (sint v)"
| "fprint E (PInt16 v) = dec_int (sint v)"
| "fprint E (PInt8 v) = dec_int (sint v)"
| "fprint E (PUint v) = dec_nat (unat v)"
| "fprint E (PUint64 v) = dec_nat (unat v)"
| "fprint E (PUint32 v) = dec_nat (unat v)"
| "fprint E (PUint16 v) = dec_nat (unat v)"
| "fprint E (PUint8 v) = dec_nat (unat v)"
| "fprint E (PUintptr v) = dec_nat (unat v)"
| "fprint E v = FloatString E v"

definition NewConsoleEncoder :: "'v env \<Rightarrow> 'v EncoderConfig \<Rightarrow> 'v jsonEncoder" where
  "NewConsoleEncoder E c =
     (let c = (if ConsoleSeparator c = [] then c\<lparr>ConsoleSeparator := [CHR 0x09]\<rparr> else c)
      in newJSONEncoder E c True)"

definition console_elems :: "'v env \<Rightarrow> 'v EncoderConfig \<Rightarrow> Entry \<Rightarrow> prim list" where
  "console_elems E c ent =
     (if TimeKey c \<noteq> [] \<and> EncodeTime c \<noteq> None \<and> \<not> IsZero (ent_Time ent)
      then map (slice_tcall E) (the (EncodeTime c) (ent_Time ent)) else []) @
     (if LevelKey c \<noteq> [] \<and> EncodeLevel c \<noteq> None then the (EncodeLevel c) (ent_Level ent) else []) @
     (if ent_LoggerName ent \<noteq> [] \<and> NameKey c \<noteq> []
      then (case EncodeName c of None \<Rightarrow> FullNameEncoder | Some f \<Rightarrow> f) (ent_LoggerName ent) else []) @
     (if Defined (ent_Caller ent) then
        (if CallerKey c \<noteq> [] \<and> EncodeCaller c \<noteq> None then the (EncodeCaller c) (ent_Caller ent) else []) @
        (if FunctionKey c \<noteq> [] then [PString (Function (ent_Caller ent))] else [])
      else [])"

text \<open>The loop over the elements; the flag is \<open>i > 0\<close>.\<close>

primrec print_elems :: "'v env \<Rightarrow> bytes \<Rightarrow> bool \<Rightarrow> prim list \<Rightarrow> buffer \<Rightarrow> buffer" where
  "print_elems E sep notfirst [] line = line"
| "print_elems E sep notfirst (x # xs) line =
     (let line = (if notfirst then AppendString line sep else line)
      in print_elems E sep True xs (fst (buf_Write line (fprint E x))))"

definition addSeparatorIfNecessary :: "'v EncoderConfig \<Rightarrow> buffer \<Rightarrow> buffer" where
  "addSeparatorIfNecessary c line = (if 0 < buf_Len line then AppendString line (ConsoleSeparator c) else line)"

definition writeContext ::
  "'v env \<Rightarrow> 'v jsonEncoder \<Rightarrow> 'v Field list \<Rightarrow> buffer \<Rightarrow> buffer outcome" where
  "writeContext E enc extra line =
     (case json_addFields E extra (json_Clone enc) of
        Panic m \<Rightarrow> Panic m
      | Ok context \<Rightarrow>
          let context = closeOpenNamespaces context in
          if buf_Len (buf context) = 0 then Ok line
          else Ok (AppendByte (fst (buf_Write
                 (AppendByte (addSeparatorIfNecessary (cfg enc) line) (CHR 0x7B)) (buf context))) (CHR 0x7D)))"

definition console_EncodeEntry ::
  "'v env \<Rightarrow> 'v jsonEncoder \<Rightarrow> Entry \<Rightarrow> 'v Field list \<Rightarrow> bytes outcome" where
  "console_EncodeEntry E enc ent fs =
     (let c = cfg enc;
          line = print_elems E (ConsoleSeparator c) False (console_elems E c ent) [];
          line = (if MessageKey c \<noteq> [] then AppendString (addSeparatorIfNecessary c line) (ent_Message ent)
                  else line)
      in case writeContext E enc fs line of
           Panic m \<Rightarrow> Panic m
         | Ok line \<Rightarrow>
             let line = (if ent_Stack ent \<noteq> [] \<and> StacktraceKey c \<noteq> []
                         then AppendString (AppendByte line (CHR 0x0A)) (ent_Stack ent) else line)
             in Ok (AppendString line (LineEnding c)))"

section \<open>Properties\<close>

text \<open>The separator between the parts of a line.\<close>

definition join_sep :: "bytes \<Rightarrow> bytes list \<Rightarrow> bytes" where
  "join_sep sep xs = (case xs of [] \<Rightarrow> [] | x # ys \<Rightarrow> x @ concat (map (\<lambda>y. sep @ y) ys))"

lemma print_elems_join:
  "print_elems E sep True xs line = line @ concat (map (\<lambda>y. sep @ fprint E y) xs)"
  "print_elems E sep False xs line = line @ join_sep sep (map (fprint E) xs)"
proof -
  show t: "print_elems E sep True xs line = line @ concat (map (\<lambda>y. sep @ fprint E y) xs)" for xs line
    by (induction xs arbitrary: line) (simp_all add: Let_def AppendString_def buf_Write_def)
  show "print_elems E sep False xs line = line @ join_sep sep (map (fprint E) xs)"
    by (cases xs) (simp_all add: t join_sep_def Let_def buf_Write_def comp_def)
qed

text \<open>The first part of a line: the metadata and, after a separator, the message.\<close>

definition console_head :: "'v env \<Rightarrow> 'v EncoderConfig \<Rightarrow> Entry \<Rightarrow> bytes" where
  "console_head E c ent =
     (let meta = join_sep (ConsoleSeparator c) (map (fprint E) (console_elems E c ent))
      in if MessageKey c = [] then meta
         else if meta = [] then ent_Message ent
         else meta @ ConsoleSeparator c @ ent_Message ent)"

definition console_tail :: "'v EncoderConfig \<Rightarrow> Entry \<Rightarrow> bytes" where
  "console_tail c ent =
     (if ent_Stack ent \<noteq> [] \<and> StacktraceKey c \<noteq> [] then CHR 0x0A # ent_Stack ent else []) @ LineEnding c"

lemma writeContext_text:
  assumes "values_ok E (cfg enc) rv" and "spaced enc"
    and "buf enc = items_text True False ctx" "items_ok ctx" "openNamespaces enc = opens ctx"
    and "obj_items E (cfg enc) rv (addFields fs) = Ok (is, err)"
  shows "writeContext E enc fs line =
      Ok (if ctx @ is = [] then line
          else addSeparatorIfNecessary (cfg enc) line @ closed_text True (ctx @ is) [])"
    and "items_ok (ctx @ is)"
proof -
  have cl: "cfg (json_Clone enc) = cfg enc" "spaced (json_Clone enc) = spaced enc"
      "buf (json_Clone enc) = buf enc" "openNamespaces (json_Clone enc) = openNamespaces enc"
    by (simp_all add: json_Clone_def json_clone_def Let_def buf_Write_def)
  have emp: "adds (enc\<lparr>buf := [], openNamespaces := 0\<rparr>) ctx (opens ctx) (json_Clone enc)"
    using assms(2-5) cl by (simp add: adds_def needs_sep_def)
  obtain e where e: "json_addFields E fs (json_Clone enc) = Ok e" "adds (json_Clone enc) is (opens is) e"
    using json_addFields_adds [of E "json_Clone enc" rv fs "is" err] assms(1,6) cl by auto
  from adds_trans [OF emp e(2)]
  have b: "items_ok (ctx @ is)" "buf e = items_text True False (ctx @ is)" "openNamespaces e = opens (ctx @ is)"
    using assms(2) by (auto simp: adds_def needs_sep_def)
  show "items_ok (ctx @ is)" by (rule b(1))
  show "writeContext E enc fs line =
      Ok (if ctx @ is = [] then line
          else addSeparatorIfNecessary (cfg enc) line @ closed_text True (ctx @ is) [])"
    using e(1) b items_text_empty [of True "ctx @ is"]
    by (auto simp: writeContext_def closeOpenNamespaces_emit closed_text_def buf_Len_def closers_def
        AppendByte_def buf_Write_def Let_def)
qed

text \<open>
  C24: a line of the console encoder.  Whatever context fields the encoder got and whatever fields
  the entry has, \<open>EncodeEntry\<close> returns (if no marshaler panics) the printed metadata and the message,
  joined by the separator, then, if there are any fields, a JSON object from which a JSON reader
  recovers the context and the fields, then the stack trace on a line of its own and the line
  ending.
\<close>

theorem console_EncodeEntry_text:
  assumes "c' = cfg (NewConsoleEncoder E c)" and "values_ok E c' rv"
    and "obj_items E c' rv (addFields ctx_fs) = Ok (ctx, err)"
    and "obj_items E c' rv (addFields fs) = Ok (is, err')"
  shows "\<exists>enc body. json_addFields E ctx_fs (NewConsoleEncoder E c) = Ok enc \<and>
    console_EncodeEntry E enc ent fs =
      Ok ((if ctx @ is = [] then console_head E c' ent
           else addSeparatorIfNecessary c' (console_head E c' ent) @ body) @ console_tail c' ent) \<and>
    json_parse body = Some (JObj (mems (ctx @ is)))"
proof -
  define d where "d = (if ConsoleSeparator c = [] then c\<lparr>ConsoleSeparator := [CHR 0x09]\<rparr> else c)"
  have n: "NewConsoleEncoder E c = newJSONEncoder E d True" by (simp add: NewConsoleEncoder_def d_def)
  obtain enc where enc: "json_addFields E ctx_fs (newJSONEncoder E d True) = Ok enc" "cfg enc = c'"
      "spaced enc" "buf enc = items_text True False ctx" "openNamespaces enc = opens ctx" "items_ok ctx"
    using context_encoder [of E d True rv ctx_fs ctx err] assms n by auto
  have w: "writeContext E enc fs line =
      Ok (if ctx @ is = [] then line else addSeparatorIfNecessary c' line @ closed_text True (ctx @ is) [])"
    for line
    using writeContext_text(1) [of E enc rv ctx fs "is" err' line] assms(2,4) enc by simp
  have ok: "items_ok (ctx @ is)"
    using writeContext_text(2) [of E enc rv ctx fs "is" err'] assms(2,4) enc by simp
  have "json_parse (closed_text True (ctx @ is) [] @ []) = Some (JObj (mems (ctx @ is) @ mems []))"
    by (rule closed_text_parses [OF ok]) simp_all
  moreover have "console_EncodeEntry E enc ent fs =
      Ok ((if ctx @ is = [] then console_head E c' ent
           else addSeparatorIfNecessary c' (console_head E c' ent) @ closed_text True (ctx @ is) [])
          @ console_tail c' ent)"
    by (simp add: console_EncodeEntry_def w enc(2) print_elems_join console_head_def console_tail_def
        addSeparatorIfNecessary_def buf_Len_def AppendString_def AppendByte_def Let_def)
  ultimately show ?thesis using enc(1) n by auto
qed

theorem console_EncodeEntry_text_witness:
  "\<exists>enc body. json_addFields sample_env [] (NewConsoleEncoder sample_env sample_config) = Ok enc \<and>
    console_EncodeEntry sample_env enc sample_entry [String ''a'' ''b''] =
      Ok (''2024-01-02'' @ [CHR 0x09] @ ''info'' @ [CHR 0x09] @ ''hi'' @ [CHR 0x22, CHR 0x09] @ body @
        [CHR 0x0A] @ ''main'' @ [CHR 0x0A]) \<and>
    json_parse body = Some (JObj [(''a'', JStr ''b'')])"
proof -
  let ?c = "cfg (NewConsoleEncoder sample_env sample_config)"
  have c: "?c = sample_config\<lparr>ConsoleSeparator := [CHR 0x09], LineEnding := [CHR 0x0A],
      NewReflectedEncoder := Some (JSONEncode sample_env)\<rparr>"
    by (simp add: NewConsoleEncoder_def newJSONEncoder_def sample_config_def DefaultLineEnding_def Let_def)
  have "cfg (NewJSONEncoder sample_env sample_config)\<lparr>ConsoleSeparator := [CHR 0x09]\<rparr> = ?c"
    by (simp add: c sample_cfg)
  then have v: "values_ok sample_env ?c sample_rv"
    using sample_ok by (simp add: entry_ok_def values_ok_def reflect_encode_def c sample_cfg)
  have f: "obj_items sample_env ?c sample_rv (addFields []) = Ok ([], None)"
    "obj_items sample_env ?c sample_rv (addFields [String ''a'' ''b'']) = Ok ([Mem ''a'' (str_leaf ''b'')], None)"
    by (simp_all add: addto_defs field_defs cons_fst_def)
  have lv: "Level_String InfoLevel = ''info''" by code_simp
  have h: "console_head sample_env ?c sample_entry =
      ''2024-01-02'' @ [CHR 0x09] @ ''info'' @ [CHR 0x09] @ ''hi'' @ [CHR 0x22]"
    unfolding c
    by (simp add: console_head_def console_elems_def sample_config_def sample_entry_def IsZero_def
        ISO8601TimeEncoder_def encodeTimeLayout_def LowercaseLevelEncoder_def lv join_sep_def
        sample_env_def zeroCaller_def)
  have t: "console_tail ?c sample_entry = [CHR 0x0A] @ ''main'' @ [CHR 0x0A]"
    unfolding c by (simp add: console_tail_def sample_config_def sample_entry_def)
  have m: "mems [Mem ''a'' (str_leaf ''b'')] = [(''a'', JStr ''b'')]"
    by (simp add: str_leaf_def to_valid_ascii)
  show ?thesis
    using console_EncodeEntry_text [OF refl v f, of sample_entry] h t m
    by (simp add: addSeparatorIfNecessary_def buf_Len_def AppendString_def c)
qed

end
