(* ===== verification/Lad_Sampler.thy ===== *)
theory Lad_Sampler
  imports Lad_Encoder
begin

text \<open>
  The counters of the sampling core (\<open>ladcore/sampler.go\<close>): the hash that chooses a counter, the
  counter with its time window, and the decision.  The core itself is in \<open>Lad_Core\<close>.
\<close>

unbundle bit_operations_syntax

section \<open>Counters\<close>

record counter =
  resetAt :: int64
  count :: uint64

type_synonym counters = "nat \<Rightarrow> nat \<Rightarrow> counter"

definition newCounters :: counters where
  "newCounters = (\<lambda>i j. \<lparr>resetAt = 0, count = 0\<rparr>)"

definition numLevels :: int where
  "numLevels = sint (lvl maxLevel) - sint (lvl minLevel) + 1"

definition countersPerLevel :: uint32 where
  "countersPerLevel = 4096"

definition fnv32a :: "bytes \<Rightarrow> uint32" where
  "fnv32a s = foldl (\<lambda>hash c. (hash XOR of_nat (bval c)) * 16777619) 2166136261 s"

text \<open>The indices of a counter; the caller has checked that the level is in range.\<close>

definition counters_get :: "level \<Rightarrow> bytes \<Rightarrow> nat \<times> nat" where
  "counters_get l key = (nat (sint (lvl l - lvl minLevel)), unat (fnv32a key mod countersPerLevel))"

text \<open>\<open>IncCheckReset\<close> without interference; \<open>Duration.Nanoseconds\<close> is the duration itself.\<close>

definition IncCheckReset :: "time \<Rightarrow> int64 \<Rightarrow> counter \<Rightarrow> uint64 \<times> counter" where
  "IncCheckReset t dur c =
     (let tn = UnixNano t; resetAfter = resetAt c in
      if sint tn < sint resetAfter then (count c + 1, c\<lparr>count := count c + 1\<rparr>)
      else (1, c\<lparr>count := 1, resetAt := tn + dur\<rparr>))"

section \<open>Decisions\<close>

type_synonym SamplingDecision = uint32

definition LogDropped :: SamplingDecision where "LogDropped = push_bit 0 1"
definition LogSampled :: SamplingDecision where "LogSampled = push_bit 1 1"

definition sampler_drops :: "uint64 \<Rightarrow> uint64 \<Rightarrow> uint64 \<Rightarrow> bool" where
  "sampler_drops first thereafter n \<longleftrightarrow>
     first < n \<and> (thereafter = 0 \<or> (n - first) mod thereafter \<noteq> 0)"

text \<open>The counts that a sequence of calls on one counter gets.\<close>

primrec inc_all :: "int64 \<Rightarrow> time list \<Rightarrow> counter \<Rightarrow> uint64 list \<times> counter" where
  "inc_all dur [] c = ([], c)"
| "inc_all dur (t # ts) c =
     (let (n, c1) = IncCheckReset t dur c; (ns, c2) = inc_all dur ts c1 in (n # ns, c2))"

section \<open>One window\<close>

lemma counters_get_range:
  assumes "minLevel \<le> l" and "l \<le> maxLevel"
  shows "fst (counters_get l key) < nat numLevels" and "snd (counters_get l key) < 4096"
proof -
  have l: "- 1 \<le> sint (lvl l)" "sint (lvl l) \<le> 5" using assms by (auto simp: level_simps)
  have "sint (lvl l - lvl minLevel) = signed_take_bit 7 (sint (lvl l) + 1)"
    by (simp add: minLevel_def DebugLevel_def sint_word_ariths)
  also have "\<dots> = sint (lvl l) + 1" using l by (intro signed_take_bit_int_eq_self) auto
  finally show "fst (counters_get l key) < nat numLevels"
    using l by (simp add: counters_get_def numLevels_def maxLevel_def minLevel_def FatalLevel_def DebugLevel_def)
  have "unat (fnv32a key mod countersPerLevel) < unat countersPerLevel"
    by (simp add: unat_mod_distrib countersPerLevel_def)
  then show "snd (counters_get l key) < 4096" by (simp add: counters_get_def countersPerLevel_def)
qed

lemma inc_all_window:
  assumes "\<forall>t \<in> set ts. sint (UnixNano t) < sint (resetAt c)"
  shows "inc_all dur ts c =
    (map (\<lambda>i. count c + of_nat i) [1..<Suc (length ts)], c\<lparr>count := count c + of_nat (length ts)\<rparr>)"
  using assms
proof (induction ts arbitrary: c)
  case (Cons t ts)
  let ?c = "c\<lparr>count := count c + 1\<rparr>"
  have "map (\<lambda>i. count ?c + of_nat i) [1..<Suc (length ts)] =
      map (\<lambda>i. count c + of_nat i) (map Suc [1..<Suc (length ts)])"
    by (simp add: add.assoc)
  then show ?case using Cons.IH [of ?c] Cons.prems
    by (simp add: IncCheckReset_def Let_def map_Suc_upt upt_conv_Cons add.assoc del: upt_Suc map_map)
qed simp

text \<open>How many of the first \<open>N\<close> entries of a window are logged.\<close>

definition logged_upto :: "nat \<Rightarrow> nat \<Rightarrow> nat \<Rightarrow> nat" where
  "logged_upto F T N = min N F + (if T = 0 then 0 else (N - F) div T)"

lemma logged_upto_Suc:
  "logged_upto F T (Suc N) = logged_upto F T N +
     (if N < F \<or> T \<noteq> 0 \<and> (Suc N - F) mod T = 0 then 1 else 0)"
proof (cases "N < F")
  case False
  then have "(Suc N - F) div T = (if Suc (N - F) mod T = 0 then Suc ((N - F) div T) else (N - F) div T)"
    by (simp add: Suc_diff_le div_Suc)
  then show ?thesis using False by (auto simp: logged_upto_def Suc_diff_le)
qed (auto simp: logged_upto_def)

lemma sampler_drops_nat:
  assumes "n < 2 ^ 64"
  shows "sampler_drops first thereafter (of_nat n) \<longleftrightarrow>
    unat first < n \<and> (unat thereafter = 0 \<or> (n - unat first) mod unat thereafter \<noteq> 0)"
proof -
  have n: "unat (of_nat n :: uint64) = n" using assms by (simp add: unat_of_nat take_bit_nat_eq_self)
  have d: "unat (of_nat n - first) = n - unat first" if "first < of_nat n"
    using that n by (simp add: unat_sub less_imp_le)
  have m: "(of_nat n - first) mod thereafter = 0 \<longleftrightarrow> (n - unat first) mod unat thereafter = 0"
    if "first < of_nat n"
    using d [OF that] by (simp add: unat_eq_0 [symmetric] unat_mod_distrib)
  have l: "first < of_nat n \<longleftrightarrow> unat first < n" using n by (simp add: word_less_nat_alt)
  have z: "thereafter = 0 \<longleftrightarrow> unat thereafter = 0" by (simp add: unat_eq_0)
  show ?thesis
  proof (cases "first < (of_nat n :: uint64)")
    case True
    show ?thesis unfolding sampler_drops_def by (simp only: m [OF True] l z)
  next
    case False
    then show ?thesis unfolding sampler_drops_def using l by simp
  qed
qed

lemma logged_count:
  assumes "N < 2 ^ 64"
  shows "length (filter (\<lambda>n. \<not> sampler_drops first thereafter n) (map of_nat [1..<Suc N])) =
    logged_upto (unat first) (unat thereafter) N"
  using assms
proof (induction N)
  case 0
  then show ?case by (simp add: logged_upto_def)
next
  case (Suc N)
  then have "sampler_drops first thereafter (of_nat (Suc N)) \<longleftrightarrow>
      \<not> (N < unat first \<or> unat thereafter \<noteq> 0 \<and> (Suc N - unat first) mod unat thereafter = 0)"
    using sampler_drops_nat [of "Suc N"] by (auto simp del: of_nat_Suc)
  then show ?case using Suc by (simp add: logged_upto_Suc del: of_nat_Suc)
qed

section \<open>Properties\<close>

text \<open>
  C25: sampling of one window.  Take a counter whose window has ended, and \<open>N\<close> calls that follow
  each other, the first at \<open>t\<close> and all before the window of length \<open>dur\<close> that starts there is
  over.  The calls get the counts from 1 to \<open>N\<close>.  So, with the limits \<open>first\<close> and \<open>thereafter\<close>, the
  sampler logs the first \<open>first\<close> entries and then every \<open>thereafter\<close>-th one (none if that is 0).
\<close>

theorem sampler_window:
  assumes "sint (resetAt c) \<le> sint (UnixNano t)"
    and "sint (UnixNano t + dur) = sint (UnixNano t) + sint dur"
    and "\<forall>u \<in> set ts. sint (UnixNano u) < sint (UnixNano t) + sint dur"
    and "length (t # ts) < 2 ^ 64"
    and "inc_all dur (t # ts) c = (ns, c')"
  shows "ns = map of_nat [1..<Suc (length (t # ts))] \<and> resetAt c' = UnixNano t + dur \<and>
    length (filter (\<lambda>n. \<not> sampler_drops first thereafter n) ns) =
      logged_upto (unat first) (unat thereafter) (length (t # ts))"
proof -
  let ?c = "c\<lparr>count := 1, resetAt := UnixNano t + dur\<rparr>"
  have i: "IncCheckReset t dur c = (1, ?c)" using assms(1) by (simp add: IncCheckReset_def Let_def)
  have r: "inc_all dur ts ?c = (map (\<lambda>i. 1 + of_nat i) [1..<Suc (length ts)],
      ?c\<lparr>count := 1 + of_nat (length ts)\<rparr>)"
    using inc_all_window [of ts ?c dur] assms(2,3) by simp
  have "ns = 1 # map (\<lambda>i. 1 + of_nat i) [1..<Suc (length ts)]" "resetAt c' = UnixNano t + dur"
    using assms(5) i r by (auto simp: Let_def)
  moreover have "map (\<lambda>i. 1 + of_nat i) [1..<Suc (length ts)] = map of_nat (map Suc [1..<Suc (length ts)])"
    by simp
  ultimately have "ns = map of_nat [1..<Suc (length (t # ts))]" "resetAt c' = UnixNano t + dur"
    by (simp_all add: map_Suc_upt upt_conv_Cons del: upt_Suc map_map)
  then show ?thesis using logged_count [OF assms(4), of first thereafter] by simp
qed

theorem sampler_window_witness:
  "fst (inc_all 100 [Instant 50 UTC, Instant 60 UTC, Instant 149 UTC] \<lparr>resetAt = 50, count = 7\<rparr>)
     = [1, 2, 3] \<and>
   length (filter (\<lambda>n. \<not> sampler_drops 1 2 n) [1, 2, 3]) = 2"
proof -
  let ?ts = "[Instant 60 UTC, Instant 149 UTC]" and ?c = "\<lparr>resetAt = 50, count = 7\<rparr>"
  obtain ns c' where r: "inc_all 100 (Instant 50 UTC # ?ts) ?c = (ns, c')" by fastforce
  have "ns = map of_nat [1..<Suc (length (Instant 50 UTC # ?ts))] \<and> resetAt c' = UnixNano (Instant 50 UTC) + 100 \<and>
      length (filter (\<lambda>n. \<not> sampler_drops 1 2 n) ns) = logged_upto (unat (1 :: uint64)) (unat (2 :: uint64)) (length (Instant 50 UTC # ?ts))"
    by (rule sampler_window [OF _ _ _ _ r]) (simp_all add: UnixNano_def)
  moreover have "logged_upto (unat (1 :: uint64)) (unat (2 :: uint64)) (length (Instant 50 UTC # ?ts)) = 2"
    by (simp add: logged_upto_def)
  moreover have "map of_nat [1..<Suc (length (Instant 50 UTC # ?ts))] = [1, 2, 3 :: uint64]" by simp
  ultimately show ?thesis using r by (metis fst_conv)
qed

section \<open>Racing callers\<close>

text \<open>
  \<open>IncCheckReset\<close> on a counter that other goroutines use at the same time: every access to
  \<open>resetAt\<close> and \<open>counter\<close> is a step of its own.  \<open>windows\<close> records, newest first, the values of
  \<open>resetAt\<close> that a successful \<open>CompareAndSwap\<close> has replaced.
\<close>

datatype inc_pc = Load | Inc | Store1 int64 | CAS int64 | IncAfterRace | Counted uint64

record race =
  cell :: counter
  pcs :: "(int64 \<times> inc_pc) list"
  windows :: "int64 list"

inductive inc_step :: "int64 \<Rightarrow> race \<Rightarrow> race \<Rightarrow> bool" for dur where
  load: "j < length (pcs r) \<Longrightarrow> pcs r ! j = (tn, Load) \<Longrightarrow>
    inc_step dur r (r\<lparr>pcs := (pcs r)[j := (tn, if sint tn < sint (resetAt (cell r)) then Inc
                                          else Store1 (resetAt (cell r)))]\<rparr>)"
| inc: "j < length (pcs r) \<Longrightarrow> pcs r ! j = (tn, pc) \<Longrightarrow> pc = Inc \<or> pc = IncAfterRace \<Longrightarrow>
    inc_step dur r (r\<lparr>cell := (cell r)\<lparr>count := count (cell r) + 1\<rparr>,
                      pcs := (pcs r)[j := (tn, Counted (count (cell r) + 1))]\<rparr>)"
| store: "j < length (pcs r) \<Longrightarrow> pcs r ! j = (tn, Store1 old) \<Longrightarrow>
    inc_step dur r (r\<lparr>cell := (cell r)\<lparr>count := 1\<rparr>, pcs := (pcs r)[j := (tn, CAS old)]\<rparr>)"
| cas_ok: "j < length (pcs r) \<Longrightarrow> pcs r ! j = (tn, CAS old) \<Longrightarrow> resetAt (cell r) = old \<Longrightarrow>
    inc_step dur r (r\<lparr>cell := (cell r)\<lparr>resetAt := tn + dur\<rparr>, pcs := (pcs r)[j := (tn, Counted 1)],
                      windows := old # windows r\<rparr>)"
| cas_lost: "j < length (pcs r) \<Longrightarrow> pcs r ! j = (tn, CAS old) \<Longrightarrow> resetAt (cell r) \<noteq> old \<Longrightarrow>
    inc_step dur r (r\<lparr>pcs := (pcs r)[j := (tn, IncAfterRace)]\<rparr>)"

inductive_cases inc_stepE: "inc_step dur r r'"

text \<open>A caller that is about to reset read a time limit that is not after its own time.\<close>

definition saw_expired :: "int64 \<times> inc_pc \<Rightarrow> bool" where
  "saw_expired x = (case snd x of Store1 old \<Rightarrow> sint old \<le> sint (fst x) | CAS old \<Rightarrow> sint old \<le> sint (fst x)
     | _ \<Rightarrow> True)"

definition no_overflow :: "int64 \<Rightarrow> int64 \<times> inc_pc \<Rightarrow> bool" where
  "no_overflow dur x \<longleftrightarrow> sint (fst x + dur) = sint (fst x) + sint dur"

definition race_inv :: "int64 \<Rightarrow> race \<Rightarrow> bool" where
  "race_inv dur r \<longleftrightarrow> list_all saw_expired (pcs r) \<and> list_all (no_overflow dur) (pcs r) \<and>
     sorted_wrt (\<lambda>a b. sint b < sint a) (resetAt (cell r) # windows r)"

lemma race_inv_pc:
  assumes "list_all P ps" and "j < length ps" and "P x"
  shows "list_all P (ps[j := x])"
  using assms set_update_subset_insert [of ps j x] by (auto simp: list_all_iff)

lemma race_inv_step:
  assumes "inc_step dur r r'" and "0 < sint dur" and "race_inv dur r"
  shows "race_inv dur r'"
proof -
  have inv: "list_all saw_expired (pcs r)" "list_all (no_overflow dur) (pcs r)"
    "sorted_wrt (\<lambda>a b. sint b < sint a) (resetAt (cell r) # windows r)"
    using assms(3) by (auto simp: race_inv_def)
  have at: "saw_expired (pcs r ! j)" "no_overflow dur (pcs r ! j)" if "j < length (pcs r)" for j
    using inv that by (auto simp: list_all_length)
  note race = race_inv_def saw_expired_def no_overflow_def
  show ?thesis using assms(1)
  proof cases
    case (load j tn)
    then show ?thesis using inv at [of j] by (auto simp: race intro!: race_inv_pc)
  next
    case (inc j tn pc)
    then show ?thesis using inv at [of j] by (auto simp: race intro!: race_inv_pc)
  next
    case (store j tn old)
    then show ?thesis using inv at [of j] by (auto simp: race intro!: race_inv_pc)
  next
    case (cas_ok j tn old)
    then show ?thesis using inv assms(2) at [of j] by (fastforce simp: race intro!: race_inv_pc)
  next
    case (cas_lost j tn old)
    then show ?thesis using inv at [of j] by (auto simp: race intro!: race_inv_pc)
  qed
qed

text \<open>
  C26: racing callers.  However the steps of any number of callers interleave, every value of
  \<open>resetAt\<close> is replaced at most once, and the limits only move forward: of all the callers that see
  the same expired window, one starts the next window, and the others lose the race.
\<close>

theorem sampler_one_reset:
  assumes "0 < sint dur" and "list_all (no_overflow dur) ps" and "list_all (\<lambda>x. snd x = Load) ps"
    and "(inc_step dur)\<^sup>*\<^sup>* \<lparr>cell = c, pcs = ps, windows = []\<rparr> r"
  shows "distinct (windows r) \<and> sorted_wrt (\<lambda>a b. sint b < sint a) (resetAt (cell r) # windows r)"
proof -
  have "race_inv dur r" using assms(4)
  proof (induction rule: rtranclp_induct)
    case base
    then show ?case using assms(2,3) by (auto simp: race_inv_def saw_expired_def list_all_iff split: inc_pc.splits)
  next
    case (step r r')
    then show ?case using race_inv_step assms(1) by blast
  qed
  moreover have "sorted_wrt (\<lambda>a b. sint b < sint a) xs \<Longrightarrow> distinct xs" for xs :: "int64 list"
    by (induction xs) auto
  ultimately show ?thesis by (auto simp: race_inv_def)
qed

theorem sampler_one_reset_witness:
  "\<exists>r. (inc_step 100)\<^sup>*\<^sup>* \<lparr>cell = \<lparr>resetAt = 50, count = 7\<rparr>, pcs = [(60, Load), (61, Load)], windows = []\<rparr> r \<and>
     windows r = [50] \<and> distinct (windows r) \<and> sint (50 :: int64) < sint (resetAt (cell r))"
proof -
  let ?c = "\<lparr>resetAt = 50, count = 7\<rparr> :: counter" and ?l = "(61, Load) :: int64 \<times> inc_pc"
  let ?r0 = "\<lparr>cell = ?c, pcs = [(60, Load), ?l], windows = []\<rparr>"
  let ?r1 = "\<lparr>cell = ?c, pcs = [(60, Store1 50), ?l], windows = []\<rparr>"
  let ?r2 = "\<lparr>cell = \<lparr>resetAt = 50, count = 1\<rparr>, pcs = [(60, CAS 50), ?l], windows = []\<rparr>"
  let ?r3 = "\<lparr>cell = \<lparr>resetAt = 160, count = 1\<rparr>, pcs = [(60, Counted 1), ?l], windows = [50]\<rparr>"
  have "inc_step 100 ?r0 ?r1" using inc_step.load [of 0 ?r0 60 100] by simp
  moreover have "inc_step 100 ?r1 ?r2" using inc_step.store [of 0 ?r1 60 50 100] by simp
  moreover have "inc_step 100 ?r2 ?r3" using inc_step.cas_ok [of 0 ?r2 60 50 100] by simp
  ultimately have r: "(inc_step 100)\<^sup>*\<^sup>* ?r0 ?r3" by (meson converse_rtranclp_into_rtranclp rtranclp.rtrancl_refl)
  have "distinct (windows ?r3) \<and> sorted_wrt (\<lambda>a b. sint b < sint a) (resetAt (cell ?r3) # windows ?r3)"
    by (rule sampler_one_reset [OF _ _ _ r]) (simp_all add: no_overflow_def)
  then show ?thesis using r by (intro exI [of _ ?r3]) simp
qed

end
