(* ===== verification/Lad_Core.thy ===== *)
theory Lad_Core
  imports Lad_WriteSyncer Lad_Console Lad_Sampler "HOL-Library.Sublist"
begin

text \<open>
  Cores and checked entries: \<open>ladcore/core.go\<close>, \<open>tee.go\<close>, \<open>hook.go\<close>, \<open>increase_level.go\<close>,
  \<open>lazy_with.go\<close>, the core of \<open>sampler.go\<close>, the core of \<open>ladtest/observer/observer.go\<close>, and
  \<open>CheckedEntry\<close> of \<open>ladcore/entry.go\<close>.  The implementations of the interface \<open>Core\<close> are one data
  type, and each of its methods is a function on it.
\<close>

section \<open>State\<close>

text \<open>
  What calls on cores change: the destinations, the cells of atomic levels, the counters of
  samplers, the \<open>sync.Once\<close> of lazy cores, the logs of observers, and the calls that user hooks
  have received.
\<close>

datatype once = NotDone | Done | DonePanicked

record 'v world = ios +
  cells :: atomics
  samples :: "nat \<Rightarrow> counters"
  onces :: "nat \<Rightarrow> once"
  observed :: "nat \<Rightarrow> (Entry \<times> 'v Field list) list"
  hooks_run :: "(nat \<times> Entry) list"
  decisions :: "(nat \<times> Entry \<times> SamplingDecision) list"

section \<open>Encoders\<close>

text \<open>
  The interface \<open>Encoder\<close>: the two encoders of the library, or one that was registered by the
  user, given by the context it collected and the function that encodes an entry.
\<close>

datatype 'v encoder =
    JSONEnc "'v jsonEncoder"
  | ConsoleEnc "'v jsonEncoder"
  | CustomEnc "'v Field list" "'v Field list \<Rightarrow> Entry \<Rightarrow> 'v Field list \<Rightarrow> (error + bytes) outcome"

definition enc_Clone :: "'v encoder \<Rightarrow> 'v encoder" where
  "enc_Clone enc =
     (case enc of
        JSONEnc e \<Rightarrow> JSONEnc (json_Clone e)
      | ConsoleEnc e \<Rightarrow> ConsoleEnc (json_Clone e)
      | CustomEnc ctx f \<Rightarrow> CustomEnc ctx f)"

definition enc_addFields :: "'v env \<Rightarrow> 'v encoder \<Rightarrow> 'v Field list \<Rightarrow> 'v encoder outcome" where
  "enc_addFields E enc fs =
     (case enc of
        JSONEnc e \<Rightarrow> map_outcome JSONEnc (json_addFields E fs e)
      | ConsoleEnc e \<Rightarrow> map_outcome ConsoleEnc (json_addFields E fs e)
      | CustomEnc ctx f \<Rightarrow> Ok (CustomEnc (ctx @ fs) f))"

definition enc_EncodeEntry ::
  "'v env \<Rightarrow> 'v encoder \<Rightarrow> Entry \<Rightarrow> 'v Field list \<Rightarrow> (error + bytes) outcome" where
  "enc_EncodeEntry E enc ent fs =
     (case enc of
        JSONEnc e \<Rightarrow> map_outcome Inr (json_EncodeEntry E e ent fs)
      | ConsoleEnc e \<Rightarrow> map_outcome Inr (console_EncodeEntry E e ent fs)
      | CustomEnc ctx f \<Rightarrow> f ctx ent fs)"

section \<open>Cores\<close>

text \<open>
  A hook and the hook of a sampler are known by a number; the answer of a hook is a function of
  the entry.  A lazy core is known by the number of its \<open>sync.Once\<close>, a sampler by that of its
  counters, an observer by that of its logs.
\<close>

type_synonym entry_hook = "nat \<times> (Entry \<Rightarrow> error option)"

datatype 'v core =
    nopCore
  | ioCore enabler "'v encoder" ws
  | multiCore "'v core list"
  | hooked "'v core" "entry_hook list"
  | levelFilterCore "'v core" enabler
  | lazyWithCore nat "'v core" "'v Field list"
  | sampler "'v core" nat int64 uint64 uint64 "nat option"
  | contextObserver enabler nat "'v Field list"

definition NewNopCore :: "'v core" where
  "NewNopCore = nopCore"

definition NewCore :: "'v encoder \<Rightarrow> ws \<Rightarrow> enabler \<Rightarrow> 'v core" where
  "NewCore enc w enab = ioCore enab enc w"

definition NewTee :: "'v core list \<Rightarrow> 'v core" where
  "NewTee cores = (case cores of [] \<Rightarrow> NewNopCore | [c] \<Rightarrow> c | _ \<Rightarrow> multiCore cores)"

definition RegisterHooks :: "'v core \<Rightarrow> entry_hook list \<Rightarrow> 'v core" where
  "RegisterHooks c hooks = hooked c hooks"

definition NewLazyWith :: "nat \<Rightarrow> 'v core \<Rightarrow> 'v Field list \<Rightarrow> 'v core" where
  "NewLazyWith i c fs = lazyWithCore i c fs"

text \<open>The limits are converted from \<open>int\<close> to \<open>uint64\<close>; the only option is the hook.\<close>

definition NewSamplerWithOptions ::
  "nat \<Rightarrow> 'v core \<Rightarrow> int64 \<Rightarrow> int64 \<Rightarrow> int64 \<Rightarrow> nat list \<Rightarrow> 'v core" where
  "NewSamplerWithOptions i c dur first thereafter opts =
     sampler c i dur first thereafter (foldl (\<lambda>_ hook. Some hook) None opts)"

definition NewSampler :: "nat \<Rightarrow> 'v core \<Rightarrow> int64 \<Rightarrow> int64 \<Rightarrow> int64 \<Rightarrow> 'v core" where
  "NewSampler i c dur first thereafter = NewSamplerWithOptions i c dur first thereafter []"

definition observer_New :: "enabler \<Rightarrow> nat \<Rightarrow> 'v core" where
  "observer_New enab logs = contextObserver enab logs []"

subsection \<open>Levels\<close>

text \<open>
  The core that a lazy core embeds changes when the \<open>sync.Once\<close> runs, but only in its encoders, so
  \<open>Enabled\<close> and \<open>Sync\<close> can be read off the core that it was made with.
\<close>

fun core_Enabled :: "atomics \<Rightarrow> 'v core \<Rightarrow> level \<Rightarrow> bool" where
  "core_Enabled st nopCore l = False"
| "core_Enabled st (ioCore en enc w) l = enab_Enabled st en l"
| "core_Enabled st (multiCore cs) l = list_ex (\<lambda>c. core_Enabled st c l) cs"
| "core_Enabled st (hooked c hs) l = core_Enabled st c l"
| "core_Enabled st (levelFilterCore c en) l = enab_Enabled st en l"
| "core_Enabled st (lazyWithCore i c fs) l = core_Enabled st c l"
| "core_Enabled st (sampler c i dur first thereafter h) l = core_Enabled st c l"
| "core_Enabled st (contextObserver en i ctx) l = enab_Enabled st en l"

text \<open>\<open>LevelOf\<close> on a core: \<open>nopCore\<close> and \<open>lazyWithCore\<close> have no method \<open>Level\<close>.\<close>

fun core_Level :: "atomics \<Rightarrow> 'v core \<Rightarrow> level" where
  "core_Level st nopCore = level_scan (core_Enabled st (nopCore :: 'v core)) minLevel"
| "core_Level st (ioCore en enc w) = LevelOf st en"
| "core_Level st (multiCore cs) =
     foldl (\<lambda>minLvl c. if core_Level st c < minLvl then core_Level st c else minLvl) maxLevel cs"
| "core_Level st (hooked c hs) = core_Level st c"
| "core_Level st (levelFilterCore c en) = LevelOf st en"
| "core_Level st (lazyWithCore i c fs) = level_scan (core_Enabled st (lazyWithCore i c fs)) minLevel"
| "core_Level st (sampler c i dur first thereafter h) = core_Level st c"
| "core_Level st (contextObserver en i ctx) = LevelOf st en"

definition NewIncreaseLevelCore :: "atomics \<Rightarrow> 'v core \<Rightarrow> enabler \<Rightarrow> error + 'v core" where
  "NewIncreaseLevelCore st c en =
     (case find (\<lambda>l. \<not> core_Enabled st c l \<and> enab_Enabled st en l) (rev all_levels) of
        Some l \<Rightarrow> Inl (errors_new (''invalid increase level, as level '' @ [CHR 0x22] @ Level_String l @
          [CHR 0x22] @ '' is allowed by increased level, but not by existing core''))
      | None \<Rightarrow> Inr (levelFilterCore c en))"

subsection \<open>With\<close>

fun csize :: "'v core \<Rightarrow> nat" where
  "csize (multiCore cs) = Suc (sum_list (map (\<lambda>c. Suc (csize c)) cs))"
| "csize (hooked c hs) = Suc (csize c)"
| "csize (levelFilterCore c en) = Suc (csize c)"
| "csize (lazyWithCore i c fs) = Suc (csize c)"
| "csize (sampler c i dur first thereafter h) = Suc (csize c)"
| "csize _ = 0"

text \<open>
  \<open>With\<close> runs the \<open>sync.Once\<close> of the lazy cores it meets.  The function passed to \<open>Do\<close> panics when a
  marshaler does; \<open>Do\<close> then still counts as done, and the lazy core keeps the core without the
  fields.  Once it is done, the embedded core is the core it was made with, after \<open>With\<close>.
\<close>

function (sequential) core_With ::
  "'v env \<Rightarrow> 'v core \<Rightarrow> 'v Field list \<Rightarrow> (nat \<Rightarrow> once) \<Rightarrow> 'v core outcome \<times> (nat \<Rightarrow> once)"
  and cores_With ::
  "'v env \<Rightarrow> 'v core list \<Rightarrow> 'v Field list \<Rightarrow> (nat \<Rightarrow> once) \<Rightarrow> 'v core list outcome \<times> (nat \<Rightarrow> once)"
where
  "core_With E nopCore fs st = (Ok nopCore, st)"
| "core_With E (ioCore en enc w) fs st =
     (map_outcome (\<lambda>enc'. ioCore en enc' w) (enc_addFields E (enc_Clone enc) fs), st)"
| "core_With E (multiCore cs) fs st = apfst (map_outcome multiCore) (cores_With E cs fs st)"
| "core_With E (hooked c hs) fs st = apfst (map_outcome (\<lambda>c'. hooked c' hs)) (core_With E c fs st)"
| "core_With E (levelFilterCore c en) fs st =
     apfst (map_outcome (\<lambda>c'. levelFilterCore c' en)) (core_With E c fs st)"
| "core_With E (lazyWithCore i c fs0) fs st =
     (case st i of
        DonePanicked \<Rightarrow> core_With E c fs st
      | Done \<Rightarrow>
          (case core_With E c fs0 st of
             (Ok c', st') \<Rightarrow> core_With E c' fs st'
           | (Panic m, st') \<Rightarrow> (Panic m, st'))
      | NotDone \<Rightarrow>
          (case core_With E c fs0 st of
             (Ok c', st') \<Rightarrow> core_With E c' fs (st'(i := Done))
           | (Panic m, st') \<Rightarrow> (Panic m, st'(i := DonePanicked))))"
| "core_With E (sampler c i dur first thereafter h) fs st =
     apfst (map_outcome (\<lambda>c'. sampler c' i dur first thereafter h)) (core_With E c fs st)"
| "core_With E (contextObserver en i ctx) fs st = (Ok (contextObserver en i (ctx @ fs)), st)"
| "cores_With E [] fs st = (Ok [], st)"
| "cores_With E (c # cs) fs st =
     (case core_With E c fs st of
        (Panic m, st') \<Rightarrow> (Panic m, st')
      | (Ok c', st') \<Rightarrow> apfst (map_outcome (\<lambda>cs'. c' # cs')) (cores_With E cs fs st'))"
  by pat_completeness auto

lemma map_outcome_Ok: "map_outcome f x = Ok y \<longleftrightarrow> (\<exists>z. x = Ok z \<and> y = f z)"
  by (cases x) auto

lemma core_With_size:
  "core_With_cores_With_dom (Inl (E, c, fs, st)) \<Longrightarrow>
     fst (core_With E c fs st) = Ok c' \<Longrightarrow> csize c' \<le> csize c"
  "core_With_cores_With_dom (Inr (E, cs, fs, st)) \<Longrightarrow>
     fst (cores_With E cs fs st) = Ok cs' \<Longrightarrow>
     sum_list (map (\<lambda>c. Suc (csize c)) cs') \<le> sum_list (map (\<lambda>c. Suc (csize c)) cs)"
proof (induction E c fs st and E cs fs st arbitrary: c' and cs' rule: core_With_cores_With.pinduct)
  case (6 E i c fs0 fs st)
  obtain r st' where w: "core_With E c fs0 st = (r, st')" by fastforce
  show ?case
  proof (cases "st i")
    case NotDone
    with 6 w show ?thesis
      by (cases r) (fastforce simp: core_With.psimps)+
  next
    case Done
    with 6 w show ?thesis
      by (cases r) (fastforce simp: core_With.psimps)+
  next
    case DonePanicked
    with 6 show ?thesis by (fastforce simp: core_With.psimps)
  qed
next
  case (10 E c cs fs st)
  obtain r st' where w: "core_With E c fs st = (r, st')" by fastforce
  with 10 show ?case
    by (cases r) (fastforce simp: cores_With.psimps map_outcome_Ok)+
qed (auto simp: core_With.psimps cores_With.psimps map_outcome_Ok)

lemma core_With_dom: "\<forall>x. core_With_cores_With_dom x"
proof (relation "measure (\<lambda>x. case x of Inl (E, c, fs, st) \<Rightarrow> csize c
    | Inr (E, cs, fs, st) \<Rightarrow> sum_list (map (\<lambda>c. Suc (csize c)) cs))", goal_cases)
qed (auto, (metis core_With_size(1) fst_conv le_imp_less_Suc)+)

termination core_With
  by (rule core_With_dom)

lemmas core_With_induct = core_With_cores_With.induct [case_names nop io multi hooked filter lazy sampler
  observer Nil Cons]

lemma core_With_csize: "core_With E c fs st = (Ok c', st') \<Longrightarrow> csize c' \<le> csize c"
  using core_With_size(1) [OF core_With_dom [rule_format]] by (metis fst_conv)

text \<open>\<open>initOnce\<close> and the core that is embedded afterwards.\<close>

definition initOnce ::
  "'v env \<Rightarrow> nat \<Rightarrow> 'v core \<Rightarrow> 'v Field list \<Rightarrow> (nat \<Rightarrow> once) \<Rightarrow> 'v core outcome \<times> (nat \<Rightarrow> once)" where
  "initOnce E i c fs0 st =
     (case st i of
        DonePanicked \<Rightarrow> (Ok c, st)
      | Done \<Rightarrow> core_With E c fs0 st
      | NotDone \<Rightarrow>
          (case core_With E c fs0 st of
             (Ok c', st') \<Rightarrow> (Ok c', st'(i := Done))
           | (Panic m, st') \<Rightarrow> (Panic m, st'(i := DonePanicked))))"

lemma initOnce_csize: "initOnce E i c fs0 st = (Ok c', st') \<Longrightarrow> csize c' \<le> csize c"
  by (auto simp: initOnce_def dest: core_With_csize split: once.splits prod.splits outcome.splits)

lemma core_With_lazy:
  "core_With E (lazyWithCore i c fs0) fs st =
     (case initOnce E i c fs0 st of
        (Ok c', st') \<Rightarrow> core_With E c' fs st'
      | (Panic m, st') \<Rightarrow> (Panic m, st'))"
  by (auto simp: initOnce_def split: once.splits prod.splits outcome.splits)

declare core_With.simps(6) [simp del] cores_With.simps(2) [simp del]

section \<open>Checked entries\<close>

datatype control = Returns | Panics string | Goexits | Exits int

datatype CheckWriteAction = WriteThenNoop | WriteThenGoexit | WriteThenPanic | WriteThenFatal

text \<open>A \<open>CheckWriteHook\<close>: one of the actions, or a hook of the user.\<close>

datatype 'v write_hook = Action CheckWriteAction | CustomHook "Entry \<Rightarrow> 'v Field list \<Rightarrow> control"

record 'v CheckedEntry =
  ce_Entry :: Entry
  ErrorOutput :: "ws option"
  dirty :: bool
  after :: "'v write_hook option"
  cores :: "'v core list"

text \<open>A nil \<open>*CheckedEntry\<close> is \<open>None\<close>; an entry from the pool has been reset.\<close>

definition zeroEntry :: Entry where
  "zeroEntry = \<lparr>ent_Level = Level 0, ent_Time = Instant (- 62135596800 * 1000000000) UTC, ent_LoggerName = [],
     ent_Message = [], ent_Caller = zeroCaller, ent_Stack = []\<rparr>"

definition ce_reset :: "'v CheckedEntry \<Rightarrow> 'v CheckedEntry" where
  "ce_reset ce = ce\<lparr>ce_Entry := zeroEntry, ErrorOutput := None, dirty := False, after := None, cores := []\<rparr>"

definition getCheckedEntry :: "'v CheckedEntry \<Rightarrow> 'v CheckedEntry" where
  "getCheckedEntry pooled = ce_reset pooled"

text \<open>The entry that the pool hands out; after \<open>reset\<close> nothing of it is left.\<close>

definition pooled :: "'v CheckedEntry" where
  "pooled = \<lparr>ce_Entry = zeroEntry, ErrorOutput = None, dirty = False, after = None, cores = []\<rparr>"

definition AddCore :: "'v CheckedEntry option \<Rightarrow> Entry \<Rightarrow> 'v core \<Rightarrow> 'v CheckedEntry option" where
  "AddCore ce ent c =
     (let ce = (case ce of None \<Rightarrow> (getCheckedEntry pooled)\<lparr>ce_Entry := ent\<rparr> | Some ce \<Rightarrow> ce)
      in Some (ce\<lparr>cores := cores ce @ [c]\<rparr>))"

definition After :: "'v CheckedEntry option \<Rightarrow> Entry \<Rightarrow> 'v write_hook \<Rightarrow> 'v CheckedEntry option" where
  "After ce ent hook =
     (let ce = (case ce of None \<Rightarrow> (getCheckedEntry pooled)\<lparr>ce_Entry := ent\<rparr> | Some ce \<Rightarrow> ce)
      in Some (ce\<lparr>after := Some hook\<rparr>))"

definition Should ::
  "'v CheckedEntry option \<Rightarrow> Entry \<Rightarrow> CheckWriteAction \<Rightarrow> 'v CheckedEntry option" where
  "Should ce ent should = After ce ent (Action should)"

definition OnWrite :: "'v write_hook \<Rightarrow> Entry \<Rightarrow> 'v Field list \<Rightarrow> control" where
  "OnWrite h ent fs =
     (case h of
        Action WriteThenNoop \<Rightarrow> Returns
      | Action WriteThenGoexit \<Rightarrow> Goexits
      | Action WriteThenPanic \<Rightarrow> Panics (ent_Message ent)
      | Action WriteThenFatal \<Rightarrow> Exits 1
      | CustomHook f \<Rightarrow> f ent fs)"

section \<open>Check\<close>

text \<open>The counter of a sampler and its decision; out of range levels are not sampled.\<close>

definition sampler_decide ::
  "nat \<Rightarrow> int64 \<Rightarrow> uint64 \<Rightarrow> uint64 \<Rightarrow> nat option \<Rightarrow> Entry \<Rightarrow> ('v, 'z) world_scheme \<Rightarrow>
   bool \<times> ('v, 'z) world_scheme" where
  "sampler_decide i dur first thereafter h ent w =
     (if minLevel \<le> ent_Level ent \<and> ent_Level ent \<le> maxLevel then
        let (a, b) = counters_get (ent_Level ent) (ent_Message ent);
            (n, c) = IncCheckReset (ent_Time ent) dur (samples w i a b);
            w = w\<lparr>samples := (samples w)(i := (samples w i)(a := (samples w i a)(b := c)))\<rparr>;
            drop = sampler_drops first thereafter n;
            w = (case h of None \<Rightarrow> w
                 | Some j \<Rightarrow> w\<lparr>decisions := decisions w @ [(j, ent, if drop then LogDropped else LogSampled)]\<rparr>)
        in (\<not> drop, w)
      else (True, w))"

function (sequential) core_Check ::
  "'v env \<Rightarrow> 'v core \<Rightarrow> Entry \<Rightarrow> 'v CheckedEntry option \<Rightarrow> ('v, 'z) world_scheme \<Rightarrow>
   'v CheckedEntry option outcome \<times> ('v, 'z) world_scheme"
  and cores_Check ::
  "'v env \<Rightarrow> 'v core list \<Rightarrow> Entry \<Rightarrow> 'v CheckedEntry option \<Rightarrow> ('v, 'z) world_scheme \<Rightarrow>
   'v CheckedEntry option outcome \<times> ('v, 'z) world_scheme"
where
  "core_Check E nopCore ent ce w = (Ok ce, w)"
| "core_Check E (ioCore en enc out) ent ce w =
     (if enab_Enabled (cells w) en (ent_Level ent) then (Ok (AddCore ce ent (ioCore en enc out)), w)
      else (Ok ce, w))"
| "core_Check E (multiCore cs) ent ce w = cores_Check E cs ent ce w"
| "core_Check E (hooked c hs) ent ce w =
     (case core_Check E c ent ce w of
        (Ok (Some downstream), w') \<Rightarrow> (Ok (AddCore (Some downstream) ent (hooked c hs)), w')
      | (Ok None, w') \<Rightarrow> (Ok ce, w')
      | (Panic m, w') \<Rightarrow> (Panic m, w'))"
| "core_Check E (levelFilterCore c en) ent ce w =
     (if \<not> enab_Enabled (cells w) en (ent_Level ent) then (Ok ce, w) else core_Check E c ent ce w)"
| "core_Check E (lazyWithCore i c fs0) ent ce w =
     (case initOnce E i c fs0 (onces w) of
        (Ok c', st) \<Rightarrow> core_Check E c' ent ce (w\<lparr>onces := st\<rparr>)
      | (Panic m, st) \<Rightarrow> (Panic m, w\<lparr>onces := st\<rparr>))"
| "core_Check E (sampler c i dur first thereafter h) ent ce w =
     (if \<not> core_Enabled (cells w) c (ent_Level ent) then (Ok ce, w)
      else case sampler_decide i dur first thereafter h ent w of
        (logs, w') \<Rightarrow> if logs then core_Check E c ent ce w' else (Ok ce, w'))"
| "core_Check E (contextObserver en i ctx) ent ce w =
     (if enab_Enabled (cells w) en (ent_Level ent) then (Ok (AddCore ce ent (contextObserver en i ctx)), w)
      else (Ok ce, w))"
| "cores_Check E [] ent ce w = (Ok ce, w)"
| "cores_Check E (c # cs) ent ce w =
     (case core_Check E c ent ce w of
        (Ok ce', w') \<Rightarrow> cores_Check E cs ent ce' w'
      | (Panic m, w') \<Rightarrow> (Panic m, w'))"
  by pat_completeness auto
termination
  by (relation "measure (\<lambda>x. case x of Inl (E, c, ent, ce, w) \<Rightarrow> csize c
    | Inr (E, cs, ent, ce, w) \<Rightarrow> sum_list (map (\<lambda>c. Suc (csize c)) cs))")
    (auto simp: less_Suc_eq_le intro: initOnce_csize dest: sym)

section \<open>Sync and Write\<close>

fun core_Sync ::
  "'v env \<Rightarrow> 'v core \<Rightarrow> ('v, 'z) world_scheme \<Rightarrow> error option \<times> ('v, 'z) world_scheme"
  and cores_Sync ::
  "'v env \<Rightarrow> 'v core list \<Rightarrow> error option \<Rightarrow> ('v, 'z) world_scheme \<Rightarrow>
   error option \<times> ('v, 'z) world_scheme"
where
  "core_Sync E nopCore w = (None, w)"
| "core_Sync E (ioCore en enc out) w = ws_Sync E out w"
| "core_Sync E (multiCore cs) w = cores_Sync E cs None w"
| "core_Sync E (hooked c hs) w = core_Sync E c w"
| "core_Sync E (levelFilterCore c en) w = core_Sync E c w"
| "core_Sync E (lazyWithCore i c fs0) w = core_Sync E c w"
| "core_Sync E (sampler c i dur first thereafter h) w = core_Sync E c w"
| "core_Sync E (contextObserver en i ctx) w = (None, w)"
| "cores_Sync E [] err w = (err, w)"
| "cores_Sync E (c # cs) err w =
     (case core_Sync E c w of (e, w') \<Rightarrow> cores_Sync E cs (multierr_Append E err e) w')"

definition ioCore_Write ::
  "'v env \<Rightarrow> 'v encoder \<Rightarrow> ws \<Rightarrow> Entry \<Rightarrow> 'v Field list \<Rightarrow> ('v, 'z) world_scheme \<Rightarrow>
   error option outcome \<times> ('v, 'z) world_scheme" where
  "ioCore_Write E enc out ent fs w =
     (case enc_EncodeEntry E enc ent fs of
        Panic m \<Rightarrow> (Panic m, w)
      | Ok (Inl err) \<Rightarrow> (Ok (Some err), w)
      | Ok (Inr b) \<Rightarrow>
          (case ws_Write E out b w of
             ((n, err), w') \<Rightarrow>
               if err \<noteq> None then (Ok err, w')
               else if ErrorLevel < ent_Level ent then (Ok None, snd (ws_Sync E out w'))
               else (Ok None, w')))"

primrec run_hooks ::
  "'v env \<Rightarrow> entry_hook list \<Rightarrow> Entry \<Rightarrow> error option \<Rightarrow> ('v, 'z) world_scheme \<Rightarrow>
   error option \<times> ('v, 'z) world_scheme" where
  "run_hooks E [] ent err w = (err, w)"
| "run_hooks E (h # hs) ent err w =
     run_hooks E hs ent (multierr_Append E err (snd h ent)) (w\<lparr>hooks_run := hooks_run w @ [(fst h, ent)]\<rparr>)"

text \<open>\<open>Write\<close> of a lazy core is the one of the core it embeds at that moment.\<close>

function (sequential) core_Write ::
  "'v env \<Rightarrow> 'v core \<Rightarrow> Entry \<Rightarrow> 'v Field list \<Rightarrow> ('v, 'z) world_scheme \<Rightarrow>
   error option outcome \<times> ('v, 'z) world_scheme"
  and cores_Write ::
  "'v env \<Rightarrow> 'v core list \<Rightarrow> Entry \<Rightarrow> 'v Field list \<Rightarrow> error option \<Rightarrow> ('v, 'z) world_scheme \<Rightarrow>
   error option outcome \<times> ('v, 'z) world_scheme"
where
  "core_Write E nopCore ent fs w = (Ok None, w)"
| "core_Write E (ioCore en enc out) ent fs w = ioCore_Write E enc out ent fs w"
| "core_Write E (multiCore cs) ent fs w = cores_Write E cs ent fs None w"
| "core_Write E (hooked c hs) ent fs w = apfst Ok (run_hooks E hs ent None w)"
| "core_Write E (levelFilterCore c en) ent fs w = core_Write E c ent fs w"
| "core_Write E (lazyWithCore i c fs0) ent fs w =
     (if onces w i = Done then
        case core_With E c fs0 (onces w) of
          (Ok c', st) \<Rightarrow> core_Write E c' ent fs w
        | (Panic m, st) \<Rightarrow> (Panic m, w)
      else core_Write E c ent fs w)"
| "core_Write E (sampler c i dur first thereafter h) ent fs w = core_Write E c ent fs w"
| "core_Write E (contextObserver en i ctx) ent fs w =
     (Ok None, w\<lparr>observed := (observed w)(i := observed w i @ [(ent, ctx @ fs)])\<rparr>)"
| "cores_Write E [] ent fs err w = (Ok err, w)"
| "cores_Write E (c # cs) ent fs err w =
     (case core_Write E c ent fs w of
        (Ok e, w') \<Rightarrow> cores_Write E cs ent fs (multierr_Append E err e) w'
      | (Panic m, w') \<Rightarrow> (Panic m, w'))"
  by pat_completeness auto
termination
  by (relation "measure (\<lambda>x. case x of Inl (E, c, ent, fs, w) \<Rightarrow> csize c
    | Inr (E, cs, ent, fs, err, w) \<Rightarrow> sum_list (map (\<lambda>c. Suc (csize c)) cs))")
    (auto simp: less_Suc_eq_le intro: core_With_csize dest: sym)

section \<open>Writing a checked entry\<close>

text \<open>A message to the error output, followed by a \<open>Sync\<close> whose error is ignored.\<close>

definition error_line :: "'v env \<Rightarrow> ws option \<Rightarrow> bytes \<Rightarrow> 'z ios_scheme \<Rightarrow> 'z ios_scheme" where
  "error_line E out line w =
     (case out of None \<Rightarrow> w | Some o' \<Rightarrow> snd (ws_Sync E o' (snd (ws_Write E o' line w))))"

definition reuse_line :: "'v env \<Rightarrow> Entry \<Rightarrow> bytes" where
  "reuse_line E ent = TimeString E (ent_Time ent) @ '' Unsafe CheckedEntry re-use near Entry '' @
     EntryString E ent @ ''.'' @ [CHR 0x0A]"

definition write_error_line :: "'v env \<Rightarrow> Entry \<Rightarrow> error \<Rightarrow> bytes" where
  "write_error_line E ent err =
     TimeString E (ent_Time ent) @ '' write error: '' @ err_fmt err @ [CHR 0x0A]"

definition ce_Write ::
  "'v env \<Rightarrow> 'v CheckedEntry option \<Rightarrow> 'v Field list \<Rightarrow> ('v, 'z) world_scheme \<Rightarrow>
   control \<times> 'v CheckedEntry option \<times> ('v, 'z) world_scheme" where
  "ce_Write E ce fs w =
     (case ce of
        None \<Rightarrow> (Returns, None, w)
      | Some ce \<Rightarrow>
          if dirty ce then (Returns, Some ce, error_line E (ErrorOutput ce) (reuse_line E (ce_Entry ce)) w)
          else let ce = ce\<lparr>dirty := True\<rparr> in
            (case cores_Write E (cores ce) (ce_Entry ce) fs None w of
               (Panic m, w') \<Rightarrow> (Panics m, Some ce, w')
             | (Ok err, w') \<Rightarrow>
                 let w' = (case err of None \<Rightarrow> w'
                           | Some e \<Rightarrow> error_line E (ErrorOutput ce) (write_error_line E (ce_Entry ce) e) w')
                 in ((case after ce of None \<Rightarrow> Returns | Some hook \<Rightarrow> OnWrite hook (ce_Entry ce) fs),
                     Some ce, w')))"

section \<open>Observed logs\<close>

type_synonym 'v logged_entry = "Entry \<times> 'v Field list"

definition ObservedLogs_TakeAll ::
  "nat \<Rightarrow> ('v, 'z) world_scheme \<Rightarrow> 'v logged_entry list \<times> ('v, 'z) world_scheme" where
  "ObservedLogs_TakeAll i w = (observed w i, w\<lparr>observed := (observed w)(i := [])\<rparr>)"

definition ObservedLogs_All :: "nat \<Rightarrow> ('v, 'z) world_scheme \<Rightarrow> 'v logged_entry list" where
  "ObservedLogs_All i w = observed w i"

definition ObservedLogs_Len :: "nat \<Rightarrow> ('v, 'z) world_scheme \<Rightarrow> nat" where
  "ObservedLogs_Len i w = length (observed w i)"

definition AllUntimed :: "nat \<Rightarrow> ('v, 'z) world_scheme \<Rightarrow> 'v logged_entry list" where
  "AllUntimed i w = map (\<lambda>(ent, ctx). (ent\<lparr>ent_Time := ent_Time zeroEntry\<rparr>, ctx)) (ObservedLogs_All i w)"

definition logs_Filter :: "('v logged_entry \<Rightarrow> bool) \<Rightarrow> 'v logged_entry list \<Rightarrow> 'v logged_entry list" where
  "logs_Filter keep logs = filter keep logs"

definition FilterLevelExact :: "level \<Rightarrow> 'v logged_entry list \<Rightarrow> 'v logged_entry list" where
  "FilterLevelExact l = logs_Filter (\<lambda>e. ent_Level (fst e) = l)"

definition FilterMessage :: "bytes \<Rightarrow> 'v logged_entry list \<Rightarrow> 'v logged_entry list" where
  "FilterMessage msg = logs_Filter (\<lambda>e. ent_Message (fst e) = msg)"

definition FilterLoggerName :: "bytes \<Rightarrow> 'v logged_entry list \<Rightarrow> 'v logged_entry list" where
  "FilterLoggerName name = logs_Filter (\<lambda>e. ent_LoggerName (fst e) = name)"

definition FilterMessageSnippet :: "bytes \<Rightarrow> 'v logged_entry list \<Rightarrow> 'v logged_entry list" where
  "FilterMessageSnippet snippet = logs_Filter (\<lambda>e. sublist snippet (ent_Message (fst e)))"

definition FilterFieldKey :: "bytes \<Rightarrow> 'v logged_entry list \<Rightarrow> 'v logged_entry list" where
  "FilterFieldKey key = logs_Filter (\<lambda>e. list_ex (\<lambda>f. Key f = key) (snd e))"

text \<open>\<open>FilterField\<close> compares with \<open>Equals\<close>, which may panic.\<close>

fun has_field ::
  "('v iface \<Rightarrow> 'v iface \<Rightarrow> bool) \<Rightarrow> ('v iface \<Rightarrow> 'v iface \<Rightarrow> bool outcome) \<Rightarrow> 'v Field \<Rightarrow> 'v Field list \<Rightarrow>
   bool outcome" where
  "has_field deepEqual ifaceEq fld [] = Ok False"
| "has_field deepEqual ifaceEq fld (f # fs) =
     (case Equals deepEqual ifaceEq f fld of
        Panic m \<Rightarrow> Panic m
      | Ok True \<Rightarrow> Ok True
      | Ok False \<Rightarrow> has_field deepEqual ifaceEq fld fs)"

fun FilterField ::
  "('v iface \<Rightarrow> 'v iface \<Rightarrow> bool) \<Rightarrow> ('v iface \<Rightarrow> 'v iface \<Rightarrow> bool outcome) \<Rightarrow> 'v Field \<Rightarrow>
   'v logged_entry list \<Rightarrow> 'v logged_entry list outcome" where
  "FilterField deepEqual ifaceEq fld [] = Ok []"
| "FilterField deepEqual ifaceEq fld (e # logs) =
     (case has_field deepEqual ifaceEq fld (snd e) of
        Panic m \<Rightarrow> Panic m
      | Ok keep \<Rightarrow> map_outcome (\<lambda>es. if keep then e # es else es) (FilterField deepEqual ifaceEq fld logs))"

text \<open>\<open>ContextMap\<close>: the fields in a \<open>MapObjectEncoder\<close>.\<close>

definition ContextMap :: "'v logged_entry \<Rightarrow> 'v mmap outcome" where
  "ContextMap e = map_outcome fst (map_obj (addFields (snd e)) NewMapObjectEncoder)"

end
