(* ===== verification/Lad_Core_Props.thy ===== *)
theory Lad_Core_Props
  imports Lad_Core
begin

text \<open>
  What the cores promise: \<open>With\<close> does not change which levels are enabled, a lazy core behaves
  like the core on which \<open>With\<close> was called at once, \<open>Check\<close> registers nothing for a disabled level,
  and a tee of writing cores sends an entry to the destinations whose level is enabled.
\<close>

section \<open>Induction over cores\<close>

text \<open>
  Below a lazy core the operations go on with the result of \<open>With\<close>, which is no larger than the
  core it was made from.
\<close>

lemma core_induct [case_names nop io multi hooked filter lazy sampler observer]:
  assumes "P nopCore" and "\<And>en enc out. P (ioCore en enc out)"
    and multi: "\<And>cs. (\<And>c. c \<in> set cs \<Longrightarrow> P c) \<Longrightarrow> P (multiCore cs)"
    and "\<And>c hs. P c \<Longrightarrow> P (hooked c hs)" and "\<And>c en. P c \<Longrightarrow> P (levelFilterCore c en)"
    and "\<And>i c fs. (\<And>c'. csize c' \<le> csize c \<Longrightarrow> P c') \<Longrightarrow> P (lazyWithCore i c fs)"
    and "\<And>c i dur first thereafter h. P c \<Longrightarrow> P (sampler c i dur first thereafter h)"
    and "\<And>en i ctx. P (contextObserver en i ctx)"
  shows "P c"
proof (induction c rule: measure_induct_rule [of csize])
  case (less c)
  have mem: "csize d < csize (multiCore cs)" if "d \<in> set cs" for d and cs :: "'a core list"
    using that by (induction cs) auto
  show ?case
  proof (cases c)
    case (multiCore cs)
    then show ?thesis using less mem multi by blast
  qed (use less assms in auto)
qed

lemma core_With_lazyE:
  assumes "core_With E (lazyWithCore i c fs0) fs st = (Ok c', st')"
  obtains c1 st1 where "initOnce E i c fs0 st = (Ok c1, st1)" "core_With E c1 fs st1 = (Ok c', st')"
    "csize c1 \<le> csize c"
proof -
  obtain r st1 where i: "initOnce E i c fs0 st = (r, st1)" by fastforce
  then obtain c1 where "r = Ok c1" "core_With E c1 fs st1 = (Ok c', st')"
    using assms by (cases r) (simp_all add: core_With_lazy)
  then show ?thesis using that i initOnce_csize by blast
qed

lemma initOnceE:
  assumes "initOnce E i c fs0 st = (Ok c1, st1)"
  obtains (panicked) "st i = DonePanicked" "c1 = c" "st1 = st"
  | (already) "st i = Done" "core_With E c fs0 st = (Ok c1, st1)"
  | (init) st2 where "st i = NotDone" "core_With E c fs0 st = (Ok c1, st2)" "st1 = st2(i := Done)"
  using assms
  by (auto simp: initOnce_def split: once.splits prod.splits outcome.splits)

text \<open>One core inside another one.\<close>

lemma core_With_nested:
  "core_With E (hooked c hs) fs st = (Ok c', st') \<Longrightarrow>
     \<exists>d. core_With E c fs st = (Ok d, st') \<and> c' = hooked d hs"
  "core_With E (levelFilterCore c en) fs st = (Ok c', st') \<Longrightarrow>
     \<exists>d. core_With E c fs st = (Ok d, st') \<and> c' = levelFilterCore d en"
  "core_With E (sampler c i dur first thereafter h) fs st = (Ok c', st') \<Longrightarrow>
     \<exists>d. core_With E c fs st = (Ok d, st') \<and> c' = sampler d i dur first thereafter h"
  "core_With E (multiCore cs) fs st = (Ok c', st') \<Longrightarrow>
     \<exists>cs'. cores_With E cs fs st = (Ok cs', st') \<and> c' = multiCore cs'"
  by (cases "core_With E c fs st"; auto simp: map_outcome_Ok;
      cases "cores_With E cs fs st"; auto simp: map_outcome_Ok)+

lemma cores_With_Cons:
  "cores_With E (c # cs) fs st = (Ok cs', st') \<longleftrightarrow>
     (\<exists>d st1 ds. core_With E c fs st = (Ok d, st1) \<and> cores_With E cs fs st1 = (Ok ds, st') \<and> cs' = d # ds)"
  by (cases "core_With E c fs st"; cases "cores_With E cs fs (snd (core_With E c fs st))")
    (auto simp: cores_With.simps map_outcome_Ok split: outcome.splits)

section \<open>With and levels\<close>

lemma core_With_Enabled:
  "core_With E c fs st = (Ok c', st') \<Longrightarrow> core_Enabled a c' l = core_Enabled a c l"
proof (induction c arbitrary: fs st c' st' rule: core_induct)
  case (multi cs)
  have "list_ex (\<lambda>c. core_Enabled a c l) cs' = list_ex (\<lambda>c. core_Enabled a c l) ds"
    if "set ds \<subseteq> set cs" "cores_With E ds fs s = (Ok cs', s')" for ds cs' s s'
    using that
  proof (induction ds arbitrary: cs' s)
    case (Cons d ds)
    then show ?case using multi.IH [of d] by (fastforce simp: cores_With_Cons)
  qed simp
  then show ?case using core_With_nested(4) [OF multi.prems] by fastforce
next
  case (hooked c hs)
  then show ?case using core_With_nested(1) [OF hooked.prems] by fastforce
next
  case (filter c en)
  then show ?case using core_With_nested(2) [OF filter.prems] by fastforce
next
  case (lazy i c fs0)
  from lazy.prems show ?case
  proof (rule core_With_lazyE)
    fix c1 st1
    assume a: "initOnce E i c fs0 st = (Ok c1, st1)" "core_With E c1 fs st1 = (Ok c', st')" "csize c1 \<le> csize c"
    from a(1) have "core_Enabled a c1 l = core_Enabled a c l"
      by (rule initOnceE) (use lazy.IH in auto)
    then show ?case using lazy.IH [OF a(3) a(2)] by simp
  qed
next
  case (sampler c i dur first thereafter h)
  then show ?case using core_With_nested(3) [OF sampler.prems] by fastforce
qed (auto simp: map_outcome_Ok)

section \<open>Lazy cores\<close>

fun lazy_ids :: "'v core \<Rightarrow> nat list" where
  "lazy_ids (multiCore cs) = concat (map lazy_ids cs)"
| "lazy_ids (hooked c hs) = lazy_ids c"
| "lazy_ids (levelFilterCore c en) = lazy_ids c"
| "lazy_ids (lazyWithCore i c fs) = i # lazy_ids c"
| "lazy_ids (sampler c i dur first thereafter h) = lazy_ids c"
| "lazy_ids _ = []"

text \<open>No lazy core is inside itself.\<close>

fun wf_lazy :: "'v core \<Rightarrow> bool" where
  "wf_lazy (multiCore cs) = list_all wf_lazy cs"
| "wf_lazy (hooked c hs) = wf_lazy c"
| "wf_lazy (levelFilterCore c en) = wf_lazy c"
| "wf_lazy (lazyWithCore i c fs) = (i \<notin> set (lazy_ids c) \<and> wf_lazy c)"
| "wf_lazy (sampler c i dur first thereafter h) = wf_lazy c"
| "wf_lazy _ = True"

text \<open>A \<open>sync.Once\<close> that is decided stays as it is.\<close>

definition later :: "(nat \<Rightarrow> once) \<Rightarrow> (nat \<Rightarrow> once) \<Rightarrow> bool" where
  "later st s \<longleftrightarrow> (\<forall>i. st i \<noteq> NotDone \<longrightarrow> s i = st i)"

lemma later_refl [simp]: "later st st"
  by (simp add: later_def)

lemma later_trans: "later a b \<Longrightarrow> later b c \<Longrightarrow> later a c"
  by (simp add: later_def)

text \<open>
  What a successful \<open>With\<close> does to the \<open>sync.Once\<close> cells: it decides only cells of the core, and in
  every later state the same call gives the same core and changes nothing.
\<close>

definition With_stable :: "'v env \<Rightarrow> 'v core \<Rightarrow> bool" where
  "With_stable E c \<longleftrightarrow> (\<forall>fs st c' st'. core_With E c fs st = (Ok c', st') \<longrightarrow>
     set (lazy_ids c') \<subseteq> set (lazy_ids c) \<and> wf_lazy c' \<and> later st st' \<and>
     (\<forall>j. j \<notin> set (lazy_ids c) \<longrightarrow> st' j = st j) \<and>
     (\<forall>s. later st' s \<longrightarrow> core_With E c fs s = (Ok c', s)))"

lemma With_stableD:
  assumes "With_stable E c" and "core_With E c fs st = (Ok c', st')"
  shows "set (lazy_ids c') \<subseteq> set (lazy_ids c)" and "wf_lazy c'" and "later st st'"
    and "j \<notin> set (lazy_ids c) \<Longrightarrow> st' j = st j"
    and "later st' s \<Longrightarrow> core_With E c fs s = (Ok c', s)"
  using assms unfolding With_stable_def by blast+

lemma With_stable_multi:
  assumes "\<And>c. c \<in> set cs \<Longrightarrow> With_stable E c" and "cores_With E cs fs st = (Ok cs', st')"
  shows "set (concat (map lazy_ids cs')) \<subseteq> set (concat (map lazy_ids cs)) \<and> list_all wf_lazy cs' \<and>
    later st st' \<and> (\<forall>j. j \<notin> set (concat (map lazy_ids cs)) \<longrightarrow> st' j = st j) \<and>
    (\<forall>s. later st' s \<longrightarrow> cores_With E cs fs s = (Ok cs', s))"
  using assms
proof (induction cs arbitrary: cs' st)
  case (Cons c cs)
  obtain d st1 ds where w: "core_With E c fs st = (Ok d, st1)" "cores_With E cs fs st1 = (Ok ds, st')"
    and cs': "cs' = d # ds" using Cons.prems(2) by (auto simp: cores_With_Cons)
  note c = With_stableD [OF Cons.prems(1) [of c, simplified] w(1)]
  note ds = Cons.IH [OF Cons.prems(1) w(2)]
  have "cores_With E (c # cs) fs s = (Ok cs', s)" if "later st' s" for s
    using c(5) [of s] ds that cs' later_trans [of st1 st' s]
    by (simp add: cores_With_Cons)
  then show ?case using c(1-4) ds cs' later_trans [of st st1 st'] by auto
qed simp

lemma initOnce_stable:
  assumes "With_stable E c" and wf: "i \<notin> set (lazy_ids c)" "wf_lazy c"
    and "initOnce E i c fs0 st = (Ok c1, st1)"
  shows "set (lazy_ids c1) \<subseteq> set (lazy_ids c) \<and> wf_lazy c1 \<and> later st st1 \<and>
    (\<forall>j. j \<notin> set (lazy_ids c) \<longrightarrow> j \<noteq> i \<longrightarrow> st1 j = st j) \<and>
    (\<forall>s. later st1 s \<longrightarrow> initOnce E i c fs0 s = (Ok c1, s))"
  using assms(4)
proof (cases rule: initOnceE)
  case panicked
  then show ?thesis using wf by (auto simp: initOnce_def later_def)
next
  case already
  note c = With_stableD [OF assms(1) already(2)]
  have "initOnce E i c fs0 s = (Ok c1, s)" if "later st1 s" for s
  proof -
    have "s i = Done" using that already(1) c(4) [OF wf(1)] by (simp add: later_def)
    then show ?thesis by (simp add: initOnce_def c(5) [OF that])
  qed
  then show ?thesis using c(1-4) by blast
next
  case (init st2)
  note c = With_stableD [OF assms(1) init(2)]
  have n: "st2 i = NotDone" using init(1) c(4) [OF wf(1)] by simp
  have "initOnce E i c fs0 s = (Ok c1, s)" if "later st1 s" for s
  proof -
    have "later st2 s" "s i = Done" using that init(3) n by (auto simp: later_def split: if_splits)
    then show ?thesis by (simp add: initOnce_def c(5))
  qed
  moreover have "later st st1" using c(3) n init(1,3) by (simp add: later_def)
  moreover have "st1 j = st j" if "j \<notin> set (lazy_ids c)" "j \<noteq> i" for j using c(4) that init(3) by simp
  ultimately show ?thesis using c(1,2) by blast
qed

lemma With_stable_lazy:
  assumes IH: "\<And>c'. csize c' \<le> csize c \<Longrightarrow> wf_lazy c' \<Longrightarrow> With_stable E c'"
    and wf: "i \<notin> set (lazy_ids c)" "wf_lazy c"
  shows "With_stable E (lazyWithCore i c fs0)"
  unfolding With_stable_def
proof (intro allI impI)
  fix fs st c' st'
  assume "core_With E (lazyWithCore i c fs0) fs st = (Ok c', st')"
  then obtain c1 st1 where i: "initOnce E i c fs0 st = (Ok c1, st1)"
    and w: "core_With E c1 fs st1 = (Ok c', st')" and le: "csize c1 \<le> csize c" by (rule core_With_lazyE)
  note 1 = initOnce_stable [OF IH [OF order_refl wf(2)] wf i]
  have wf1: "wf_lazy c1" using 1 by blast
  note c1 = With_stableD [OF IH [OF le wf1] w]
  have "core_With E (lazyWithCore i c fs0) fs s = (Ok c', s)" if "later st' s" for s
    using 1 c1(3,5) that later_trans [of st1 st' s] by (simp add: core_With_lazy)
  moreover have "st' j = st j" if "j \<notin> set (lazy_ids c)" "j \<noteq> i" for j
    using 1 that c1(4) [of j] by (metis subsetD)
  ultimately show "set (lazy_ids c') \<subseteq> set (lazy_ids (lazyWithCore i c fs0)) \<and> wf_lazy c' \<and> later st st' \<and>
      (\<forall>j. j \<notin> set (lazy_ids (lazyWithCore i c fs0)) \<longrightarrow> st' j = st j) \<and>
      (\<forall>s. later st' s \<longrightarrow> core_With E (lazyWithCore i c fs0) fs s = (Ok c', s))"
    using 1 c1(1-3) later_trans [of st st1 st'] by auto
qed

lemma With_stable_wrap:
  assumes "\<And>fs st. core_With E (k c) fs st = apfst (map_outcome k) (core_With E c fs st)"
    and "\<And>x. lazy_ids (k x) = lazy_ids x" and "\<And>x. wf_lazy (k x) = wf_lazy x" and "With_stable E c"
  shows "With_stable E (k c)"
  unfolding With_stable_def
proof (intro allI impI)
  fix fs st c' st'
  assume "core_With E (k c) fs st = (Ok c', st')"
  then obtain d where d: "core_With E c fs st = (Ok d, st')" "c' = k d"
    using assms(1) by (cases "core_With E c fs st") (auto simp: map_outcome_Ok)
  note c = With_stableD [OF assms(4) d(1)]
  have "core_With E (k c) fs s = (Ok c', s)" if "later st' s" for s
    using c(5) [OF that] d(2) by (simp add: assms(1))
  then show "set (lazy_ids c') \<subseteq> set (lazy_ids (k c)) \<and> wf_lazy c' \<and> later st st' \<and>
      (\<forall>j. j \<notin> set (lazy_ids (k c)) \<longrightarrow> st' j = st j) \<and>
      (\<forall>s. later st' s \<longrightarrow> core_With E (k c) fs s = (Ok c', s))"
    using c(1-4) by (simp add: assms(2,3) d(2))
qed

lemma core_With_stable: "wf_lazy c \<Longrightarrow> With_stable E c"
proof (induction c rule: core_induct)
  case (multi cs)
  have "c \<in> set cs \<Longrightarrow> With_stable E c" for c using multi by (auto simp: list_all_iff)
  note stable = With_stable_multi [OF this]
  show ?case unfolding With_stable_def
  proof (intro allI impI)
    fix fs st c' st'
    assume "core_With E (multiCore cs) fs st = (Ok c', st')"
    then obtain cs' where w: "cores_With E cs fs st = (Ok cs', st')" "c' = multiCore cs'"
      using core_With_nested(4) by blast
    have "core_With E (multiCore cs) fs s = (Ok c', s)" if "later st' s" for s
      using stable [OF _ w(1)] that w(2) by simp
    then show "set (lazy_ids c') \<subseteq> set (lazy_ids (multiCore cs)) \<and> wf_lazy c' \<and> later st st' \<and>
       (\<forall>j. j \<notin> set (lazy_ids (multiCore cs)) \<longrightarrow> st' j = st j) \<and>
       (\<forall>s. later st' s \<longrightarrow> core_With E (multiCore cs) fs s = (Ok c', s))"
      using stable [OF _ w(1)] w(2) by simp
  qed
next
  case (hooked c hs)
  then show ?case by (intro With_stable_wrap [where k = "\<lambda>c. hooked c hs"]) simp_all
next
  case (filter c en)
  then show ?case by (intro With_stable_wrap [where k = "\<lambda>c. levelFilterCore c en"]) simp_all
next
  case (lazy i c fs0)
  then show ?case by (intro With_stable_lazy) auto
next
  case (sampler c i dur first thereafter h)
  then show ?case
    by (intro With_stable_wrap [where k = "\<lambda>c. sampler c i dur first thereafter h"]) simp_all
qed (auto simp: With_stable_def map_outcome_Ok)

section \<open>Check\<close>

text \<open>\<open>Check\<close> touches neither levels nor destinations, observers and hooks.\<close>

definition same_outputs :: "('v, 'z) world_scheme \<Rightarrow> ('v, 'z) world_scheme \<Rightarrow> bool" where
  "same_outputs w w' \<longleftrightarrow> cells w' = cells w \<and> sinks w' = sinks w \<and> observed w' = observed w \<and>
     hooks_run w' = hooks_run w"

lemma sampler_decide_frame: "same_outputs w (snd (sampler_decide i dur first thereafter h ent w))"
  by (simp add: same_outputs_def sampler_decide_def split_def Let_def split: option.splits)

lemma core_Check_frame:
  fixes w :: "('v, 'z) world_scheme"
  shows "same_outputs w (snd (core_Check E c ent ce w))"
proof (induction c arbitrary: ce w rule: core_induct)
  case (multi cs)
  have "same_outputs w (snd (cores_Check E ds ent ce w))" if "set ds \<subseteq> set cs"
    for ds ce and w :: "('v, 'z) world_scheme"
    using that
  proof (induction ds arbitrary: ce w)
    case (Cons d ds)
    obtain r w1 where r: "core_Check E d ent ce w = (r, w1)" by fastforce
    have "same_outputs w w1" using multi [of d w ce] Cons.prems r by simp
    then show ?case using r Cons by (cases r) (auto simp: same_outputs_def)
  qed (simp add: same_outputs_def)
  then show ?case by simp
next
  case (hooked c hs)
  obtain r w1 where r: "core_Check E c ent ce w = (r, w1)" by fastforce
  then have "same_outputs w w1" using hooked [of w ce] by simp
  then show ?case using r by (auto split: outcome.splits option.splits)
next
  case (lazy i c fs)
  then show ?case
    by (auto simp: same_outputs_def split: prod.splits outcome.splits dest!: initOnce_csize)
next
  case (sampler c i dur first thereafter h)
  then show ?case
    using sampler_decide_frame [of w i dur first thereafter h ent]
    by (auto simp: same_outputs_def split: prod.splits)
qed (auto simp: same_outputs_def)

lemma core_Check_disabled:
  fixes w :: "('v, 'z) world_scheme"
  shows "\<not> core_Enabled (cells w) c (ent_Level ent) \<Longrightarrow> core_Check E c ent None w = (Ok r, w') \<Longrightarrow> r = None"
proof (induction c arbitrary: r w w' rule: core_induct)
  case (multi cs)
  have "r = None" if "set ds \<subseteq> set cs" "\<not> list_ex (\<lambda>c. core_Enabled (cells w) c (ent_Level ent)) ds"
      "cores_Check E ds ent None w = (Ok r, w')"
    for ds and w :: "('v, 'z) world_scheme"
    using that
  proof (induction ds arbitrary: w)
    case (Cons d ds)
    obtain x w1 where x: "core_Check E d ent None w = (x, w1)" by fastforce
    then obtain r1 where r1: "x = Ok r1" using Cons.prems(3) by (cases x) auto
    have "r1 = None" using multi.IH [of d w r1 w1] Cons.prems x r1 by auto
    moreover have "cells w1 = cells w"
      using core_Check_frame [of w E d ent None] x by (simp add: same_outputs_def)
    ultimately show ?case using Cons.IH [of w1] Cons.prems x r1 by simp
  qed simp
  from this [of cs w] show ?case using multi.prems by simp
next
  case (hooked c hs)
  then show ?case
    by (cases "core_Check E c ent None w") (auto split: outcome.splits option.splits)
next
  case (lazy i c fs)
  obtain x st where i: "initOnce E i c fs (onces w) = (x, st)" by fastforce
  then obtain c1 where c1: "x = Ok c1" "core_Check E c1 ent None (w\<lparr>onces := st\<rparr>) = (Ok r, w')"
    using lazy.prems(2) by (cases x) auto
  have "core_Enabled (cells w) c1 (ent_Level ent) = core_Enabled (cells w) c (ent_Level ent)"
    using i c1(1) by (auto elim!: initOnceE dest: core_With_Enabled)
  then show ?case
    using lazy.IH [OF initOnce_csize [of E i c fs "onces w" c1 st] _ c1(2)] lazy.prems(1) i c1(1) by simp
qed (auto split: if_splits)

section \<open>Properties\<close>

text \<open>
  Context fields do not change which levels are enabled: for every core of the library, the
  core that \<open>With\<close> returns is enabled for exactly the levels for which the core is.
\<close>

lemma With_keeps_Enabled:
  assumes "core_With E c fs st = (Ok c', st')"
  shows "core_Enabled a c' l = core_Enabled a c l"
  by (rule core_With_Enabled [OF assms])

lemma With_keeps_Enabled_example:
  "\<exists>c' st'. core_With sample_env (multiCore [hooked nopCore [], lazyWithCore 0 (contextObserver (LevelE WarnLevel) 0 []) []])
      [] (\<lambda>i. NotDone) = (Ok c', st') \<and> core_Enabled (\<lambda>i. 0) c' ErrorLevel"
proof -
  let ?c = "multiCore [hooked nopCore [], lazyWithCore 0 (contextObserver (LevelE WarnLevel) 0 []) []] :: nat core"
  have w: "core_With sample_env ?c [] (\<lambda>i. NotDone) =
      (Ok (multiCore [hooked nopCore [], contextObserver (LevelE WarnLevel) 0 []]), (\<lambda>i. NotDone)(0 := Done))"
    by (simp add: cores_With.simps core_With_lazy initOnce_def)
  have "core_Enabled (\<lambda>i. 0) ?c ErrorLevel"
    by (simp add: enab_Enabled_def Level_Enabled_def WarnLevel_def ErrorLevel_def level_simps)
  then show ?thesis using With_keeps_Enabled [OF w] w by blast
qed

text \<open>
  \<open>Check\<close> with a fresh entry never registers a core when the level is disabled: whatever the
  cores are made of, the result is the nil checked entry.
\<close>

lemma Check_respects_level:
  assumes "\<not> core_Enabled (cells w) c (ent_Level ent)"
  shows "(\<exists>m. fst (core_Check E c ent None w) = Panic m) \<or> fst (core_Check E c ent None w) = Ok None"
  using core_Check_disabled [OF assms, of E]
  by (cases "core_Check E c ent None w"; cases "fst (core_Check E c ent None w)") auto


text \<open>
  C29: \<open>NewIncreaseLevelCore\<close> accepts a level exactly when it does not enable any of the supported
  levels that the core does not enable.
\<close>

theorem NewIncreaseLevelCore_only_restricts:
  "(\<exists>c'. NewIncreaseLevelCore st c en = Inr c') \<longleftrightarrow>
     (\<forall>l \<in> set all_levels. enab_Enabled st en l \<longrightarrow> core_Enabled st c l)"
proof (cases "find (\<lambda>l. \<not> core_Enabled st c l \<and> enab_Enabled st en l) (rev all_levels)")
  case None
  then have "NewIncreaseLevelCore st c en = Inr (levelFilterCore c en)" by (simp add: NewIncreaseLevelCore_def)
  then show ?thesis using None by (auto simp: find_None_iff)
next
  case (Some l)
  then have "\<not> core_Enabled st c l" "enab_Enabled st en l" by (auto simp: find_Some_iff)
  moreover have "l \<in> set all_levels" using Some by (metis find_Some_iff nth_mem set_rev)
  ultimately show ?thesis using Some by (auto simp: NewIncreaseLevelCore_def)
qed

section \<open>Witnesses\<close>

definition sample_world :: "nat world" where
  "sample_world = ios.extend sample_ios \<lparr>cells = (\<lambda>i. 0), samples = (\<lambda>i. newCounters), onces = (\<lambda>i. NotDone),
     observed = (\<lambda>i. []), hooks_run = [], decisions = []\<rparr>"

lemma sample_world_simps [simp]:
  "cells sample_world = (\<lambda>i. 0)" "onces sample_world = (\<lambda>i. NotDone)" "observed sample_world = (\<lambda>i. [])"
  "sinks sample_world = sinks sample_ios" "hooks_run sample_world = []"
  by (simp_all add: sample_world_def ios.defs sample_ios_def)

text \<open>An observer for warnings.\<close>

definition sample_core :: "nat core" where
  "sample_core = contextObserver (LevelE WarnLevel) 0 []"

lemma sample_core_levels: "core_Enabled st sample_core ErrorLevel" "\<not> core_Enabled st sample_core InfoLevel"
  by (simp_all add: sample_core_def enab_Enabled_def Level_Enabled_def WarnLevel_def ErrorLevel_def
      InfoLevel_def level_simps)

lemma Check_respects_level_example:
  "fst (core_Check sample_env (RegisterHooks sample_core []) sample_entry None sample_world) = Ok None"
proof -
  have "\<not> core_Enabled (cells sample_world) (RegisterHooks sample_core []) (ent_Level sample_entry)"
    using sample_core_levels by (simp add: RegisterHooks_def sample_entry_def)
  moreover have "fst (core_Check sample_env (RegisterHooks sample_core []) sample_entry None sample_world) \<noteq> Panic m" for m
    by (simp add: RegisterHooks_def sample_core_def split: option.splits)
  ultimately show ?thesis using Check_respects_level by blast
qed


theorem NewIncreaseLevelCore_only_restricts_witness:
  "\<not> (\<exists>c'. NewIncreaseLevelCore (\<lambda>i. 0) sample_core (LevelE InfoLevel) = Inr c')"
proof -
  have "InfoLevel \<in> set all_levels" by (simp add: all_levels_def)
  moreover have "enab_Enabled (\<lambda>i. 0) (LevelE InfoLevel) InfoLevel"
    by (simp add: enab_Enabled_def Level_Enabled_def)
  ultimately show ?thesis
    using NewIncreaseLevelCore_only_restricts [of "\<lambda>i. 0" sample_core "LevelE InfoLevel"]
      sample_core_levels(2) by blast
qed

section \<open>Divergences\<close>

text \<open>
  C39: a hooked core registers itself with every checked entry that exists already, even if its
  own level is disabled; so behind a core that logs the entry, its hooks run for an entry that
  the hooked core does not log.
\<close>

theorem hooked_runs_for_declined_entry:
  assumes "enab_Enabled (cells w) en (ent_Level ent)" and "\<not> enab_Enabled (cells w) en' (ent_Level ent)"
    and "core_Check E (NewTee [ioCore en enc out, RegisterHooks (ioCore en' enc' out') hs]) ent None w = (r, w')"
  shows "\<exists>ce. r = Ok (Some ce) \<and> cores ce = [ioCore en enc out, hooked (ioCore en' enc' out') hs]"
  using assms by (auto simp: NewTee_def RegisterHooks_def AddCore_def getCheckedEntry_def ce_reset_def Let_def)

theorem hooked_runs_for_declined_entry_witness:
  "\<exists>ce. fst (core_Check sample_env (NewTee [ioCore (LevelE InfoLevel) (CustomEnc [] (\<lambda>c e f. Ok (Inr []))) (Sink 0),
       RegisterHooks (ioCore (LevelE WarnLevel) (CustomEnc [] (\<lambda>c e f. Ok (Inr []))) (Sink 1)) [(7, \<lambda>e. None)]])
       sample_entry None sample_world) = Ok (Some ce) \<and> length (cores ce) = 2"
proof -
  have "enab_Enabled (cells sample_world) (LevelE InfoLevel) (ent_Level sample_entry)"
    "\<not> enab_Enabled (cells sample_world) (LevelE WarnLevel) (ent_Level sample_entry)"
    by (simp_all add: enab_Enabled_def Level_Enabled_def sample_entry_def WarnLevel_def InfoLevel_def level_simps)
  from hooked_runs_for_declined_entry [OF this prod.collapse [symmetric]] show ?thesis by fastforce
qed

text \<open>
  The level of a tee whose cores enable nothing.  The documentation of \<open>LevelOf\<close> promises
  \<open>InvalidLevel\<close> for such a core, but a tee reports \<open>FatalLevel\<close>.
\<close>

lemma tee_of_nops_reports_Fatal:
  "core_Level st (NewTee (replicate (n + 2) (nopCore :: 'v core))) = FatalLevel \<and>
   \<not> core_Enabled st (NewTee (replicate (n + 2) (nopCore :: 'v core))) FatalLevel \<and>
   FatalLevel \<noteq> InvalidLevel"
proof -
  let ?nop = "nopCore :: 'v core"
  have n: "core_Level st ?nop = InvalidLevel" by (simp add: level_scan.simps level_simps minLevel_def)
  have f: "foldl (\<lambda>m c. if core_Level st c < m then core_Level st c else m) maxLevel (replicate k ?nop) = maxLevel" for k
    by (induction k) (simp_all add: n del: core_Level.simps, simp add: level_simps InvalidLevel_def)
  have t: "NewTee (replicate (n + 2) ?nop) = multiCore (replicate (n + 2) ?nop)" by (simp add: NewTee_def)
  have e: "\<not> list_ex (\<lambda>c. core_Enabled st c FatalLevel) (replicate k ?nop)" for k by (induction k) auto
  have "FatalLevel \<noteq> InvalidLevel" by (simp add: level_simps)
  then show ?thesis unfolding t core_Level.simps(3) core_Enabled.simps(3) f using e by (simp add: maxLevel_def)
qed

end
