(* ===== verification/Lad_Stack.thy ===== *)
theory Lad_Stack
  imports Lad_Encoder
begin

text \<open>
  Stack traces (\<open>internal/stacktrace/stack.go\<close>).  The goroutine's call stack at the moment of
  the call is a parameter, the list of frames that \<open>runtime.Callers\<close> and \<open>runtime.CallersFrames\<close>
  see, innermost first; the caller of \<open>Capture\<close> is its head.
\<close>

record frame =
  frame_PC :: uint64
  frame_File :: bytes
  frame_Line :: int64
  frame_Function :: bytes

datatype depth = First | Full

text \<open>\<open>runtime.Callers\<close> fills a slice of \<open>n\<close> program counters as far as there are frames.\<close>

definition runtime_Callers :: "frame list \<Rightarrow> int \<Rightarrow> nat \<Rightarrow> frame list" where
  "runtime_Callers stk skip n = take n (drop (nat skip) stk)"

text \<open>
  The loop that doubles the storage until the stack fits; the result is the new storage size
  and the frames.
\<close>

partial_function (option) capture_loop ::
  "frame list \<Rightarrow> int \<Rightarrow> nat \<Rightarrow> frame list \<Rightarrow> (nat \<times> frame list) option" where
  [code]: "capture_loop stk skip len pcs =
     (if length pcs = len then capture_loop stk skip (len * 2) (runtime_Callers stk skip (len * 2))
      else Some (len, pcs))"

text \<open>\<open>storage\<close> is the size of the storage of the pooled \<open>Stack\<close>.\<close>

definition Capture :: "nat \<Rightarrow> frame list \<Rightarrow> int \<Rightarrow> depth \<Rightarrow> (nat \<times> frame list) option" where
  "Capture storage stk skip d =
     (case d of
        First \<Rightarrow> Some (storage, runtime_Callers stk skip 1)
      | Full \<Rightarrow> capture_loop stk skip storage (runtime_Callers stk skip storage))"

text \<open>\<open>Frames.Next\<close>: the next frame, whether there are more, and the rest.\<close>

definition zeroFrame :: frame where
  "zeroFrame = \<lparr>frame_PC = 0, frame_File = [], frame_Line = 0, frame_Function = []\<rparr>"

definition stack_Next :: "frame list \<Rightarrow> (frame \<times> bool) \<times> frame list" where
  "stack_Next frames = (case frames of [] \<Rightarrow> ((zeroFrame, False), []) | f # fs \<Rightarrow> ((f, fs \<noteq> []), fs))"

definition FormatFrame :: "frame \<Rightarrow> buffer \<times> bool \<Rightarrow> buffer \<times> bool" where
  "FormatFrame f sf =
     (let b = (if snd sf then AppendByte (fst sf) (CHR 0x0A) else fst sf)
      in (AppendInt (AppendByte (AppendString (AppendByte (AppendByte
            (AppendString b (frame_Function f)) (CHR 0x0A)) (CHR 0x09)) (frame_File f)) (CHR '':''))
            (frame_Line f), True))"

text \<open>The loop of \<open>FormatStack\<close>; it stops at the last frame without formatting it.\<close>

fun FormatStack :: "frame list \<Rightarrow> buffer \<times> bool \<Rightarrow> buffer \<times> bool" where
  "FormatStack [] sf = sf"
| "FormatStack [f] sf = sf"
| "FormatStack (f # g # fs) sf = FormatStack (g # fs) (FormatFrame f sf)"

definition stacktrace_Take :: "nat \<Rightarrow> frame list \<Rightarrow> int \<Rightarrow> bytes option" where
  "stacktrace_Take storage stk skip =
     map_option (\<lambda>(_, frames). fst (FormatStack frames ([], False))) (Capture storage stk (skip + 1) Full)"

section \<open>Correctness\<close>

text \<open>The text of one frame, and of several, one after the other.\<close>

definition frame_text :: "frame \<Rightarrow> bytes" where
  "frame_text f = frame_Function f @ [CHR 0x0A, CHR 0x09] @ frame_File f @ '':'' @ dec_int (sint (frame_Line f))"

fun frames_text :: "frame list \<Rightarrow> bytes" where
  "frames_text [] = []"
| "frames_text [f] = frame_text f"
| "frames_text (f # fs) = frame_text f @ [CHR 0x0A] @ frames_text fs"

lemma FormatFrame_text:
  "FormatFrame f (b, ne) = (b @ (if ne then [CHR 0x0A] else []) @ frame_text f, True)"
  by (simp add: FormatFrame_def frame_text_def AppendByte_def AppendString_def AppendInt_def Let_def)

lemma FormatStack_text:
  "FormatStack fs (b, ne) =
     (if length fs \<le> 1 then (b, ne)
      else (b @ (if ne then [CHR 0x0A] else []) @ frames_text (butlast fs), True))"
proof (induction fs "(b, ne)" arbitrary: b ne rule: FormatStack.induct)
  case (3 f g fs)
  let ?b = "b @ (if ne then [CHR 0x0A] else []) @ frame_text f"
  have "FormatStack (g # fs) (?b, True) =
      (if length (g # fs) \<le> 1 then (?b, True) else (?b @ [CHR 0x0A] @ frames_text (butlast (g # fs)), True))"
    using 3 by (simp add: FormatFrame_text)
  moreover have "FormatStack (f # g # fs) (b, ne) = FormatStack (g # fs) (?b, True)"
    by (simp add: FormatFrame_text)
  ultimately show ?case by (cases fs) simp_all
qed auto

lemma capture_loop_all:
  assumes "0 < len"
  shows "\<exists>n. capture_loop stk skip len (runtime_Callers stk skip len) = Some (n, drop (nat skip) stk) \<and> len \<le> n"
  using assms
proof (induction "length (drop (nat skip) stk) - len" arbitrary: len rule: less_induct)
  case less
  let ?fs = "drop (nat skip) stk"
  show ?case
  proof (cases "length (runtime_Callers stk skip len) = len")
    case True
    then have l: "len \<le> length ?fs" by (auto simp: runtime_Callers_def)
    have "\<exists>n. capture_loop stk skip (len * 2) (runtime_Callers stk skip (len * 2)) = Some (n, ?fs) \<and> len * 2 \<le> n"
    proof (cases "len = length ?fs")
      case eq: True
      then have "runtime_Callers stk skip (len * 2) = ?fs" "length ?fs \<noteq> len * 2"
        using less.prems by (auto simp: runtime_Callers_def)
      then show ?thesis by (subst capture_loop.simps) simp
    next
      case False
      then show ?thesis using l less.prems by (intro less.hyps) auto
    qed
    then show ?thesis using True by (subst capture_loop.simps) auto
  next
    case False
    then have "runtime_Callers stk skip len = ?fs" by (auto simp: runtime_Callers_def min_def split: if_splits)
    then show ?thesis using False by (subst capture_loop.simps) simp
  qed
qed

text \<open>What \<open>Capture\<close> returns, as a function of the stack alone.\<close>

definition captured :: "frame list \<Rightarrow> int \<Rightarrow> depth \<Rightarrow> frame list" where
  "captured stk skip d = (case d of First \<Rightarrow> take 1 (drop (nat skip) stk) | Full \<Rightarrow> drop (nat skip) stk)"

lemma Capture_captured: "0 < storage \<Longrightarrow> \<exists>n. Capture storage stk skip d = Some (n, captured stk skip d)"
  using capture_loop_all [of storage stk skip]
  by (auto simp: Capture_def captured_def runtime_Callers_def split: depth.splits)

lemma stack_text:
  assumes "0 < storage"
  shows "stacktrace_Take storage stk skip = Some (frames_text (butlast (drop (nat (skip + 1)) stk)))"
proof -
  obtain n where "Capture storage stk (skip + 1) Full = Some (n, drop (nat (skip + 1)) stk)"
    using capture_loop_all [OF assms, of stk "skip + 1"] by (auto simp: Capture_def)
  moreover have "length fs \<le> 1 \<Longrightarrow> butlast fs = []" for fs :: "frame list" by (cases fs) auto
  ultimately show ?thesis by (simp add: stacktrace_Take_def FormatStack_text)
qed

section \<open>Properties\<close>

text \<open>
  C28: capturing a full stack ends, and nothing is cut off: from any storage that is not empty the
  loop returns, and what it returns are all frames above the skipped ones.  The storage that goes
  back to the pool is at least as large as before.
\<close>

theorem Capture_Full_complete:
  assumes "0 < storage"
  shows "\<exists>storage'. Capture storage stk skip Full = Some (storage', drop (nat skip) stk) \<and> storage \<le> storage'"
  using capture_loop_all [OF assms] by (simp add: Capture_def)

definition sample_frames :: "frame list" where
  "sample_frames = map (\<lambda>f. zeroFrame\<lparr>frame_Function := f, frame_PC := 1\<rparr>) [''check'', ''Info'', ''main.f'', ''main.main'', ''goexit'']"

theorem Capture_Full_complete_witness:
  "\<exists>storage'. Capture 1 sample_frames 2 Full = Some (storage', drop 2 sample_frames) \<and> 1 \<le> storage'"
  using Capture_Full_complete [of 1 sample_frames 2] by simp

text \<open>
  the text of a stack trace: \<open>Take\<close> returns the function, file and line of every frame above the
  skipped ones, in order and separated by newlines, except for the last frame, which belongs to
  the runtime.
\<close>

lemma stacktrace_Take_text:
  assumes "0 < storage"
  shows "stacktrace_Take storage stk skip = Some (frames_text (butlast (drop (nat (skip + 1)) stk)))"
  by (rule stack_text [OF assms])

lemma stacktrace_Take_text_example:
  "stacktrace_Take 64 sample_frames 2 = Some (''main.main'' @ [CHR 0x0A, CHR 0x09] @ '':0'')"
proof -
  have "dec_int 0 = ''0''" by code_simp
  then show ?thesis
    using stacktrace_Take_text [of 64 sample_frames 2]
    by (simp add: sample_frames_def frame_text_def zeroFrame_def)
qed

end
