(* ===== verification/Lad_Logger.thy ===== *)
theory Lad_Logger
  imports Lad_Core_Props Lad_Stack
begin

text \<open>
  The logger (\<open>logger.go\<close>) and its options (\<open>options.go\<close>).
\<close>

section \<open>State\<close>

text \<open>
  What a call of a logging method finds outside the library: the time and the call stack, as
  \<open>Logger.check\<close> sees it; \<open>err_stack\<close> is the stack of a call that the sugared logger makes to
  report a misuse.
\<close>

record site =
  sys_now :: time
  call_stack :: "frame list"
  err_stack :: "frame list"

text \<open>A clock is what \<open>Now\<close> returns at a given time of the system; nil is not allowed.\<close>

record 'v Logger =
  l_core :: "'v core"
  development :: bool
  addCaller :: bool
  onPanic :: "'v write_hook option"
  onFatal :: "'v write_hook option"
  l_name :: bytes
  errorOutput :: ws
  addStack :: enabler
  callerSkip :: int
  l_clock :: "time \<Rightarrow> time"

text \<open>The sinks that stand for \<open>os.Stderr\<close>, \<open>os.Stdout\<close> and \<open>io.Discard\<close>.\<close>

definition os_Stdout :: nat where "os_Stdout = 1"
definition os_Stderr :: nat where "os_Stderr = 2"
definition io_Discard :: nat where "io_Discard = 3"

definition NewNop :: "'v Logger" where
  "NewNop = \<lparr>l_core = NewNopCore, development = False, addCaller = False, onPanic = None, onFatal = None,
     l_name = [], errorOutput = AddSync (NoSync io_Discard),
     addStack = LevelE (Level (lvl FatalLevel + 1)), callerSkip = 0, l_clock = (\<lambda>t. t)\<rparr>"

section \<open>Options\<close>

datatype 'v Option =
    WrapCore "'v core \<Rightarrow> 'v core"
  | Hooks "entry_hook list"
  | Fields "'v Field list"
  | ErrorOutputOpt ws
  | Development
  | WithCaller bool
  | AddCallerSkip int
  | AddStacktrace enabler
  | IncreaseLevel enabler
  | WithPanicHook "'v write_hook option"
  | WithFatalHook "'v write_hook option"
  | WithClock "time \<Rightarrow> time"

definition AddCaller :: "'v Option" where
  "AddCaller = WithCaller True"

definition OnFatal :: "CheckWriteAction \<Rightarrow> 'v Option" where
  "OnFatal action = WithFatalHook (Some (Action action))"

text \<open>\<open>Core.With\<close> on the state of the world.\<close>

definition With_world ::
  "'v env \<Rightarrow> 'v core \<Rightarrow> 'v Field list \<Rightarrow> ('v, 'z) world_scheme \<Rightarrow> 'v core outcome \<times> ('v, 'z) world_scheme" where
  "With_world E c fs w = (case core_With E c fs (onces w) of (r, st) \<Rightarrow> (r, w\<lparr>onces := st\<rparr>))"

primrec apply_Option ::
  "'v env \<Rightarrow> 'v Option \<Rightarrow> 'v Logger \<Rightarrow> ('v, 'z) world_scheme \<Rightarrow> 'v Logger outcome \<times> ('v, 'z) world_scheme"
where
  "apply_Option E (WrapCore f) log w = (Ok (log\<lparr>l_core := f (l_core log)\<rparr>), w)"
| "apply_Option E (Hooks hs) log w = (Ok (log\<lparr>l_core := RegisterHooks (l_core log) hs\<rparr>), w)"
| "apply_Option E (Fields fs) log w =
     apfst (map_outcome (\<lambda>c. log\<lparr>l_core := c\<rparr>)) (With_world E (l_core log) fs w)"
| "apply_Option E (ErrorOutputOpt out) log w = (Ok (log\<lparr>errorOutput := out\<rparr>), w)"
| "apply_Option E Development log w = (Ok (log\<lparr>development := True\<rparr>), w)"
| "apply_Option E (WithCaller enabled) log w = (Ok (log\<lparr>addCaller := enabled\<rparr>), w)"
| "apply_Option E (AddCallerSkip skip) log w = (Ok (log\<lparr>callerSkip := callerSkip log + skip\<rparr>), w)"
| "apply_Option E (AddStacktrace en) log w = (Ok (log\<lparr>addStack := en\<rparr>), w)"
| "apply_Option E (IncreaseLevel en) log w =
     (case NewIncreaseLevelCore (cells w) (l_core log) en of
        Inl err \<Rightarrow> (Ok log, snd (ws_Write E (errorOutput log)
          (''failed to IncreaseLevel: '' @ err_fmt err @ [CHR 0x0A]) w))
      | Inr c \<Rightarrow> (Ok (log\<lparr>l_core := c\<rparr>), w))"
| "apply_Option E (WithPanicHook hook) log w = (Ok (log\<lparr>onPanic := hook\<rparr>), w)"
| "apply_Option E (WithFatalHook hook) log w = (Ok (log\<lparr>onFatal := hook\<rparr>), w)"
| "apply_Option E (WithClock clock) log w = (Ok (log\<lparr>l_clock := clock\<rparr>), w)"

primrec WithOptions ::
  "'v env \<Rightarrow> 'v Option list \<Rightarrow> 'v Logger \<Rightarrow> ('v, 'z) world_scheme \<Rightarrow> 'v Logger outcome \<times> ('v, 'z) world_scheme"
where
  "WithOptions E [] log w = (Ok log, w)"
| "WithOptions E (opt # opts) log w =
     (case apply_Option E opt log w of
        (Ok log', w') \<Rightarrow> WithOptions E opts log' w'
      | (Panic m, w') \<Rightarrow> (Panic m, w'))"

definition Logger_New ::
  "'v env \<Rightarrow> 'v core option \<Rightarrow> 'v Option list \<Rightarrow> ('v, 'z) world_scheme \<Rightarrow>
   'v Logger outcome \<times> ('v, 'z) world_scheme" where
  "Logger_New E c opts w =
     (case c of
        None \<Rightarrow> (Ok NewNop, w)
      | Some c \<Rightarrow>
          WithOptions E opts \<lparr>l_core = c, development = False, addCaller = False, onPanic = None,
            onFatal = None, l_name = [], errorOutput = Lock (Sink os_Stderr),
            addStack = LevelE (Level (lvl FatalLevel + 1)), callerSkip = 0, l_clock = (\<lambda>t. t)\<rparr> w)"

section \<open>Derived loggers\<close>

definition Logger_Named :: "bytes \<Rightarrow> 'v Logger \<Rightarrow> 'v Logger" where
  "Logger_Named s log =
     (if s = [] then log
      else if l_name log = [] then log\<lparr>l_name := s\<rparr>
      else log\<lparr>l_name := l_name log @ ''.'' @ s\<rparr>)"

definition Logger_With ::
  "'v env \<Rightarrow> 'v Field list \<Rightarrow> 'v Logger \<Rightarrow> ('v, 'z) world_scheme \<Rightarrow>
   'v Logger outcome \<times> ('v, 'z) world_scheme" where
  "Logger_With E fs log w =
     (if fs = [] then (Ok log, w)
      else apfst (map_outcome (\<lambda>c. log\<lparr>l_core := c\<rparr>)) (With_world E (l_core log) fs w))"

text \<open>The new lazy core gets the \<open>sync.Once\<close> with the number \<open>i\<close>.\<close>

definition Logger_WithLazy ::
  "'v env \<Rightarrow> nat \<Rightarrow> 'v Field list \<Rightarrow> 'v Logger \<Rightarrow> ('v, 'z) world_scheme \<Rightarrow>
   'v Logger outcome \<times> ('v, 'z) world_scheme" where
  "Logger_WithLazy E i fs log w =
     (if fs = [] then (Ok log, w) else WithOptions E [WrapCore (\<lambda>c. NewLazyWith i c fs)] log w)"

definition Logger_Level :: "atomics \<Rightarrow> 'v Logger \<Rightarrow> level" where
  "Logger_Level st log = core_Level st (l_core log)"

definition Logger_Sync ::
  "'v env \<Rightarrow> 'v Logger \<Rightarrow> ('v, 'z) world_scheme \<Rightarrow> error option \<times> ('v, 'z) world_scheme" where
  "Logger_Sync E log w = core_Sync E (l_core log) w"

section \<open>Checking and writing\<close>

definition terminalHookOverride :: "'v write_hook \<Rightarrow> 'v write_hook option \<Rightarrow> 'v write_hook" where
  "terminalHookOverride defaultHook override =
     (case override of
        None \<Rightarrow> defaultHook
      | Some (Action WriteThenNoop) \<Rightarrow> defaultHook
      | Some hook \<Rightarrow> hook)"

text \<open>The terminal behaviour that \<open>check\<close> sets up.\<close>

definition terminal_hook :: "'v Logger \<Rightarrow> level \<Rightarrow> 'v write_hook option" where
  "terminal_hook log l =
     (if l = PanicLevel then Some (terminalHookOverride (Action WriteThenPanic) (onPanic log))
      else if l = FatalLevel then Some (terminalHookOverride (Action WriteThenFatal) (onFatal log))
      else if l = DPanicLevel \<and> development log
        then Some (terminalHookOverride (Action WriteThenPanic) (onPanic log))
      else None)"

text \<open>The annotation of an entry that will be written.\<close>

definition annotate ::
  "'v env \<Rightarrow> 'v Logger \<Rightarrow> site \<Rightarrow> Entry \<Rightarrow> 'v CheckedEntry \<Rightarrow> ('v, 'z) world_scheme \<Rightarrow>
   'v CheckedEntry \<times> ('v, 'z) world_scheme" where
  "annotate E log s ent ce w =
     (let ce = ce\<lparr>ErrorOutput := Some (errorOutput log)\<rparr>;
          stk = enab_Enabled (cells w) (addStack log) (ent_Level (ce_Entry ce))
      in if \<not> addCaller log \<and> \<not> stk then (ce, w)
         else let frames = captured (call_stack s) (callerSkip log + 2) (if stk then Full else First)
           in if frames = [] then
                (ce, if addCaller log then error_line E (Some (errorOutput log))
                       (TimeString E (time_In (ent_Time ent) UTC) @ '' Logger.check error: failed to get caller'' @
                        [CHR 0x0A]) w
                     else w)
              else let ((fr, rest_left), rest) = stack_Next frames;
                       ce = (if addCaller log then
                               ce\<lparr>ce_Entry := (ce_Entry ce)\<lparr>ent_Caller := \<lparr>Defined = (frame_PC fr \<noteq> 0),
                                 PC = frame_PC fr, File = frame_File fr, Line = frame_Line fr,
                                 Function = frame_Function fr\<rparr>\<rparr>\<rparr>
                             else ce);
                       sf = FormatFrame fr ([], False);
                       sf = (if rest_left then FormatStack rest sf else sf)
                   in (if stk then ce\<lparr>ce_Entry := (ce_Entry ce)\<lparr>ent_Stack := fst sf\<rparr>\<rparr> else ce, w))"

definition log_entry :: "'v Logger \<Rightarrow> level \<Rightarrow> bytes \<Rightarrow> site \<Rightarrow> Entry" where
  "log_entry log l msg s = zeroEntry\<lparr>ent_LoggerName := l_name log, ent_Time := l_clock log (sys_now s),
     ent_Level := l, ent_Message := msg\<rparr>"

definition Logger_check ::
  "'v env \<Rightarrow> 'v Logger \<Rightarrow> level \<Rightarrow> bytes \<Rightarrow> site \<Rightarrow> ('v, 'z) world_scheme \<Rightarrow>
   'v CheckedEntry option outcome \<times> ('v, 'z) world_scheme" where
  "Logger_check E log l msg s w =
     (if l < DPanicLevel \<and> \<not> core_Enabled (cells w) (l_core log) l then (Ok None, w)
      else let ent = log_entry log l msg s in
        case core_Check E (l_core log) ent None w of
          (Panic m, w') \<Rightarrow> (Panic m, w')
        | (Ok ce, w') \<Rightarrow>
            let ce' = (case terminal_hook log l of None \<Rightarrow> ce | Some hook \<Rightarrow> After ce ent hook) in
            if ce = None then (Ok ce', w')
            else (case ce' of
                    None \<Rightarrow> (Ok None, w')
                  | Some ce' \<Rightarrow> (case annotate E log s ent ce' w' of (ce'', w'') \<Rightarrow> (Ok (Some ce''), w''))))"

definition Logger_Check ::
  "'v env \<Rightarrow> 'v Logger \<Rightarrow> level \<Rightarrow> bytes \<Rightarrow> site \<Rightarrow> ('v, 'z) world_scheme \<Rightarrow>
   'v CheckedEntry option outcome \<times> ('v, 'z) world_scheme" where
  "Logger_Check E log l msg s w = Logger_check E log l msg s w"

definition Logger_Log ::
  "'v env \<Rightarrow> 'v Logger \<Rightarrow> level \<Rightarrow> bytes \<Rightarrow> 'v Field list \<Rightarrow> site \<Rightarrow> ('v, 'z) world_scheme \<Rightarrow>
   control \<times> ('v, 'z) world_scheme" where
  "Logger_Log E log l msg fs s w =
     (case Logger_check E log l msg s w of
        (Panic m, w') \<Rightarrow> (Panics m, w')
      | (Ok None, w') \<Rightarrow> (Returns, w')
      | (Ok (Some ce), w') \<Rightarrow> (case ce_Write E (Some ce) fs w' of (ctl, _, w'') \<Rightarrow> (ctl, w'')))"

definition Logger_Debug where "Logger_Debug E log = Logger_Log E log DebugLevel"
definition Logger_Info where "Logger_Info E log = Logger_Log E log InfoLevel"
definition Logger_Warn where "Logger_Warn E log = Logger_Log E log WarnLevel"
definition Logger_Error where "Logger_Error E log = Logger_Log E log ErrorLevel"
definition Logger_DPanic where "Logger_DPanic E log = Logger_Log E log DPanicLevel"
definition Logger_Panic where "Logger_Panic E log = Logger_Log E log PanicLevel"
definition Logger_Fatal where "Logger_Fatal E log = Logger_Log E log FatalLevel"

end
