(* ===== verification/Lad_Logger_Props.thy ===== *)
theory Lad_Logger_Props
  imports Lad_Logger
begin

text \<open>
  What a logging call does: the destinations it reaches, what they receive, and how the call ends.
\<close>

section \<open>Checked entries\<close>

definition fresh_ce :: "Entry \<Rightarrow> 'v CheckedEntry option \<Rightarrow> bool" where
  "fresh_ce ent ce \<longleftrightarrow>
     (case ce of None \<Rightarrow> True
      | Some x \<Rightarrow> \<not> dirty x \<and> after x = None \<and> ce_Entry x = ent \<and> ErrorOutput x = None)"

lemma fresh_AddCore: "fresh_ce ent ce \<Longrightarrow> fresh_ce ent (AddCore ce ent c)"
  by (auto simp: fresh_ce_def AddCore_def getCheckedEntry_def ce_reset_def Let_def split: option.splits)

lemma core_Check_fresh:
  fixes w :: "('v, 'z) world_scheme"
  shows "core_Check E c ent ce w = (Ok r, w') \<Longrightarrow> fresh_ce ent ce \<Longrightarrow> fresh_ce ent r"
proof (induction c arbitrary: ce r w w' rule: core_induct)
  case (multi cs)
  have "fresh_ce ent r" if "set ds \<subseteq> set cs" "cores_Check E ds ent ce w = (Ok r, w')" "fresh_ce ent ce"
    for ds ce and w :: "('v, 'z) world_scheme"
    using that
  proof (induction ds arbitrary: ce w)
    case (Cons d ds)
    obtain x w1 where x: "core_Check E d ent ce w = (x, w1)" by fastforce
    then obtain r1 where r1: "x = Ok r1" using Cons.prems(2) by (cases x) auto
    then have "fresh_ce ent r1" using multi.IH [of d ce w r1 w1] Cons.prems x by simp
    then show ?case using Cons.IH [of r1 w1] Cons.prems x r1 by simp
  qed simp
  from this [of cs ce w] show ?case using multi.prems by simp
next
  case (hooked c hs)
  then show ?case
    by (cases "core_Check E c ent ce w") (auto split: outcome.splits option.splits intro: fresh_AddCore)
next
  case (lazy i c fs)
  obtain x st where i: "initOnce E i c fs (onces w) = (x, st)" by fastforce
  then obtain c1 where c1: "x = Ok c1" "core_Check E c1 ent ce (w\<lparr>onces := st\<rparr>) = (Ok r, w')"
    using lazy.prems(1) by (cases x) auto
  then show ?case using lazy.IH [of c1 ce _ r w'] initOnce_csize i lazy.prems(2) by blast
next
  case (sampler c i dur first thereafter h)
  then show ?case by (auto split: if_splits prod.splits)
qed (auto split: if_splits intro: fresh_AddCore)

section \<open>Annotation\<close>

text \<open>An error line leaves the destinations alone that are not behind the error output.\<close>

lemma error_line_calls:
  "i \<notin> set (ws_sinks out) \<Longrightarrow> s_calls (sinks (error_line E (Some out) line w) i) = s_calls (sinks w i)"
  by (simp add: error_line_def ws_Sync_frame ws_Write_deliver fold_deliver_calls count_list_0_iff)

lemma annotate_ce:
  assumes "annotate E log s ent ce w = (ce', w')"
  shows "cores ce' = cores ce" and "after ce' = after ce" and "dirty ce' = dirty ce"
    and "ErrorOutput ce' = Some (errorOutput log)"
    and "ent_Level (ce_Entry ce') = ent_Level (ce_Entry ce)"
    and "ent_Message (ce_Entry ce') = ent_Message (ce_Entry ce)"
    and "ent_Time (ce_Entry ce') = ent_Time (ce_Entry ce)"
    and "ent_LoggerName (ce_Entry ce') = ent_LoggerName (ce_Entry ce)"
  using assms by (auto simp: annotate_def Let_def split: if_splits prod.splits)

lemma annotate_calls:
  assumes "annotate E log s ent ce w = (ce', w')" and "i \<notin> set (ws_sinks (errorOutput log))"
  shows "s_calls (sinks w' i) = s_calls (sinks w i)"
  using assms error_line_calls [OF assms(2)]
  by (auto simp: annotate_def Let_def split: if_splits prod.splits)

section \<open>How a call ends\<close>

lemma terminal_hook_stops:
  assumes "l = FatalLevel \<or> l = PanicLevel \<or> l = DPanicLevel \<and> development log"
    and "\<forall>f. (if l = FatalLevel then onFatal log else onPanic log) \<noteq> Some (CustomHook f)"
  shows "\<exists>h. terminal_hook log l = Some h \<and> OnWrite h ent fs \<noteq> Returns"
proof -
  have d: "PanicLevel \<noteq> FatalLevel" "DPanicLevel \<noteq> FatalLevel" "DPanicLevel \<noteq> PanicLevel"
    by (simp_all add: level_simps)
  have "OnWrite (terminalHookOverride (Action a) ov) ent fs \<noteq> Returns"
    if "a = WriteThenPanic \<or> a = WriteThenFatal" "\<forall>f. ov \<noteq> Some (CustomHook f)" for a ov
    using that by (auto simp: terminalHookOverride_def OnWrite_def
        split: option.splits write_hook.splits CheckWriteAction.splits)
  then show ?thesis using assms d by (auto simp: terminal_hook_def split: if_splits)
qed

lemma ce_Write_after:
  assumes "\<not> dirty ce" and "after ce = Some h" and "OnWrite h (ce_Entry ce) fs \<noteq> Returns"
  shows "fst (ce_Write E (Some ce) fs w) \<noteq> Returns"
  using assms by (auto simp: ce_Write_def Let_def split: prod.splits outcome.splits)

lemma terminal_stops:
  assumes "l = FatalLevel \<or> l = PanicLevel \<or> l = DPanicLevel \<and> development log"
    and "\<forall>f. (if l = FatalLevel then onFatal log else onPanic log) \<noteq> Some (CustomHook f)"
  shows "fst (Logger_Log E log l msg fs s w) \<noteq> Returns"
proof -
  let ?ent = "log_entry log l msg s"
  have nl: "\<not> l < DPanicLevel" using assms(1) by (auto simp: level_simps)
  obtain r w1 where c: "core_Check E (l_core log) ?ent None w = (r, w1)" by fastforce
  show ?thesis
  proof (cases r)
    case (Panic m)
    then show ?thesis using c nl by (simp add: Logger_Log_def Logger_check_def Let_def)
  next
    case (Ok ce)
    have fr: "fresh_ce ?ent ce" using core_Check_fresh [of E _ ?ent None w ce w1] c Ok by (simp add: fresh_ce_def)
    obtain h where h: "terminal_hook log l = Some h" using terminal_hook_stops [OF assms] by blast
    have stop: "OnWrite h ent fs \<noteq> Returns" for ent using terminal_hook_stops [OF assms, of ent fs] h by auto
    obtain x where x: "After ce ?ent h = Some x" "\<not> dirty x" "after x = Some h"
      using fr by (auto simp: After_def fresh_ce_def getCheckedEntry_def ce_reset_def Let_def split: option.splits)
    obtain y w2 where y: "annotate E log s ?ent x w1 = (y, w2)" by fastforce
    have yd: "\<not> dirty y" "after y = Some h" using annotate_ce(2,3) [OF y] x by auto
    have "fst (ce_Write E (Some x) fs w1) \<noteq> Returns" "fst (ce_Write E (Some y) fs w2) \<noteq> Returns"
      using ce_Write_after [OF x(2,3) stop] ce_Write_after [OF yd stop] by blast+
    then show ?thesis
      using c Ok nl h x y
      by (cases ce) (auto simp: Logger_Log_def Logger_check_def Let_def split: prod.splits)
  qed
qed

text \<open>
  C7: Panic and Fatal do not return.  Whatever the core is, and even if the level is disabled or
  the write fails, a call at Fatal level, at Panic level, or in development at DPanic level does
  not return to the caller, unless the user has installed a hook of their own.
\<close>

theorem terminal_levels_do_not_return:
  assumes "l = FatalLevel \<or> l = PanicLevel \<or> l = DPanicLevel \<and> development log"
    and "\<forall>f. (if l = FatalLevel then onFatal log else onPanic log) \<noteq> Some (CustomHook f)"
  shows "fst (Logger_Log E log l msg fs s w) \<noteq> Returns"
  by (rule terminal_stops [OF assms])

definition sample_site :: site where
  "sample_site = \<lparr>sys_now = Instant 1 UTC, call_stack = sample_frames, err_stack = []\<rparr>"

theorem terminal_levels_do_not_return_witness:
  "fst (Logger_Log sample_env NewNop FatalLevel ''bye'' [] sample_site sample_world) \<noteq> Returns"
  by (rule terminal_levels_do_not_return) (simp_all add: NewNop_def)

lemma disabled_outputs:
  assumes "\<not> core_Enabled (cells w) (l_core log) l"
  shows "same_outputs w (snd (Logger_Log E log l msg fs s w)) \<and>
    (if l < DPanicLevel then Logger_Log E log l msg fs s w = (Returns, w) else True)"
proof (cases "l < DPanicLevel")
  case True
  then show ?thesis using assms by (simp add: Logger_Log_def Logger_check_def same_outputs_def)
next
  case False
  let ?ent = "log_entry log l msg s"
  have lv: "ent_Level ?ent = l" by (simp add: log_entry_def)
  obtain r w1 where c: "core_Check E (l_core log) ?ent None w = (r, w1)" by fastforce
  have so: "same_outputs w w1" using core_Check_frame [of w E "l_core log" ?ent None] c by simp
  have "r = Ok ce \<Longrightarrow> ce = None" for ce
    using core_Check_disabled [of w "l_core log" ?ent E ce w1] assms c lv by simp
  then show ?thesis using False c so
    by (cases r; cases "terminal_hook log l")
      (auto simp: Logger_Log_def Logger_check_def After_def getCheckedEntry_def ce_reset_def pooled_def
        ce_Write_def Let_def)
qed

text \<open>
  C9: a disabled level costs nothing: if the core is not enabled for the level, then no destination,
  no observer and no hook of a core sees anything of the call, whatever the core is made of; and
  below DPanic level the call returns at once, without any effect.
\<close>

theorem disabled_level_writes_nothing:
  assumes "\<not> core_Enabled (cells w) (l_core log) l"
  shows "same_outputs w (snd (Logger_Log E log l msg fs s w)) \<and>
    (if l < DPanicLevel then Logger_Log E log l msg fs s w = (Returns, w) else True)"
  by (rule disabled_outputs [OF assms])

theorem disabled_level_writes_nothing_witness:
  "Logger_Log sample_env NewNop InfoLevel ''hi'' [] sample_site sample_world = (Returns, sample_world)"
  using disabled_level_writes_nothing [of sample_world NewNop InfoLevel sample_env "''hi''" "[]" sample_site]
  by (simp add: NewNop_def NewNopCore_def level_simps)

section \<open>What the destinations receive\<close>

text \<open>The writes that one core makes to the destination \<open>i\<close>.\<close>

definition core_calls :: "'v env \<Rightarrow> Entry \<Rightarrow> 'v Field list \<Rightarrow> nat \<Rightarrow> 'v core \<Rightarrow> bytes list" where
  "core_calls E ent fs i c =
     (case c of
        ioCore en enc out \<Rightarrow>
          (case enc_EncodeEntry E enc ent fs of
             Ok (Inr b) \<Rightarrow> replicate (count_list (ws_sinks out) i) b
           | _ \<Rightarrow> [])
      | _ \<Rightarrow> [])"

text \<open>A writing core whose encoder does not panic.\<close>

definition steady :: "'v env \<Rightarrow> 'v Field list \<Rightarrow> 'v core \<Rightarrow> bool" where
  "steady E fs c \<longleftrightarrow>
     (case c of
        ioCore en enc out \<Rightarrow> (\<forall>ent. \<exists>r. enc_EncodeEntry E enc ent fs = Ok r)
      | _ \<Rightarrow> False)"

lemma steady_Write:
  assumes "steady E fs c"
  shows "\<exists>err w'. core_Write E c ent fs w = (Ok err, w') \<and>
    s_calls (sinks w' i) = s_calls (sinks w i) @ core_calls E ent fs i c"
proof -
  obtain en enc out where c: "c = ioCore en enc out" using assms by (cases c) (auto simp: steady_def)
  obtain r where r: "enc_EncodeEntry E enc ent fs = Ok r" using assms c by (auto simp: steady_def)
  show ?thesis
  proof (cases r)
    case (Inl e)
    then show ?thesis using c r by (simp add: ioCore_Write_def core_calls_def)
  next
    case (Inr b)
    obtain n err w1 where wr: "ws_Write E out b w = ((n, err), w1)" by (metis prod.exhaust)
    have "s_calls (sinks w1 i) = s_calls (sinks w i) @ replicate (count_list (ws_sinks out) i) b"
      using ws_Write_deliver(1) [of E out b w] wr by (simp add: fold_deliver_calls)
    then show ?thesis using c r Inr wr by (simp add: ioCore_Write_def core_calls_def ws_Sync_frame)
  qed
qed

lemma steady_Writes:
  assumes "list_all (steady E fs) cs"
  shows "\<exists>err' w'. cores_Write E cs ent fs err w = (Ok err', w') \<and>
    s_calls (sinks w' i) = s_calls (sinks w i) @ concat (map (core_calls E ent fs i) cs)"
  using assms
proof (induction cs arbitrary: err w)
  case (Cons c cs)
  obtain e w1 where 1: "core_Write E c ent fs w = (Ok e, w1)"
    "s_calls (sinks w1 i) = s_calls (sinks w i) @ core_calls E ent fs i c"
    using steady_Write [of E fs c ent w i] Cons.prems by auto
  then show ?case using Cons.IH [of "multierr_Append E err e" w1] Cons.prems by auto
qed simp

lemma steady_Check:
  assumes "list_all (steady E fs) cs" and "ce = None \<or> fresh_ce ent ce"
  shows "\<exists>r. cores_Check E cs ent ce w = (Ok r, w) \<and>
    (let ds = filter (\<lambda>c. core_Enabled (cells w) c (ent_Level ent)) cs in
     if ds = [] then r = ce
     else \<exists>x. r = Some x \<and> cores x = (case ce of None \<Rightarrow> [] | Some y \<Rightarrow> cores y) @ ds)"
  using assms
proof (induction cs arbitrary: ce)
  case (Cons c cs)
  obtain en enc out where c: "c = ioCore en enc out" using Cons.prems(1) by (cases c) (auto simp: steady_def)
  show ?case
  proof (cases "enab_Enabled (cells w) en (ent_Level ent)")
    case True
    have f: "fresh_ce ent (AddCore ce ent c)" using Cons.prems(2) fresh_AddCore by (auto simp: fresh_ce_def)
    obtain x where x: "AddCore ce ent c = Some x" "cores x = (case ce of None \<Rightarrow> [] | Some y \<Rightarrow> cores y) @ [c]"
      by (cases ce) (auto simp: AddCore_def getCheckedEntry_def ce_reset_def Let_def)
    show ?thesis using Cons.IH [of "AddCore ce ent c"] Cons.prems(1) f True c x
      by (auto simp: Let_def split: if_splits)
  next
    case False
    then show ?thesis using Cons.IH [of ce] Cons.prems c by simp
  qed
qed simp

lemma NewTee_Check: "core_Check E (NewTee cs) ent ce w = cores_Check E cs ent ce w"
  by (auto simp: NewTee_def NewNopCore_def split: list.splits prod.splits outcome.splits)

lemma NewTee_Enabled: "core_Enabled st (NewTee cs) l = list_ex (\<lambda>c. core_Enabled st c l) cs"
  by (auto simp: NewTee_def NewNopCore_def split: list.splits)

text \<open>The part of a logging call after a successful \<open>Check\<close>.\<close>

lemma write_checked:
  assumes "list_all (steady E fs) (cores x)" and "\<not> dirty x" and "ErrorOutput x = Some (errorOutput log)"
    and "i \<notin> set (ws_sinks (errorOutput log))" and "ce_Write E (Some x) fs w = (ctl, ce', w')"
  shows "s_calls (sinks w' i) = s_calls (sinks w i) @ concat (map (core_calls E (ce_Entry x) fs i) (cores x))"
proof -
  obtain err w1 where 1: "cores_Write E (cores x) (ce_Entry x) fs None w = (Ok err, w1)"
    "s_calls (sinks w1 i) = s_calls (sinks w i) @ concat (map (core_calls E (ce_Entry x) fs i) (cores x))"
    using steady_Writes [OF assms(1), of "ce_Entry x" None w i] by auto
  then show ?thesis using assms
    by (cases err) (auto simp: ce_Write_def Let_def error_line_calls [OF assms(4)])
qed

lemma Logger_Log_steady:
  assumes core: "l_core log = NewTee cs" and st: "list_all (steady E fs) cs"
    and i: "i \<notin> set (ws_sinks (errorOutput log))"
    and log: "Logger_Log E log l msg fs s w = (ctl, w')"
  shows "\<exists>ent. ent_Level ent = l \<and> ent_Message ent = msg \<and> ent_LoggerName ent = l_name log \<and>
    ent_Time ent = l_clock log (sys_now s) \<and>
    s_calls (sinks w' i) = s_calls (sinks w i) @
      concat (map (core_calls E ent fs i) (filter (\<lambda>c. core_Enabled (cells w) c l) cs))"
proof -
  let ?ent = "log_entry log l msg s" and ?ds = "filter (\<lambda>c. core_Enabled (cells w) c l) cs"
  have ent: "ent_Level ?ent = l" "ent_Message ?ent = msg" "ent_LoggerName ?ent = l_name log"
    "ent_Time ?ent = l_clock log (sys_now s)" by (simp_all add: log_entry_def)
  show ?thesis
  proof (cases "?ds = []")
    case True
    then have "\<not> core_Enabled (cells w) (l_core log) l"
      by (auto simp: core NewTee_Enabled list_ex_iff filter_empty_conv)
    then have "s_calls (sinks w' i) = s_calls (sinks w i)"
      using disabled_outputs [of w log l E msg fs s] log by (simp add: same_outputs_def)
    then show ?thesis using ent True by (intro exI [of _ ?ent]) simp
  next
    case False
    then have en: "core_Enabled (cells w) (l_core log) l"
      by (auto simp: core NewTee_Enabled list_ex_iff filter_empty_conv)
    obtain x where x: "core_Check E (l_core log) ?ent None w = (Ok (Some x), w)" "cores x = ?ds"
      using steady_Check [OF st, of None ?ent w] False ent(1) by (auto simp: core NewTee_Check Let_def)
    have fr: "fresh_ce ?ent (Some x)" using core_Check_fresh [OF x(1)] by (simp add: fresh_ce_def)
    define y where "y = (case terminal_hook log l of None \<Rightarrow> x | Some h \<Rightarrow> x\<lparr>after := Some h\<rparr>)"
    have y: "cores y = ?ds" "\<not> dirty y" "ce_Entry y = ?ent"
      using fr x(2) by (auto simp: y_def fresh_ce_def split: option.splits)
    obtain z w1 where z: "annotate E log s ?ent y w = (z, w1)" by fastforce
    have "Logger_check E log l msg s w = (Ok (Some z), w1)"
      using x(1) en z by (auto simp: Logger_check_def y_def After_def Let_def split: option.splits)
    then obtain ce' where wr: "ce_Write E (Some z) fs w1 = (ctl, ce', w')"
      using log by (auto simp: Logger_Log_def split: prod.splits)
    note a = annotate_ce [OF z]
    have "list_all (steady E fs) (cores z)" using st y(1) a(1) by (auto simp: list_all_iff)
    from write_checked [OF this _ a(4) i wr] have "s_calls (sinks w' i) = s_calls (sinks w i) @
        concat (map (core_calls E (ce_Entry z) fs i) ?ds)"
      using a(1,3) y annotate_calls [OF z i] by simp
    then show ?thesis using a(5-8) y(3) ent by (intro exI [of _ "ce_Entry z"]) simp
  qed
qed


section \<open>From a call to a line of JSON\<close>

lemma NewJSONEncoder_Clone: "json_Clone (NewJSONEncoder E c) = NewJSONEncoder E c"
  by (simp add: json_Clone_def json_clone_def NewJSONEncoder_def newJSONEncoder_def buf_Write_def Let_def)

lemma JSON_logger_With:
  assumes "l_core log = NewCore (JSONEnc (NewJSONEncoder E c)) out en"
    and "json_addFields E ctx_fs (NewJSONEncoder E c) = Ok enc"
  shows "\<exists>log'. Logger_With E ctx_fs log w = (Ok log', w) \<and> l_core log' = NewTee [ioCore en (JSONEnc enc) out] \<and>
    l_name log' = l_name log \<and> errorOutput log' = errorOutput log \<and> l_clock log' = l_clock log"
proof (cases "ctx_fs = []")
  case True
  then have "enc = NewJSONEncoder E c" using assms(2) by (simp add: json_addFields_def addto_defs)
  then show ?thesis using True assms(1) by (simp add: Logger_With_def NewCore_def NewTee_def)
next
  case False
  then show ?thesis using assms
    by (simp add: Logger_With_def With_world_def NewCore_def enc_Clone_def NewJSONEncoder_Clone
        enc_addFields_def NewTee_def)
qed

text \<open>
  C1: from a call to a line of JSON.  Take a logger whose core writes JSON to \<open>out\<close>, add the context
  fields \<open>ctx_fs\<close> with \<open>With\<close>, and log a message with the fields \<open>fs\<close> at an enabled level.  If no
  marshaler panics, then every destination that is behind \<open>out\<close> once receives exactly one more
  write, and a JSON reader takes it for one object: the metadata of an entry with the level, the
  message, the name of the logger and the time of its clock, the context, the fields, and the stack
  trace if there is one.
\<close>

theorem With_Log_writes_one_JSON_object:
  assumes "l_core log = NewCore (JSONEnc (NewJSONEncoder E c)) out en"
    and "c' = cfg (NewJSONEncoder E c)" and "entry_ok E c' rv" and "\<forall>ent. caller_set c' ent"
    and "\<forall>x \<in> set (LineEnding c'). is_ws x"
    and "obj_items E c' rv (addFields ctx_fs) = Ok (ctx, err)"
    and "obj_items E c' rv (addFields fs) = Ok (is, err')"
    and "enab_Enabled (cells w) en l"
    and "count_list (ws_sinks out) i = 1" and "i \<notin> set (ws_sinks (errorOutput log))"
  shows "\<exists>log' w1 ctl w2 ent text. Logger_With E ctx_fs log w = (Ok log', w1) \<and>
    Logger_Log E log' l msg fs s w1 = (ctl, w2) \<and>
    s_calls (sinks w2 i) = s_calls (sinks w i) @ [text] \<and>
    json_parse text = Some (JObj (mems (meta_items E c' ent @ ctx @ is) @ mems (stack_items c' ent))) \<and>
    ent_Level ent = l \<and> ent_Message ent = msg \<and> ent_LoggerName ent = l_name log \<and>
    ent_Time ent = l_clock log (sys_now s)"
proof -
  obtain enc where enc: "json_addFields E ctx_fs (NewJSONEncoder E c) = Ok enc"
    and line: "\<And>ent. \<exists>text. json_EncodeEntry E enc ent fs = Ok text \<and> json_parse text =
        Some (JObj (mems (meta_items E c' ent @ ctx @ is) @ mems (stack_items c' ent)))"
    using json_context_encodes [OF assms(2,3,6)] assms(4,5,7) by metis
  obtain log' where log': "Logger_With E ctx_fs log w = (Ok log', w)"
    "l_core log' = NewTee [ioCore en (JSONEnc enc) out]" "l_name log' = l_name log"
    "errorOutput log' = errorOutput log" "l_clock log' = l_clock log"
    using JSON_logger_With [OF assms(1) enc, of w] by blast
  obtain ctl w2 where l: "Logger_Log E log' l msg fs s w = (ctl, w2)" by fastforce
  have st: "list_all (steady E fs) [ioCore en (JSONEnc enc) out]"
  proof -
    have "\<exists>t. json_EncodeEntry E enc ent fs = Ok t" for ent using line by blast
    then show ?thesis by (auto simp: steady_def enc_EncodeEntry_def map_outcome_Ok)
  qed
  obtain ent where ent: "ent_Level ent = l" "ent_Message ent = msg" "ent_LoggerName ent = l_name log"
      "ent_Time ent = l_clock log (sys_now s)"
      "s_calls (sinks w2 i) = s_calls (sinks w i) @
        concat (map (core_calls E ent fs i) (filter (\<lambda>c. core_Enabled (cells w) c l) [ioCore en (JSONEnc enc) out]))"
    using Logger_Log_steady [OF log'(2) st _ l, of i] assms(10) log' by auto
  obtain t where t: "json_EncodeEntry E enc ent fs = Ok t"
    "json_parse t = Some (JObj (mems (meta_items E c' ent @ ctx @ is) @ mems (stack_items c' ent)))"
    using line by blast
  have "core_calls E ent fs i (ioCore en (JSONEnc enc) out) = [t]"
    using t(1) assms(9) by (simp add: core_calls_def enc_EncodeEntry_def)
  then have "s_calls (sinks w2 i) = s_calls (sinks w i) @ [t]" using ent(5) assms(8) by simp
  then show ?thesis using log'(1) l t(2) ent(1-4) by blast
qed

section \<open>Witnesses\<close>

text \<open>An encoder that writes the message only.\<close>

definition message_encoder :: "nat encoder" where
  "message_encoder = CustomEnc [] (\<lambda>ctx ent fs. Ok (Inr (ent_Message ent)))"

lemma sample_levels:
  "enab_Enabled st (LevelE InfoLevel) InfoLevel" "\<not> enab_Enabled st (LevelE ErrorLevel) InfoLevel"
  by (simp_all add: enab_Enabled_def Level_Enabled_def InfoLevel_def ErrorLevel_def level_simps)


lemma mems_append: "opens xs = 0 \<Longrightarrow> mems (xs @ ys) = mems xs @ mems ys"
  by (induction xs rule: opens.induct) auto

theorem With_Log_writes_one_JSON_object_witness:
  "\<exists>log' w1 ctl w2 line ms. Logger_With sample_env [String ''a'' ''b'']
      (NewNop\<lparr>l_core := NewCore (JSONEnc (NewJSONEncoder sample_env sample_config)) (Sink 0) (LevelE InfoLevel)\<rparr>)
      sample_world = (Ok log', w1) \<and>
    Logger_Log sample_env log' InfoLevel ''hi'' [] sample_site w1 = (ctl, w2) \<and>
    s_calls (sinks w2 0) = [line] \<and> json_parse line = Some (JObj ms) \<and> (''a'', JStr ''b'') \<in> set ms"
proof -
  let ?log = "NewNop\<lparr>l_core := NewCore (JSONEnc (NewJSONEncoder sample_env sample_config)) (Sink 0) (LevelE InfoLevel)\<rparr>"
  let ?c = "cfg (NewJSONEncoder sample_env sample_config)"
  have f: "obj_items sample_env ?c sample_rv (addFields [String ''a'' ''b'']) = Ok ([Mem ''a'' (str_leaf ''b'')], None)"
    "obj_items sample_env ?c sample_rv (addFields []) = Ok ([], None)"
    by (simp_all add: addto_defs field_defs cons_fst_def)
  have cs: "\<forall>ent. caller_set ?c ent" "\<forall>x \<in> set (LineEnding ?c). is_ws x"
    unfolding sample_cfg by (simp_all add: caller_set_def sample_config_def is_ws_def)
  have s: "enab_Enabled (cells sample_world) (LevelE InfoLevel) InfoLevel" "count_list (ws_sinks (Sink 0)) 0 = 1"
    "0 \<notin> set (ws_sinks (errorOutput ?log))"
    using sample_levels by (simp_all add: NewNop_def AddSync_def io_Discard_def)
  have m: "(''a'', JStr ''b'') \<in> set (mems (meta_items sample_env ?c ent @ [Mem ''a'' (str_leaf ''b'')] @ []) @ ms)" for ent ms
    by (simp add: mems_append [OF meta_no_opens(1)] str_leaf_def to_valid_ascii)
  show ?thesis
    using With_Log_writes_one_JSON_object [OF _ refl sample_ok cs f s, of "''hi''" sample_site] m
    by (fastforce simp: sample_ios_def)
qed

end
