(* ===== verification/Lad_Sugar.thy ===== *)
theory Lad_Sugar
  imports Lad_Logger_Props
begin

text \<open>
  The sugared logger (\<open>sugar.go\<close>).
\<close>

section \<open>Arguments\<close>

text \<open>
  An argument of type \<open>interface{}\<close> is a \<open>Field\<close> or a value as \<open>Any\<close> sees it.  The functions of \<open>fmt\<close>
  and what reflection sees of a \<open>Field\<close> come from outside.
\<close>

datatype 'v arg = ArgField "'v Field" | ArgVal "'v anyval"

record 'v fmt =
  Sprintf :: "bytes \<Rightarrow> 'v arg list \<Rightarrow> bytes"
  Sprint :: "'v arg list \<Rightarrow> bytes"
  Sprintln :: "'v arg list \<Rightarrow> bytes"
  reflect_Field :: "'v Field \<Rightarrow> 'v"

fun any_err :: "'v anyval \<Rightarrow> error option" where
  "any_err (VCustom p a e s v) = e"
| "any_err _ = None"

fun any_string :: "'v anyval \<Rightarrow> bytes option" where
  "any_string (VString (Val s)) = Some s"
| "any_string _ = None"

definition arg_any :: "'v fmt \<Rightarrow> 'v arg \<Rightarrow> 'v anyval" where
  "arg_any F x = (case x of ArgField f \<Rightarrow> VCustom None None None None (reflect_Field F f) | ArgVal v \<Rightarrow> v)"

section \<open>Messages\<close>

definition getMessage :: "'v fmt \<Rightarrow> bytes \<Rightarrow> 'v arg list \<Rightarrow> bytes" where
  "getMessage F template fmtArgs =
     (if fmtArgs = [] then template
      else if template \<noteq> [] then Sprintf F template fmtArgs
      else case fmtArgs of
             [ArgVal v] \<Rightarrow> (case any_string v of Some str \<Rightarrow> str | None \<Rightarrow> Sprint F fmtArgs)
           | _ \<Rightarrow> Sprint F fmtArgs)"

definition getMessageln :: "'v fmt \<Rightarrow> 'v arg list \<Rightarrow> bytes" where
  "getMessageln F fmtArgs = butlast (Sprintln F fmtArgs)"

section \<open>Key-value pairs\<close>

record 'v SugaredLogger =
  base :: "'v Logger"

definition oddNumberErrMsg :: bytes where
  "oddNumberErrMsg = ''Ignored key without a value.''"
definition nonStringKeyErrMsg :: bytes where
  "nonStringKeyErrMsg = ''Ignored key-value pairs with non-string keys.''"
definition multipleErrMsg :: bytes where
  "multipleErrMsg = ''Multiple errors without a key.''"

type_synonym 'v invalidPair = "nat \<times> 'v anyval \<times> 'v anyval"

definition invalidPair_MarshalLogObject :: "'v invalidPair \<Rightarrow> 'v obj_prog" where
  "invalidPair_MarshalLogObject p =
     (case p of (position, key, val) \<Rightarrow>
        OPrim ''position'' (PInt64 (of_nat position))
          (obj_bind (AddTo (Any ''key'' key)) (\<lambda>_. obj_bind (AddTo (Any ''value'' val)) (\<lambda>_. ORet None))))"

primrec invalidPairs_MarshalLogArray ::
  "'v env \<Rightarrow> error option \<Rightarrow> 'v invalidPair list \<Rightarrow> 'v arr_prog" where
  "invalidPairs_MarshalLogArray E err [] = ARet err"
| "invalidPairs_MarshalLogArray E err (p # ps) =
     AObject (invalidPair_MarshalLogObject p)
       (\<lambda>e. invalidPairs_MarshalLogArray E (multierr_Append E err e) ps)"

text \<open>A misuse is logged with \<open>s.base.Error\<close>; only a panic of that call matters to the caller.\<close>

definition report ::
  "'v env \<Rightarrow> 'v Logger \<Rightarrow> bytes \<Rightarrow> 'v Field \<Rightarrow> site \<Rightarrow> ('v, 'z) world_scheme \<Rightarrow>
   unit outcome \<times> ('v, 'z) world_scheme" where
  "report E log msg f s w =
     (case Logger_Error E log msg [f] (s\<lparr>call_stack := err_stack s\<rparr>) w of
        (Panics m, w') \<Rightarrow> (Panic m, w')
      | (_, w') \<Rightarrow> (Ok (), w'))"

fun sweeten_loop ::
  "'v env \<Rightarrow> 'v fmt \<Rightarrow> 'v Logger \<Rightarrow> site \<Rightarrow> nat \<Rightarrow> 'v arg list \<Rightarrow> 'v Field list \<Rightarrow> 'v invalidPair list \<Rightarrow>
   bool \<Rightarrow> ('v, 'z) world_scheme \<Rightarrow>
   ('v Field list \<times> 'v invalidPair list) outcome \<times> ('v, 'z) world_scheme" where
  "sweeten_loop E F log s i [] flds invalid seenError w = (Ok (flds, invalid), w)"
| "sweeten_loop E F log s i (ArgField f # args) flds invalid seenError w =
     sweeten_loop E F log s (i + 1) args (flds @ [f]) invalid seenError w"
| "sweeten_loop E F log s i (ArgVal v # args) flds invalid seenError w =
     (case any_err v of
        Some err \<Rightarrow>
          if \<not> seenError then
            sweeten_loop E F log s (i + 1) args (flds @ [Error (Some err)]) invalid True w
          else (case report E log multipleErrMsg (Error (Some err)) s w of
                  (Panic m, w') \<Rightarrow> (Panic m, w')
                | (Ok _, w') \<Rightarrow> sweeten_loop E F log s (i + 1) args flds invalid seenError w')
      | None \<Rightarrow>
          (case args of
             [] \<Rightarrow> (case report E log oddNumberErrMsg (Any ''ignored'' v) s w of
                     (Panic m, w') \<Rightarrow> (Panic m, w')
                   | (Ok _, w') \<Rightarrow> (Ok (flds, invalid), w'))
           | val # rest \<Rightarrow>
               (case any_string v of
                  None \<Rightarrow> sweeten_loop E F log s (i + 2) rest flds (invalid @ [(i, v, arg_any F val)]) seenError w
                | Some keyStr \<Rightarrow>
                    sweeten_loop E F log s (i + 2) rest (flds @ [Any keyStr (arg_any F val)]) invalid seenError w)))"

definition sweetenFields ::
  "'v env \<Rightarrow> 'v fmt \<Rightarrow> 'v Logger \<Rightarrow> site \<Rightarrow> 'v arg list \<Rightarrow> ('v, 'z) world_scheme \<Rightarrow>
   'v Field list outcome \<times> ('v, 'z) world_scheme" where
  "sweetenFields E F log s args w =
     (if args = [] then (Ok [], w)
      else case sweeten_loop E F log s 0 args [] [] False w of
        (Panic m, w') \<Rightarrow> (Panic m, w')
      | (Ok (flds, invalid), w') \<Rightarrow>
          if invalid = [] then (Ok flds, w')
          else (case report E log nonStringKeyErrMsg
                       (Array ''invalid'' (IArr (invalidPairs_MarshalLogArray E None invalid))) s w' of
                  (Panic m, w'') \<Rightarrow> (Panic m, w'')
                | (Ok _, w'') \<Rightarrow> (Ok flds, w'')))"

section \<open>The methods\<close>

definition Logger_Sugar :: "'v Logger \<Rightarrow> 'v SugaredLogger" where
  "Logger_Sugar log = \<lparr>base = log\<lparr>callerSkip := callerSkip log + 2\<rparr>\<rparr>"

definition Desugar :: "'v SugaredLogger \<Rightarrow> 'v Logger" where
  "Desugar sl = (base sl)\<lparr>callerSkip := callerSkip (base sl) - 2\<rparr>"

definition Sugar_Named :: "bytes \<Rightarrow> 'v SugaredLogger \<Rightarrow> 'v SugaredLogger" where
  "Sugar_Named name sl = \<lparr>base = Logger_Named name (base sl)\<rparr>"

definition Sugar_WithOptions ::
  "'v env \<Rightarrow> 'v Option list \<Rightarrow> 'v SugaredLogger \<Rightarrow> ('v, 'z) world_scheme \<Rightarrow>
   'v SugaredLogger outcome \<times> ('v, 'z) world_scheme" where
  "Sugar_WithOptions E opts sl w =
     apfst (map_outcome (\<lambda>log. \<lparr>base = log\<rparr>)) (WithOptions E opts (base sl) w)"

definition Sugar_With ::
  "'v env \<Rightarrow> 'v fmt \<Rightarrow> 'v arg list \<Rightarrow> site \<Rightarrow> 'v SugaredLogger \<Rightarrow> ('v, 'z) world_scheme \<Rightarrow>
   'v SugaredLogger outcome \<times> ('v, 'z) world_scheme" where
  "Sugar_With E F args s sl w =
     (case sweetenFields E F (base sl) s args w of
        (Panic m, w') \<Rightarrow> (Panic m, w')
      | (Ok fs, w') \<Rightarrow> apfst (map_outcome (\<lambda>log. \<lparr>base = log\<rparr>)) (Logger_With E fs (base sl) w'))"

definition Sugar_WithLazy ::
  "'v env \<Rightarrow> 'v fmt \<Rightarrow> nat \<Rightarrow> 'v arg list \<Rightarrow> site \<Rightarrow> 'v SugaredLogger \<Rightarrow> ('v, 'z) world_scheme \<Rightarrow>
   'v SugaredLogger outcome \<times> ('v, 'z) world_scheme" where
  "Sugar_WithLazy E F i args s sl w =
     (case sweetenFields E F (base sl) s args w of
        (Panic m, w') \<Rightarrow> (Panic m, w')
      | (Ok fs, w') \<Rightarrow> apfst (map_outcome (\<lambda>log. \<lparr>base = log\<rparr>)) (Logger_WithLazy E i fs (base sl) w'))"

definition Sugar_Level :: "atomics \<Rightarrow> 'v SugaredLogger \<Rightarrow> level" where
  "Sugar_Level st sl = core_Level st (l_core (base sl))"

definition Sugar_Sync ::
  "'v env \<Rightarrow> 'v SugaredLogger \<Rightarrow> ('v, 'z) world_scheme \<Rightarrow> error option \<times> ('v, 'z) world_scheme" where
  "Sugar_Sync E sl w = Logger_Sync E (base sl) w"

text \<open>The common end of \<open>log\<close> and \<open>logln\<close>, with the message.\<close>

definition sugar_write ::
  "'v env \<Rightarrow> 'v fmt \<Rightarrow> 'v SugaredLogger \<Rightarrow> level \<Rightarrow> bytes \<Rightarrow> 'v arg list \<Rightarrow> site \<Rightarrow>
   ('v, 'z) world_scheme \<Rightarrow> control \<times> ('v, 'z) world_scheme" where
  "sugar_write E F sl l msg context s w =
     (case Logger_Check E (base sl) l msg s w of
        (Panic m, w') \<Rightarrow> (Panics m, w')
      | (Ok None, w') \<Rightarrow> (Returns, w')
      | (Ok (Some ce), w') \<Rightarrow>
          (case sweetenFields E F (base sl) s context w' of
             (Panic m, w'') \<Rightarrow> (Panics m, w'')
           | (Ok fs, w'') \<Rightarrow> (case ce_Write E (Some ce) fs w'' of (ctl, _, w3) \<Rightarrow> (ctl, w3))))"

definition sugar_log ::
  "'v env \<Rightarrow> 'v fmt \<Rightarrow> 'v SugaredLogger \<Rightarrow> level \<Rightarrow> bytes \<Rightarrow> 'v arg list \<Rightarrow> 'v arg list \<Rightarrow> site \<Rightarrow>
   ('v, 'z) world_scheme \<Rightarrow> control \<times> ('v, 'z) world_scheme" where
  "sugar_log E F sl l template fmtArgs context s w =
     (if l < DPanicLevel \<and> \<not> core_Enabled (cells w) (l_core (base sl)) l then (Returns, w)
      else sugar_write E F sl l (getMessage F template fmtArgs) context s w)"

definition sugar_logln ::
  "'v env \<Rightarrow> 'v fmt \<Rightarrow> 'v SugaredLogger \<Rightarrow> level \<Rightarrow> 'v arg list \<Rightarrow> 'v arg list \<Rightarrow> site \<Rightarrow>
   ('v, 'z) world_scheme \<Rightarrow> control \<times> ('v, 'z) world_scheme" where
  "sugar_logln E F sl l fmtArgs context s w =
     (if l < DPanicLevel \<and> \<not> core_Enabled (cells w) (l_core (base sl)) l then (Returns, w)
      else sugar_write E F sl l (getMessageln F fmtArgs) context s w)"

definition Sugar_Log where "Sugar_Log E F sl l args = sugar_log E F sl l [] args []"
definition Sugar_Logf where "Sugar_Logf E F sl l template args = sugar_log E F sl l template args []"
definition Sugar_Logw where "Sugar_Logw E F sl l msg kvs = sugar_log E F sl l msg [] kvs"
definition Sugar_Logln where "Sugar_Logln E F sl l args = sugar_logln E F sl l args []"

text \<open>The methods that are named after a level.\<close>

definition Sugar_Debug where "Sugar_Debug E F sl args = sugar_log E F sl DebugLevel [] args []"
definition Sugar_Info where "Sugar_Info E F sl args = sugar_log E F sl InfoLevel [] args []"
definition Sugar_Warn where "Sugar_Warn E F sl args = sugar_log E F sl WarnLevel [] args []"
definition Sugar_Error where "Sugar_Error E F sl args = sugar_log E F sl ErrorLevel [] args []"
definition Sugar_DPanic where "Sugar_DPanic E F sl args = sugar_log E F sl DPanicLevel [] args []"
definition Sugar_Panic where "Sugar_Panic E F sl args = sugar_log E F sl PanicLevel [] args []"
definition Sugar_Fatal where "Sugar_Fatal E F sl args = sugar_log E F sl FatalLevel [] args []"
definition Sugar_Debugf where "Sugar_Debugf E F sl template args = sugar_log E F sl DebugLevel template args []"
definition Sugar_Infof where "Sugar_Infof E F sl template args = sugar_log E F sl InfoLevel template args []"
definition Sugar_Warnf where "Sugar_Warnf E F sl template args = sugar_log E F sl WarnLevel template args []"
definition Sugar_Errorf where "Sugar_Errorf E F sl template args = sugar_log E F sl ErrorLevel template args []"
definition Sugar_DPanicf where "Sugar_DPanicf E F sl template args = sugar_log E F sl DPanicLevel template args []"
definition Sugar_Panicf where "Sugar_Panicf E F sl template args = sugar_log E F sl PanicLevel template args []"
definition Sugar_Fatalf where "Sugar_Fatalf E F sl template args = sugar_log E F sl FatalLevel template args []"
definition Sugar_Debugw where "Sugar_Debugw E F sl msg kvs = sugar_log E F sl DebugLevel msg [] kvs"
definition Sugar_Infow where "Sugar_Infow E F sl msg kvs = sugar_log E F sl InfoLevel msg [] kvs"
definition Sugar_Warnw where "Sugar_Warnw E F sl msg kvs = sugar_log E F sl WarnLevel msg [] kvs"
definition Sugar_Errorw where "Sugar_Errorw E F sl msg kvs = sugar_log E F sl ErrorLevel msg [] kvs"
definition Sugar_DPanicw where "Sugar_DPanicw E F sl msg kvs = sugar_log E F sl DPanicLevel msg [] kvs"
definition Sugar_Panicw where "Sugar_Panicw E F sl msg kvs = sugar_log E F sl PanicLevel msg [] kvs"
definition Sugar_Fatalw where "Sugar_Fatalw E F sl msg kvs = sugar_log E F sl FatalLevel msg [] kvs"
definition Sugar_Debugln where "Sugar_Debugln E F sl args = sugar_logln E F sl DebugLevel args []"
definition Sugar_Infoln where "Sugar_Infoln E F sl args = sugar_logln E F sl InfoLevel args []"
definition Sugar_Warnln where "Sugar_Warnln E F sl args = sugar_logln E F sl WarnLevel args []"
definition Sugar_Errorln where "Sugar_Errorln E F sl args = sugar_logln E F sl ErrorLevel args []"
definition Sugar_DPanicln where "Sugar_DPanicln E F sl args = sugar_logln E F sl DPanicLevel args []"
definition Sugar_Panicln where "Sugar_Panicln E F sl args = sugar_logln E F sl PanicLevel args []"
definition Sugar_Fatalln where "Sugar_Fatalln E F sl args = sugar_logln E F sl FatalLevel args []"

section \<open>Well-formed arguments\<close>

text \<open>
  What the arguments are meant to be: fields, errors, and keys that are strings, each with a
  value.
\<close>

datatype 'v piece = PieceField "'v Field" | PieceError "'v anyval" error | PiecePair bytes "'v arg"

fun piece_args :: "'v piece \<Rightarrow> 'v arg list" where
  "piece_args (PieceField f) = [ArgField f]"
| "piece_args (PieceError v e) = [ArgVal v]"
| "piece_args (PiecePair k val) = [ArgVal (VString (Val k)), val]"

fun piece_field :: "'v fmt \<Rightarrow> 'v piece \<Rightarrow> 'v Field" where
  "piece_field F (PieceField f) = f"
| "piece_field F (PieceError v e) = Error (Some e)"
| "piece_field F (PiecePair k val) = Any k (arg_any F val)"

fun piece_ok :: "'v piece \<Rightarrow> bool" where
  "piece_ok (PieceError v e) \<longleftrightarrow> any_err v = Some e"
| "piece_ok _ \<longleftrightarrow> True"

fun is_error_piece :: "'v piece \<Rightarrow> bool" where
  "is_error_piece (PieceError v e) = True"
| "is_error_piece _ = False"

lemma sweeten_loop_pieces:
  assumes "list_all piece_ok ps" and "length (filter is_error_piece ps) + (if seenError then 1 else 0) \<le> 1"
  shows "sweeten_loop E F log s i (concat (map piece_args ps)) flds invalid seenError w =
    (Ok (flds @ map (piece_field F) ps, invalid), w)"
  using assms
proof (induction ps arbitrary: i flds seenError)
  case (Cons p ps)
  then show ?case by (cases p) (auto split: if_splits)
qed simp

lemma sweetenFields_pieces:
  assumes "list_all piece_ok ps" and "length (filter is_error_piece ps) \<le> 1"
  shows "sweetenFields E F log s (concat (map piece_args ps)) w = (Ok (map (piece_field F) ps), w)"
proof -
  have "concat (map piece_args ps) = [] \<Longrightarrow> ps = []"
    by (cases ps; cases "hd ps") auto
  then show ?thesis
    using sweeten_loop_pieces [OF assms(1), of False E F log s 0 "[]" "[]" w] assms(2)
    by (auto simp: sweetenFields_def)
qed

lemma Logger_check_disabled:
  "l < DPanicLevel \<Longrightarrow> \<not> core_Enabled (cells w) (l_core log) l \<Longrightarrow> Logger_check E log l msg s w = (Ok None, w)"
  by (simp add: Logger_check_def)

lemma report_development: "report E (log\<lparr>development := d\<rparr>) msg f s w = report E log msg f s w"
proof -
  have sel: "addCaller (log\<lparr>development := d\<rparr>) = addCaller log"
    "errorOutput (log\<lparr>development := d\<rparr>) = errorOutput log"
    "callerSkip (log\<lparr>development := d\<rparr>) = callerSkip log"
    "addStack (log\<lparr>development := d\<rparr>) = addStack log" "l_core (log\<lparr>development := d\<rparr>) = l_core log"
    by simp_all
  have hook: "terminal_hook (log\<lparr>development := d\<rparr>) ErrorLevel = terminal_hook log ErrorLevel"
    by (simp add: terminal_hook_def level_simps)
  have ent: "log_entry (log\<lparr>development := d\<rparr>) l m' s' = log_entry log l m' s'" for l m' s'
    by (simp add: log_entry_def)
  have ann: "annotate E (log\<lparr>development := d\<rparr>) s' ent ce w' = annotate E log s' ent ce w'" for s' ent ce w'
    unfolding annotate_def sel ..
  show ?thesis
    unfolding report_def Logger_Error_def Logger_Log_def Logger_check_def sel hook ent ann ..
qed

lemma sweeten_loop_development:
  "sweeten_loop E F (log\<lparr>development := d\<rparr>) s i args flds invalid seenError w =
   sweeten_loop E F log s i args flds invalid seenError w"
  by (induction E F log s i args flds invalid seenError w rule: sweeten_loop.induct)
    (auto simp: report_development split: option.splits prod.splits outcome.splits list.splits)

definition sample_fmt :: "nat fmt" where
  "sample_fmt = \<lparr>Sprintf = (\<lambda>t xs. t), Sprint = (\<lambda>xs. []), Sprintln = (\<lambda>xs. [CHR 0x0A]), reflect_Field = (\<lambda>f. 0)\<rparr>"

definition sample_logger :: "nat Logger" where
  "sample_logger = NewNop\<lparr>l_core := NewCore (JSONEnc (NewJSONEncoder sample_env sample_config)) (Sink 0) (LevelE InfoLevel)\<rparr>"

lemma Sugar_pieces:
  assumes "list_all piece_ok ps" and "length (filter is_error_piece ps) \<le> 1"
  shows "Sugar_Logw E F sl l msg (concat (map piece_args ps)) s w =
      Logger_Log E (base sl) l msg (map (piece_field F) ps) s w \<and>
    Sugar_With E F (concat (map piece_args ps)) s sl w =
      apfst (map_outcome (\<lambda>log. \<lparr>base = log\<rparr>)) (Logger_With E (map (piece_field F) ps) (base sl) w)"
proof -
  have sw: "sweetenFields E F (base sl) s (concat (map piece_args ps)) w' = (Ok (map (piece_field F) ps), w')" for w'
    by (rule sweetenFields_pieces [OF assms])
  have "Sugar_Logw E F sl l msg (concat (map piece_args ps)) s w =
      Logger_Log E (base sl) l msg (map (piece_field F) ps) s w"
    by (cases "l < DPanicLevel \<and> \<not> core_Enabled (cells w) (l_core (base sl)) l")
      (simp_all add: Sugar_Logw_def sugar_log_def sugar_write_def getMessage_def Logger_Log_def sw Logger_Check_def
        Logger_check_disabled split: prod.splits outcome.splits option.splits)
  then show ?thesis by (simp add: Sugar_With_def sw)
qed

section \<open>Properties\<close>

text \<open>
  C11: loosely typed logging is strongly typed logging.  For arguments that consist of fields, at
  most one error, and string keys with their values, \<open>Logw\<close> does exactly what \<open>Log\<close> of the underlying
  logger does with the corresponding fields, and \<open>With\<close> makes the logger that \<open>With\<close> of the underlying
  logger makes.
\<close>

theorem Sugar_is_Logger:
  assumes "list_all piece_ok ps" and "length (filter is_error_piece ps) \<le> 1"
  shows "Sugar_Logw E F sl l msg (concat (map piece_args ps)) s w =
      Logger_Log E (base sl) l msg (map (piece_field F) ps) s w \<and>
    Sugar_With E F (concat (map piece_args ps)) s sl w =
      apfst (map_outcome (\<lambda>log. \<lparr>base = log\<rparr>)) (Logger_With E (map (piece_field F) ps) (base sl) w)"
  by (rule Sugar_pieces [OF assms])

theorem Sugar_is_Logger_witness:
  "Sugar_Logw sample_env sample_fmt \<lparr>base = sample_logger\<rparr> InfoLevel ''started''
      [ArgVal (VString (Val ''port'')), ArgVal (VInt (Val 80)), ArgField (Bool ''tls'' True)] sample_site sample_world =
    Logger_Log sample_env sample_logger InfoLevel ''started'' [IntField ''port'' 80, Bool ''tls'' True] sample_site sample_world \<and>
   list_all piece_ok [PiecePair ''port'' (ArgVal (VInt (Val 80))), PieceField (Bool ''tls'' True :: nat Field)]"
  using Sugar_is_Logger [of "[PiecePair ''port'' (ArgVal (VInt (Val 80))), PieceField (Bool ''tls'' True)]"
      sample_env sample_fmt "\<lparr>base = sample_logger\<rparr>" InfoLevel "''started''" sample_site sample_world]
  by (simp add: arg_any_def any_shape_def)

text \<open>
  an orphaned key, a key that is not a string and a second error are handled alike whether
  or not the logger is in development mode: they are logged at \<open>ErrorLevel\<close>, and the mode never turns
  them into a panic.
\<close>

lemma misuse_ignores_development:
  "sweetenFields E F (log\<lparr>development := d\<rparr>) s args w = sweetenFields E F log s args w"
  by (simp add: sweetenFields_def sweeten_loop_development report_development split: prod.splits outcome.splits)

end
