(* ===== verification/Lad_Grpc.thy ===== *)
theory Lad_Grpc
  imports Lad_Sugar
begin

text \<open>
  The adapter to the logging interface of gRPC (\<open>ladgrpc/zapgrpc.go\<close>).
\<close>

section \<open>The adapter\<close>

definition grpcLvlInfo :: int where "grpcLvlInfo = 0"
definition grpcLvlWarn :: int where "grpcLvlWarn = 1"
definition grpcLvlError :: int where "grpcLvlError = 2"
definition grpcLvlFatal :: int where "grpcLvlFatal = 3"

text \<open>A lookup of a key that is not in the map gives the zero level, which is Info.\<close>

definition grpcToladLevel :: "int \<Rightarrow> level" where
  "grpcToladLevel n =
     (case [grpcLvlInfo \<mapsto> InfoLevel, grpcLvlWarn \<mapsto> WarnLevel, grpcLvlError \<mapsto> ErrorLevel,
        grpcLvlFatal \<mapsto> FatalLevel] n of Some l \<Rightarrow> l | None \<Rightarrow> Level 0)"

type_synonym ('v, 'z) printFunc =
  "'v arg list \<Rightarrow> site \<Rightarrow> ('v, 'z) world_scheme \<Rightarrow> control \<times> ('v, 'z) world_scheme"

record ('v, 'z) printer =
  p_enab :: "'v core"
  p_level :: level
  p_print :: "('v, 'z) printFunc"
  p_printf :: "bytes \<Rightarrow> ('v, 'z) printFunc"

record ('v, 'z) grpcLogger =
  delegate :: "'v SugaredLogger"
  levelEnabler :: "'v core"
  g_print :: "('v, 'z) printer"
  g_fatal :: "('v, 'z) printer"

datatype grpcOption = WithDebug | withWarn

primrec grpcOption_apply ::
  "'v env \<Rightarrow> 'v fmt \<Rightarrow> grpcOption \<Rightarrow> ('v, 'z) grpcLogger \<Rightarrow> ('v, 'z) grpcLogger" where
  "grpcOption_apply E F WithDebug l =
     l\<lparr>g_print := \<lparr>p_enab = levelEnabler l, p_level = DebugLevel, p_print = Sugar_Debug E F (delegate l),
       p_printf = Sugar_Debugf E F (delegate l)\<rparr>\<rparr>"
| "grpcOption_apply E F withWarn l =
     l\<lparr>g_fatal := \<lparr>p_enab = levelEnabler l, p_level = WarnLevel, p_print = Sugar_Warn E F (delegate l),
       p_printf = Sugar_Warnf E F (delegate l)\<rparr>\<rparr>"

definition grpc_NewLogger ::
  "'v env \<Rightarrow> 'v fmt \<Rightarrow> 'v Logger \<Rightarrow> grpcOption list \<Rightarrow> ('v, 'z) grpcLogger" where
  "grpc_NewLogger E F log opts =
     (let d = Logger_Sugar log in
      fold (grpcOption_apply E F) opts
        \<lparr>delegate = d, levelEnabler = l_core log,
         g_print = \<lparr>p_enab = l_core log, p_level = InfoLevel, p_print = Sugar_Info E F d, p_printf = Sugar_Infof E F d\<rparr>,
         g_fatal = \<lparr>p_enab = l_core log, p_level = FatalLevel, p_print = Sugar_Fatal E F d,
           p_printf = Sugar_Fatalf E F d\<rparr>\<rparr>)"

definition grpc_sprintln :: "'v fmt \<Rightarrow> 'v arg list \<Rightarrow> bytes" where
  "grpc_sprintln F args = butlast (Sprintln F args)"

definition printer_Print :: "('v, 'z) printer \<Rightarrow> ('v, 'z) printFunc" where
  "printer_Print v args = p_print v args"

definition printer_Printf :: "('v, 'z) printer \<Rightarrow> bytes \<Rightarrow> ('v, 'z) printFunc" where
  "printer_Printf v format args = p_printf v format args"

definition printer_Println :: "'v fmt \<Rightarrow> ('v, 'z) printer \<Rightarrow> ('v, 'z) printFunc" where
  "printer_Println F v args s w =
     (if core_Enabled (cells w) (p_enab v) (p_level v)
      then p_print v [ArgVal (VString (Val (grpc_sprintln F args)))] s w
      else (Returns, w))"

section \<open>The methods\<close>

definition grpc_Print :: "('v, 'z) grpcLogger \<Rightarrow> ('v, 'z) printFunc" where
  "grpc_Print l args = printer_Print (g_print l) args"

definition grpc_Printf :: "('v, 'z) grpcLogger \<Rightarrow> bytes \<Rightarrow> ('v, 'z) printFunc" where
  "grpc_Printf l format args = printer_Printf (g_print l) format args"

definition grpc_Println :: "'v fmt \<Rightarrow> ('v, 'z) grpcLogger \<Rightarrow> ('v, 'z) printFunc" where
  "grpc_Println F l args = printer_Println F (g_print l) args"

definition grpc_Info :: "'v env \<Rightarrow> 'v fmt \<Rightarrow> ('v, 'z) grpcLogger \<Rightarrow> ('v, 'z) printFunc" where
  "grpc_Info E F l args = Sugar_Info E F (delegate l) args"

definition grpc_Infoln :: "'v env \<Rightarrow> 'v fmt \<Rightarrow> ('v, 'z) grpcLogger \<Rightarrow> ('v, 'z) printFunc" where
  "grpc_Infoln E F l args s w =
     (if core_Enabled (cells w) (levelEnabler l) InfoLevel
      then Sugar_Info E F (delegate l) [ArgVal (VString (Val (grpc_sprintln F args)))] s w
      else (Returns, w))"

definition grpc_Infof :: "'v env \<Rightarrow> 'v fmt \<Rightarrow> ('v, 'z) grpcLogger \<Rightarrow> bytes \<Rightarrow> ('v, 'z) printFunc" where
  "grpc_Infof E F l format args = Sugar_Infof E F (delegate l) format args"

definition grpc_Warning :: "'v env \<Rightarrow> 'v fmt \<Rightarrow> ('v, 'z) grpcLogger \<Rightarrow> ('v, 'z) printFunc" where
  "grpc_Warning E F l args = Sugar_Warn E F (delegate l) args"

definition grpc_Warningln :: "'v env \<Rightarrow> 'v fmt \<Rightarrow> ('v, 'z) grpcLogger \<Rightarrow> ('v, 'z) printFunc" where
  "grpc_Warningln E F l args s w =
     (if core_Enabled (cells w) (levelEnabler l) WarnLevel
      then Sugar_Warn E F (delegate l) [ArgVal (VString (Val (grpc_sprintln F args)))] s w
      else (Returns, w))"

definition grpc_Warningf :: "'v env \<Rightarrow> 'v fmt \<Rightarrow> ('v, 'z) grpcLogger \<Rightarrow> bytes \<Rightarrow> ('v, 'z) printFunc" where
  "grpc_Warningf E F l format args = Sugar_Warnf E F (delegate l) format args"

definition grpc_Error :: "'v env \<Rightarrow> 'v fmt \<Rightarrow> ('v, 'z) grpcLogger \<Rightarrow> ('v, 'z) printFunc" where
  "grpc_Error E F l args = Sugar_Error E F (delegate l) args"

definition grpc_Errorln :: "'v env \<Rightarrow> 'v fmt \<Rightarrow> ('v, 'z) grpcLogger \<Rightarrow> ('v, 'z) printFunc" where
  "grpc_Errorln E F l args s w =
     (if core_Enabled (cells w) (levelEnabler l) ErrorLevel
      then Sugar_Error E F (delegate l) [ArgVal (VString (Val (grpc_sprintln F args)))] s w
      else (Returns, w))"

definition grpc_Errorf :: "'v env \<Rightarrow> 'v fmt \<Rightarrow> ('v, 'z) grpcLogger \<Rightarrow> bytes \<Rightarrow> ('v, 'z) printFunc" where
  "grpc_Errorf E F l format args = Sugar_Errorf E F (delegate l) format args"

definition grpc_Fatal :: "('v, 'z) grpcLogger \<Rightarrow> ('v, 'z) printFunc" where
  "grpc_Fatal l args = printer_Print (g_fatal l) args"

definition grpc_Fatalln :: "'v fmt \<Rightarrow> ('v, 'z) grpcLogger \<Rightarrow> ('v, 'z) printFunc" where
  "grpc_Fatalln F l args = printer_Println F (g_fatal l) args"

definition grpc_Fatalf :: "('v, 'z) grpcLogger \<Rightarrow> bytes \<Rightarrow> ('v, 'z) printFunc" where
  "grpc_Fatalf l format args = printer_Printf (g_fatal l) format args"

definition grpc_V :: "atomics \<Rightarrow> ('v, 'z) grpcLogger \<Rightarrow> int \<Rightarrow> bool" where
  "grpc_V st l level = core_Enabled st (levelEnabler l) (grpcToladLevel level)"

section \<open>The ln methods\<close>

lemma Sugar_string_ln:
  assumes "l < DPanicLevel \<or> core_Enabled (cells w) (l_core (base sl)) l"
  shows "(if core_Enabled (cells w) (l_core (base sl)) l
      then sugar_log E F sl l [] [ArgVal (VString (Val (grpc_sprintln F args)))] [] s w else (Returns, w)) =
    sugar_logln E F sl l args [] s w"
  using assms by (auto simp: sugar_log_def sugar_logln_def getMessage_def getMessageln_def grpc_sprintln_def)

lemma below_DPanic: "InfoLevel < DPanicLevel" "WarnLevel < DPanicLevel" "ErrorLevel < DPanicLevel"
  by (simp_all add: level_simps)

lemma Sugar_Fatal_stops:
  assumes "\<forall>f. onFatal (base sl) \<noteq> Some (CustomHook f)"
  shows "fst (Sugar_Fatal E F sl args s w) \<noteq> Returns"
proof -
  have not: "\<not> FatalLevel < DPanicLevel" by (simp add: level_simps)
  obtain msg where m: "Sugar_Fatal E F sl args s w = sugar_write E F sl FatalLevel msg [] s w"
    by (simp add: Sugar_Fatal_def sugar_log_def not)
  have "sugar_write E F sl FatalLevel msg [] s w = Logger_Log E (base sl) FatalLevel msg [] s w"
    by (auto simp: sugar_write_def Logger_Log_def Logger_Check_def sweetenFields_def split: prod.splits outcome.splits option.splits)
  then show ?thesis using m assms terminal_stops [of FatalLevel "base sl" E msg "[]" s w] by simp
qed

section \<open>Properties\<close>

text \<open>
  C36: the \<open>ln\<close> methods of the adapter are those of the sugared logger, at the levels that their names
  say; a message is formatted only if its level is enabled.  The exception is \<open>Fatalln\<close>: when Fatal
  level is disabled, it returns and does nothing, where \<open>Fatal\<close> still ends the program.
\<close>

theorem grpc_ln_methods:
  fixes w :: "('v, 'z) world_scheme"
  assumes "l = grpc_NewLogger E F log []" and "sl = Logger_Sugar log"
  shows "grpc_Infoln E F l args s w = Sugar_Infoln E F sl args s w \<and>
    grpc_Warningln E F l args s w = Sugar_Warnln E F sl args s w \<and>
    grpc_Errorln E F l args s w = Sugar_Errorln E F sl args s w \<and>
    grpc_Println F l args s w = Sugar_Infoln E F sl args s w \<and>
    (if core_Enabled (cells w) (l_core log) FatalLevel
     then grpc_Fatalln F l args s w = Sugar_Fatalln E F sl args s w
     else grpc_Fatalln F l args s w = (Returns, w)) \<and>
    ((\<forall>f. onFatal log \<noteq> Some (CustomHook f)) \<longrightarrow> fst (grpc_Fatal l args s w) \<noteq> Returns)"
proof -
  have l: "delegate l = sl" "levelEnabler l = l_core log" "g_print l = \<lparr>p_enab = l_core log, p_level = InfoLevel,
      p_print = Sugar_Info E F sl, p_printf = Sugar_Infof E F sl\<rparr>"
    "g_fatal l = \<lparr>p_enab = l_core log, p_level = FatalLevel, p_print = Sugar_Fatal E F sl, p_printf = Sugar_Fatalf E F sl\<rparr>"
    by (simp_all add: assms grpc_NewLogger_def Let_def)
  have c: "l_core (base sl) = l_core log" "onFatal (base sl) = onFatal log" by (simp_all add: assms(2) Logger_Sugar_def)
  note ln = Sugar_string_ln [of _ w sl E F args s, unfolded c]
  have "grpc_Infoln E F l args s w = Sugar_Infoln E F sl args s w"
    "grpc_Warningln E F l args s w = Sugar_Warnln E F sl args s w"
    "grpc_Errorln E F l args s w = Sugar_Errorln E F sl args s w"
    "grpc_Println F l args s w = Sugar_Infoln E F sl args s w"
    using ln [OF disjI1 [OF below_DPanic(1)]] ln [OF disjI1 [OF below_DPanic(2)]] ln [OF disjI1 [OF below_DPanic(3)]]
    by (simp_all add: l grpc_Infoln_def grpc_Warningln_def grpc_Errorln_def grpc_Println_def printer_Println_def
        Sugar_Info_def Sugar_Warn_def Sugar_Error_def Sugar_Infoln_def Sugar_Warnln_def Sugar_Errorln_def
        split: if_splits)
  moreover have "if core_Enabled (cells w) (l_core log) FatalLevel
     then grpc_Fatalln F l args s w = Sugar_Fatalln E F sl args s w
     else grpc_Fatalln F l args s w = (Returns, w)"
    using ln [OF disjI2, of FatalLevel] by (simp add: l grpc_Fatalln_def printer_Println_def Sugar_Fatal_def Sugar_Fatalln_def)
  moreover have "(\<forall>f. onFatal log \<noteq> Some (CustomHook f)) \<longrightarrow> fst (grpc_Fatal l args s w) \<noteq> Returns"
    using Sugar_Fatal_stops [of sl E F args s w] by (simp add: l c grpc_Fatal_def printer_Print_def)
  ultimately show ?thesis by blast
qed

theorem grpc_ln_methods_witness:
  "grpc_Fatalln sample_fmt (grpc_NewLogger sample_env sample_fmt NewNop []) [] sample_site sample_world = (Returns, sample_world) \<and>
   fst (grpc_Fatal (grpc_NewLogger sample_env sample_fmt NewNop []) [] sample_site sample_world) \<noteq> Returns"
  using grpc_ln_methods [OF refl refl, of sample_env sample_fmt NewNop "[]" sample_site sample_world]
  by (simp add: NewNop_def NewNopCore_def)

end
