(* ===== verification/Lad_Slog.thy ===== *)
theory Lad_Slog
  imports Lad_Logger_Props
begin

text \<open>
  The handler for \<open>log/slog\<close> (\<open>exp/zapslog/handler.go\<close>, \<open>options.go\<close>).
\<close>

section \<open>Attributes\<close>

text \<open>
  A \<open>slog.Value\<close> by its kind; a \<open>LogValuer\<close> is given by the name of its
  type and the value that its method returns.  \<open>SError\<close> is a
  value of kind \<open>Any\<close> that holds an error, for which \<open>lad.Any\<close> is \<open>NamedError\<close>.  An
  attribute is a key with a value.
\<close>

datatype 'v slog_value =
    SAny "'v anyval"
  | SError error
  | SBool bool
  | SDuration int64
  | SFloat64 uint64
  | SInt64 int64
  | SString bytes
  | STime time
  | SUint64 uint64
  | SGroup "(bytes \<times> 'v slog_value) list"
  | SLogValuer bytes "'v slog_value"

type_synonym 'v slog_attr = "bytes \<times> 'v slog_value"

text \<open>\<open>Value.Resolve\<close> gives up after \<open>maxLogValues\<close> calls.\<close>

definition maxLogValues :: nat where "maxLogValues = 100"

fun resolve_loop :: "bytes \<Rightarrow> nat \<Rightarrow> 'v slog_value \<Rightarrow> 'v slog_value" where
  "resolve_loop orig 0 v =
     SError (errors_new (''LogValue called too many times (on type '' @ orig @ '')''))"
| "resolve_loop orig (Suc n) (SLogValuer ty v) = resolve_loop orig n v"
| "resolve_loop orig (Suc n) v = v"

definition slog_Resolve :: "bytes \<Rightarrow> 'v slog_value \<Rightarrow> 'v slog_value" where
  "slog_Resolve ty v = resolve_loop ty maxLogValues (SLogValuer ty v)"

fun is_empty_value :: "'v slog_value \<Rightarrow> bool" where
  "is_empty_value (SAny VNil) = True"
| "is_empty_value _ = False"

text \<open>\<open>attr.Equal(slog.Attr{})\<close>.\<close>

definition is_empty_attr :: "bytes \<Rightarrow> 'v slog_value \<Rightarrow> bool" where
  "is_empty_attr k v \<longleftrightarrow> k = [] \<and> is_empty_value v"

lemma slog_value_size_pos: "Suc 0 \<le> size (v :: 'v slog_value)"
  by (cases v) auto

lemma resolve_loop_size: "size (resolve_loop ty n v) \<le> size v"
  by (induction ty n v rule: resolve_loop.induct) (auto simp: slog_value_size_pos)

lemma slog_Resolve_size: "size (slog_Resolve ty v) \<le> size v"
  using resolve_loop_size [of ty 99 v] by (simp add: slog_Resolve_def maxLogValues_def eval_nat_numeral)

text \<open>A \<open>groupObject\<close> adds the converted attributes one by one.\<close>

function (sequential) convertAttrToField :: "bytes \<Rightarrow> 'v slog_value \<Rightarrow> 'v Field"
  and groupObject :: "(bytes \<times> 'v slog_value) list \<Rightarrow> 'v obj_prog"
where
  "convertAttrToField k v =
     (if is_empty_attr k v then Skip
      else case v of
        SBool b \<Rightarrow> Bool k b
      | SDuration d \<Rightarrow> Duration k d
      | SFloat64 x \<Rightarrow> Float64 k x
      | SInt64 i \<Rightarrow> Int64 k i
      | SString s \<Rightarrow> String k s
      | STime t \<Rightarrow> Lad_Field.Time k t
      | SUint64 u \<Rightarrow> Uint64 k u
      | SGroup attrs \<Rightarrow> if k = [] then Inline (IObj (groupObject attrs)) else Object k (IObj (groupObject attrs))
      | SLogValuer ty x \<Rightarrow> convertAttrToField k (slog_Resolve ty x)
      | SAny x \<Rightarrow> Any k x
      | SError e \<Rightarrow> NamedError k (Some e))"
| "groupObject [] = ORet None"
| "groupObject ((k, v) # attrs) = obj_bind (AddTo (convertAttrToField k v)) (\<lambda>_. groupObject attrs)"
  by pat_completeness auto
termination
  by (relation "measure (\<lambda>x. case x of Inl (k, v) \<Rightarrow> size v | Inr attrs \<Rightarrow> size_list (size_prod (\<lambda>_. 0) size) attrs)")
    (auto simp: less_Suc_eq_le slog_Resolve_size)

declare convertAttrToField.simps [simp del]

section \<open>Levels\<close>

definition slog_LevelInfo :: int where "slog_LevelInfo = 0"
definition slog_LevelWarn :: int where "slog_LevelWarn = 4"
definition slog_LevelError :: int where "slog_LevelError = 8"

definition convertSlogLevel :: "int \<Rightarrow> level" where
  "convertSlogLevel l =
     (if l \<ge> slog_LevelError then ErrorLevel
      else if l \<ge> slog_LevelWarn then WarnLevel
      else if l \<ge> slog_LevelInfo then InfoLevel
      else DebugLevel)"

section \<open>The handler\<close>

record 'v Handler =
  h_core :: "'v core"
  h_name :: bytes
  h_addCaller :: bool
  h_addStackAt :: int
  h_callerSkip :: int
  h_groups :: "bytes list"

datatype HandlerOption = WithName bytes | slog_WithCaller bool | WithCallerSkip int | AddStacktraceAt int

primrec HandlerOption_apply :: "HandlerOption \<Rightarrow> 'v Handler \<Rightarrow> 'v Handler" where
  "HandlerOption_apply (WithName name) h = h\<lparr>h_name := name\<rparr>"
| "HandlerOption_apply (slog_WithCaller enabled) h = h\<lparr>h_addCaller := enabled\<rparr>"
| "HandlerOption_apply (WithCallerSkip skip) h = h\<lparr>h_callerSkip := h_callerSkip h + skip\<rparr>"
| "HandlerOption_apply (AddStacktraceAt l) h = h\<lparr>h_addStackAt := l\<rparr>"

definition NewHandler :: "'v core \<Rightarrow> HandlerOption list \<Rightarrow> 'v Handler" where
  "NewHandler core opts =
     fold HandlerOption_apply opts \<lparr>h_core = core, h_name = [], h_addCaller = False, h_addStackAt = slog_LevelError,
       h_callerSkip = 0, h_groups = []\<rparr>"

text \<open>A record of \<open>slog\<close>.\<close>

record 'v slog_record =
  r_Time :: time
  r_Message :: bytes
  r_Level :: int
  r_PC :: uint64
  r_Attrs :: "'v slog_attr list"

definition slog_Enabled :: "atomics \<Rightarrow> 'v Handler \<Rightarrow> int \<Rightarrow> bool" where
  "slog_Enabled st h l = core_Enabled st (h_core h) (convertSlogLevel l)"

definition appendGroups :: "'v Handler \<Rightarrow> 'v Field list \<Rightarrow> 'v Field list" where
  "appendGroups h flds = flds @ map Namespace (h_groups h)"

text \<open>The comparison \<open>f != lad.Skip()\<close> of two fields.\<close>

definition is_Skip :: "'v Field \<Rightarrow> bool" where
  "is_Skip f \<longleftrightarrow> Key f = [] \<and> Type f = SkipType \<and> Integer f = 0 \<and> Str f = [] \<and>
     (case Interface f of INil \<Rightarrow> True | _ \<Rightarrow> False)"

text \<open>The loop over attributes that \<open>Handle\<close> and \<open>WithAttrs\<close> share.\<close>

fun attrs_loop :: "'v Handler \<Rightarrow> 'v slog_attr list \<Rightarrow> bool \<Rightarrow> 'v Field list \<Rightarrow> 'v Field list \<times> bool" where
  "attrs_loop h [] addedNamespace flds = (flds, addedNamespace)"
| "attrs_loop h ((k, v) # attrs) addedNamespace flds =
     (let f = convertAttrToField k v in
      if \<not> addedNamespace \<and> h_groups h \<noteq> [] \<and> \<not> is_Skip f
      then attrs_loop h attrs True (appendGroups h flds @ [f])
      else attrs_loop h attrs addedNamespace (flds @ [f]))"

text \<open>
  \<open>pc_frame\<close> is what \<open>runtime.CallersFrames\<close> finds for one program counter.  A fresh stack has room
  for 64 frames.
\<close>

definition slog_Handle ::
  "'v env \<Rightarrow> (uint64 \<Rightarrow> frame) \<Rightarrow> 'v Handler \<Rightarrow> 'v slog_record \<Rightarrow> frame list \<Rightarrow> ('v, 'z) world_scheme \<Rightarrow>
   control \<times> ('v, 'z) world_scheme" where
  "slog_Handle E pc_frame h rec stk w =
     (let ent = zeroEntry\<lparr>ent_Level := convertSlogLevel (r_Level rec), ent_Time := r_Time rec,
            ent_Message := r_Message rec, ent_LoggerName := h_name h\<rparr> in
      case core_Check E (h_core h) ent None w of
        (Panic m, w') \<Rightarrow> (Panics m, w')
      | (Ok None, w') \<Rightarrow> (Returns, w')
      | (Ok (Some ce), w') \<Rightarrow>
          let fr = pc_frame (r_PC rec);
              ce = (if h_addCaller h \<and> r_PC rec \<noteq> 0 \<and> frame_PC fr \<noteq> 0
                    then ce\<lparr>ce_Entry := (ce_Entry ce)\<lparr>ent_Caller := \<lparr>Defined = True, PC = frame_PC fr,
                      File = frame_File fr, Line = frame_Line fr, Function = frame_Function fr\<rparr>\<rparr>\<rparr>
                    else ce);
              ce = (if r_Level rec \<ge> h_addStackAt h
                    then ce\<lparr>ce_Entry := (ce_Entry ce)\<lparr>ent_Stack :=
                      the (stacktrace_Take 64 stk (3 + h_callerSkip h))\<rparr>\<rparr>
                    else ce)
          in case ce_Write E (Some ce) (fst (attrs_loop h (r_Attrs rec) False [])) w' of
               (ctl, _, w'') \<Rightarrow> (ctl, w''))"

definition slog_WithAttrs ::
  "'v env \<Rightarrow> 'v slog_attr list \<Rightarrow> 'v Handler \<Rightarrow> ('v, 'z) world_scheme \<Rightarrow>
   'v Handler outcome \<times> ('v, 'z) world_scheme" where
  "slog_WithAttrs E attrs h w =
     (case attrs_loop h attrs False [] of
        (flds, addedNamespace) \<Rightarrow>
          apfst (map_outcome (\<lambda>c. h\<lparr>h_core := c, h_groups := if addedNamespace then [] else h_groups h\<rparr>))
            (With_world E (h_core h) flds w))"

definition slog_WithGroup :: "bytes \<Rightarrow> 'v Handler \<Rightarrow> 'v Handler" where
  "slog_WithGroup grp h = h\<lparr>h_groups := h_groups h @ [grp]\<rparr>"

section \<open>What groups mean\<close>

text \<open>
  A specification of groups: a sequence of group names and of attributes, in the order in which
  they were given to the handler, no matter by which calls.  A group is opened in front of the
  first attribute behind it that is not empty.
\<close>

datatype 'v slog_item = ItemGroup bytes | ItemAttr "'v slog_attr"

fun emit :: "bytes list \<Rightarrow> 'v slog_item list \<Rightarrow> 'v Field list" where
  "emit pending [] = []"
| "emit pending (ItemGroup g # items) = emit (pending @ [g]) items"
| "emit pending (ItemAttr (k, v) # items) =
     (let f = convertAttrToField k v in
      if is_Skip f then f # emit pending items else map Namespace pending @ f # emit [] items)"

text \<open>The groups that are still to be opened after the items.\<close>

fun pending_after :: "bytes list \<Rightarrow> 'v slog_item list \<Rightarrow> bytes list" where
  "pending_after pending [] = pending"
| "pending_after pending (ItemGroup g # items) = pending_after (pending @ [g]) items"
| "pending_after pending (ItemAttr (k, v) # items) =
     pending_after (if is_Skip (convertAttrToField k v) then pending else []) items"

lemma emit_append: "emit p (xs @ ys) = emit p xs @ emit (pending_after p xs) ys"
  by (induction p xs rule: emit.induct) (auto simp: Let_def)

lemma pending_after_append: "pending_after p (xs @ ys) = pending_after (pending_after p xs) ys"
  by (induction p xs rule: pending_after.induct) auto

lemma attrs_loop_emit:
  "attrs_loop h attrs added flds =
     (flds @ emit (if added then [] else h_groups h) (map ItemAttr attrs),
      added \<or> h_groups h \<noteq> [] \<and> \<not> list_all (\<lambda>(k, v). is_Skip (convertAttrToField k v)) attrs)"
proof (induction h attrs added flds rule: attrs_loop.induct)
  case (2 h k v attrs added flds)
  show ?case
  proof (cases "\<not> added \<and> h_groups h \<noteq> [] \<and> \<not> is_Skip (convertAttrToField k v)")
    case True
    then show ?thesis using 2(1) [OF refl True] by (simp add: Let_def appendGroups_def)
  next
    case False
    then show ?thesis using 2(2) [OF refl False] by (auto simp: Let_def)
  qed
qed simp

lemma pending_after_attrs:
  "pending_after p (map ItemAttr attrs) =
     (if list_all (\<lambda>(k, v). is_Skip (convertAttrToField k v)) attrs then p else [])"
  by (induction attrs arbitrary: p) auto

section \<open>Handlers over an observer\<close>

text \<open>The calls that derive a handler, and the items that they contribute.\<close>

datatype 'v slog_call = CallGroup bytes | CallAttrs "'v slog_attr list"

primrec call_items :: "'v slog_call \<Rightarrow> 'v slog_item list" where
  "call_items (CallGroup g) = [ItemGroup g]"
| "call_items (CallAttrs attrs) = map ItemAttr attrs"

fun slog_derive ::
  "'v env \<Rightarrow> 'v slog_call list \<Rightarrow> 'v Handler \<Rightarrow> ('v, 'z) world_scheme \<Rightarrow>
   'v Handler outcome \<times> ('v, 'z) world_scheme" where
  "slog_derive E [] h w = (Ok h, w)"
| "slog_derive E (CallGroup g # cs) h w = slog_derive E cs (slog_WithGroup g h) w"
| "slog_derive E (CallAttrs attrs # cs) h w =
     (case slog_WithAttrs E attrs h w of
        (Ok h', w') \<Rightarrow> slog_derive E cs h' w'
      | (Panic m, w') \<Rightarrow> (Panic m, w'))"

lemma slog_derive_observer:
  assumes "h_core h = contextObserver en i (emit [] items)" and "h_groups h = pending_after [] items"
    and "all = items @ concat (map call_items cs)"
  shows "slog_derive E cs h w =
    (Ok (h\<lparr>h_core := contextObserver en i (emit [] all), h_groups := pending_after [] all\<rparr>), w)"
  using assms
proof (induction cs arbitrary: h items)
  case (Cons c cs)
  show ?case
  proof (cases c)
    case (CallGroup g)
    have "slog_derive E cs (slog_WithGroup g h) w =
        (Ok ((slog_WithGroup g h)\<lparr>h_core := contextObserver en i (emit [] all), h_groups := pending_after [] all\<rparr>), w)"
      by (rule Cons.IH [of _ "items @ [ItemGroup g]"])
        (use Cons.prems CallGroup in \<open>simp_all add: slog_WithGroup_def emit_append pending_after_append\<close>)
    then show ?thesis using CallGroup by (simp add: slog_WithGroup_def)
  next
    case (CallAttrs attrs)
    let ?items = "items @ map ItemAttr attrs"
    let ?h = "h\<lparr>h_core := contextObserver en i (emit [] ?items), h_groups := pending_after [] ?items\<rparr>"
    have "slog_WithAttrs E attrs h w = (Ok ?h, w)"
      using Cons.prems(1,2)
      by (auto simp: slog_WithAttrs_def attrs_loop_emit With_world_def emit_append pending_after_append pending_after_attrs)
    moreover have "slog_derive E cs ?h w =
        (Ok (?h\<lparr>h_core := contextObserver en i (emit [] all), h_groups := pending_after [] all\<rparr>), w)"
      by (rule Cons.IH [of _ ?items]) (use Cons.prems CallAttrs in simp_all)
    ultimately show ?thesis using CallAttrs by simp
  qed
qed simp

section \<open>Correctness\<close>

lemma NewHandler_fields: "h_core (NewHandler c opts) = c \<and> h_groups (NewHandler c opts) = []"
proof -
  have "h_core (fold HandlerOption_apply opts h) = h_core h \<and> h_groups (fold HandlerOption_apply opts h) = h_groups h"
    for h :: "'a Handler"
  proof (induction opts arbitrary: h)
    case (Cons o1 opts)
    then show ?case by (cases o1) auto
  qed simp
  then show ?thesis by (simp add: NewHandler_def)
qed

text \<open>The entry that a handler makes of a record.\<close>

definition slog_entry :: "(uint64 \<Rightarrow> frame) \<Rightarrow> 'v Handler \<Rightarrow> 'v slog_record \<Rightarrow> frame list \<Rightarrow> Entry" where
  "slog_entry pc_frame h rec stk =
     (let fr = pc_frame (r_PC rec) in
      zeroEntry\<lparr>ent_Level := convertSlogLevel (r_Level rec), ent_Time := r_Time rec,
        ent_LoggerName := h_name h, ent_Message := r_Message rec,
        ent_Caller := if h_addCaller h \<and> r_PC rec \<noteq> 0 \<and> frame_PC fr \<noteq> 0
          then \<lparr>Defined = True, PC = frame_PC fr, File = frame_File fr, Line = frame_Line fr,
                Function = frame_Function fr\<rparr>
          else ent_Caller zeroEntry,
        ent_Stack := if r_Level rec \<ge> h_addStackAt h
          then frames_text (butlast (drop (nat (4 + h_callerSkip h)) stk)) else []\<rparr>)"

lemma slog_Handle_observer:
  assumes "multierr_ok E" and "h_core h = contextObserver en i ctx"
    and "enab_Enabled (cells w) en (convertSlogLevel (r_Level rec))"
  shows "slog_Handle E pc_frame h rec stk w =
    (Returns, w\<lparr>observed := (observed w)(i := observed w i @
       [(slog_entry pc_frame h rec stk, ctx @ emit (h_groups h) (map ItemAttr (r_Attrs rec)))])\<rparr>)"
  using assms(2,3) stack_text [of 64 stk "3 + h_callerSkip h"]
  by (simp add: slog_Handle_def AddCore_def slog_entry_def Let_def ce_Write_def attrs_loop_emit
    getCheckedEntry_def ce_reset_def zeroEntry_def zeroCaller_def add.commute
    multierr_simps [OF assms(1)])

section \<open>Properties\<close>

text \<open>
  C12: a handler of \<open>log/slog\<close> nests as the calls that made it say.  Whatever the order in which groups and
  attributes are attached, a record that the level lets through is logged once, with the attributes
  of all calls and of the record in order, and each group is opened in front of the first attribute
  behind it that is not empty, never without one.  The entry carries the caller and the stack trace
  that the options ask for.
\<close>

theorem slog_groups_nest:
  assumes "multierr_ok E" and "enab_Enabled (cells w) en (convertSlogLevel (r_Level rec))"
  shows "\<exists>h. slog_derive E cs (NewHandler (observer_New en i) opts) w = (Ok h, w) \<and>
    slog_Handle E pc_frame h rec stk w =
      (Returns, w\<lparr>observed := (observed w)(i := observed w i @
         [(slog_entry pc_frame (NewHandler (observer_New en i) opts) rec stk,
           emit [] (concat (map call_items cs) @ map ItemAttr (r_Attrs rec)))])\<rparr>)"
proof -
  let ?h = "NewHandler (observer_New en i) opts" and ?items = "concat (map call_items cs)"
  let ?h' = "?h\<lparr>h_core := contextObserver en i (emit [] ?items), h_groups := pending_after [] ?items\<rparr>"
  have "slog_derive E cs ?h w = (Ok ?h', w)"
    by (rule slog_derive_observer [where items = "[]"]) (simp_all add: NewHandler_fields observer_New_def)
  moreover have "slog_entry pc_frame ?h' rec stk = slog_entry pc_frame ?h rec stk"
    by (simp add: slog_entry_def Let_def)
  ultimately show ?thesis
    using slog_Handle_observer [OF assms(1) _ assms(2), of ?h'] by (simp add: emit_append)
qed

text \<open>Two groups, one with an attribute and one without, and a record at \<open>slog.LevelInfo\<close>.\<close>

definition sample_record :: "nat slog_record" where
  "sample_record = \<lparr>r_Time = Instant 0 UTC, r_Message = ''hi'', r_Level = 0, r_PC = 0, r_Attrs = [([], SAny VNil)]\<rparr>"

theorem slog_groups_nest_witness:
  "\<exists>h. slog_derive sample_env [CallGroup ''a'', CallGroup ''b'', CallAttrs [(''k'', SBool True)], CallGroup ''c'']
      (NewHandler (observer_New (LevelE InfoLevel) 0) []) sample_world = (Ok h, sample_world) \<and>
    map snd (observed (snd (slog_Handle sample_env (\<lambda>_. zeroFrame) h sample_record [] sample_world)) 0) =
      map snd (observed sample_world 0) @ [[Namespace ''a'', Namespace ''b'', Bool ''k'' True, Skip]]"
proof -
  have "enab_Enabled (cells sample_world) (LevelE InfoLevel) (convertSlogLevel (r_Level sample_record))"
    by (simp add: sample_record_def convertSlogLevel_def slog_LevelInfo_def slog_LevelWarn_def slog_LevelError_def
      enab_Enabled_def Level_Enabled_def)
  from slog_groups_nest [OF sample_multierr this, of _ 0 "[]" "\<lambda>_. zeroFrame" "[]"]
  show ?thesis
    by (fastforce simp: sample_record_def convertAttrToField.simps is_empty_attr_def Let_def is_Skip_def Skip_def
      Bool_def mkField_def)
qed

text \<open>
  Two places where the handler departs from what \<open>slog\<close> asks of handlers: a group without attributes
  becomes an empty object, and even opens the groups around it, and a group with an empty name
  becomes a namespace with an empty key.
\<close>

lemma slog_contract_deviations:
  "convertAttrToField ''g'' (SGroup []) = Object ''g'' (IObj (ORet None)) \<and>
   emit [''a''] [ItemAttr (''g'', SGroup [])] = [Namespace ''a'', Object ''g'' (IObj (ORet None))] \<and>
   h_groups (slog_WithGroup [] h) = h_groups h @ [[]]"
  by (simp add: convertAttrToField.simps is_empty_attr_def slog_WithGroup_def is_Skip_def Object_def Let_def)

end
