(* ===== verification/Lad_Clock.thy ===== *)
theory Lad_Clock
  imports Lad_Prelude "HOL-Library.Multiset"
begin

text \<open>
  The clock that tests drive by hand (\<open>internal/ztest/clock.go\<close>): its waiters, its tickers and what
  \<open>Add\<close> delivers to them.
\<close>

section \<open>State\<close>

text \<open>
  Times and durations are in nanoseconds.  The function of a waiter is always the one that
  \<open>NewTicker\<close> makes, so a waiter holds the ticker and the period that this function closes over.
  The channel of a ticker has room for one tick; \<open>mc_received\<close> lists what was taken from the
  channels, in order.
\<close>

record waiter =
  w_until :: int
  w_ticker :: nat
  w_period :: int

record MockClock =
  mc_now :: int
  mc_waiters :: "waiter list"
  mc_tickers :: nat
  mc_chan :: "nat \<Rightarrow> int option"
  mc_received :: "(nat \<times> int) list"

definition NewMockClock :: "int \<Rightarrow> MockClock" where
  "NewMockClock time_Now =
     \<lparr>mc_now = time_Now, mc_waiters = [], mc_tickers = 0, mc_chan = (\<lambda>_. None), mc_received = []\<rparr>"

definition MockClock_Now :: "MockClock \<Rightarrow> int" where
  "MockClock_Now c = mc_now c"

definition runAt :: "int \<Rightarrow> nat \<Rightarrow> int \<Rightarrow> MockClock \<Rightarrow> MockClock" where
  "runAt t i d c = c\<lparr>mc_waiters := mc_waiters c @ [\<lparr>w_until = t, w_ticker = i, w_period = d\<rparr>]\<rparr>"

text \<open>The local function \<open>tick\<close> of \<open>NewTicker\<close>, and the function that it passes to \<open>runAt\<close>.\<close>

definition tick :: "nat \<Rightarrow> int \<Rightarrow> int \<Rightarrow> MockClock \<Rightarrow> MockClock" where
  "tick i d now c = runAt (now + d) i d c"

definition waiter_fn :: "waiter \<Rightarrow> MockClock \<Rightarrow> MockClock" where
  "waiter_fn w c =
     tick (w_ticker w) (w_period w) (w_until w)
       (case mc_chan c (w_ticker w) of
          None \<Rightarrow> c\<lparr>mc_chan := (mc_chan c)(w_ticker w := Some (w_until w))\<rparr>
        | Some _ \<Rightarrow> c)"

definition MockClock_NewTicker :: "int \<Rightarrow> MockClock \<Rightarrow> nat \<times> MockClock" where
  "MockClock_NewTicker d c =
     (let i = mc_tickers c in (i, tick i d (MockClock_Now c) (c\<lparr>mc_tickers := Suc i\<rparr>)))"

section \<open>Advancing the clock\<close>

text \<open>
  While \<open>Add\<close> sleeps, a goroutine that waits for a tick of the ticker takes it; \<open>listening\<close> tells
  which tickers have one.
\<close>

definition receive :: "(nat \<Rightarrow> bool) \<Rightarrow> nat \<Rightarrow> MockClock \<Rightarrow> MockClock" where
  "receive listening i c =
     (case mc_chan c i of
        Some t \<Rightarrow> if listening i then c\<lparr>mc_chan := (mc_chan c)(i := None), mc_received := mc_received c @ [(i, t)]\<rparr> else c
      | None \<Rightarrow> c)"

partial_function (option) add_loop :: "(nat \<Rightarrow> bool) \<Rightarrow> int \<Rightarrow> MockClock \<Rightarrow> MockClock option" where
  "add_loop listening newTime c =
     (case mc_waiters c of
        [] \<Rightarrow> Some c
      | w # ws \<Rightarrow>
          if newTime < w_until w then Some c
          else add_loop listening newTime
                 (receive listening (w_ticker w) (waiter_fn w (c\<lparr>mc_waiters := ws, mc_now := w_until w\<rparr>))))"

text \<open>
  \<open>sort_Slice\<close> stands for \<open>sort.Slice\<close>, which sorts, but may order equal elements in any way.
\<close>

definition sorts :: "(waiter list \<Rightarrow> waiter list) \<Rightarrow> bool" where
  "sorts sort_Slice \<longleftrightarrow> (\<forall>ws. mset (sort_Slice ws) = mset ws \<and> sorted (map w_until (sort_Slice ws)))"

definition MockClock_Add ::
  "(waiter list \<Rightarrow> waiter list) \<Rightarrow> (nat \<Rightarrow> bool) \<Rightarrow> int \<Rightarrow> MockClock \<Rightarrow> MockClock outcome option" where
  "MockClock_Add sort_Slice listening d c =
     (if d < 0 then Some (Panic ''cannot add negative duration'')
      else let c = c\<lparr>mc_waiters := sort_Slice (mc_waiters c)\<rparr>; newTime = mc_now c + d in
           map_option (\<lambda>c. Ok (c\<lparr>mc_now := newTime\<rparr>)) (add_loop listening newTime c))"

section \<open>One round of the loop\<close>

definition round_of :: "(nat \<Rightarrow> bool) \<Rightarrow> waiter \<Rightarrow> waiter list \<Rightarrow> MockClock \<Rightarrow> MockClock" where
  "round_of listening w ws c =
     receive listening (w_ticker w) (waiter_fn w (c\<lparr>mc_waiters := ws, mc_now := w_until w\<rparr>))"

lemma add_loop_Nil: "mc_waiters c = [] \<Longrightarrow> add_loop listening T c = Some c"
  by (subst add_loop.simps) simp

lemma add_loop_late: "mc_waiters c = w # ws \<Longrightarrow> T < w_until w \<Longrightarrow> add_loop listening T c = Some c"
  by (subst add_loop.simps) simp

lemma add_loop_round:
  "mc_waiters c = w # ws \<Longrightarrow> w_until w \<le> T \<Longrightarrow> add_loop listening T c = add_loop listening T (round_of listening w ws c)"
  by (subst add_loop.simps) (simp add: round_of_def)

lemma round_of_waiters [simp]:
  "mc_waiters (round_of listening w ws c) = ws @ [w\<lparr>w_until := w_until w + w_period w\<rparr>]"
  by (auto simp: round_of_def receive_def waiter_fn_def tick_def runAt_def split: option.splits)

lemma round_of_received:
  assumes "mc_chan c (w_ticker w) = None" and "listening (w_ticker w)"
  shows "mc_received (round_of listening w ws c) = mc_received c @ [(w_ticker w, w_until w)]"
    and "mc_chan (round_of listening w ws c) = mc_chan c"
  using assms by (auto simp: round_of_def receive_def waiter_fn_def tick_def runAt_def)

text \<open>How many nanoseconds the waiters are behind.\<close>

definition lag :: "int \<Rightarrow> waiter list \<Rightarrow> nat" where
  "lag T ws = sum_list (map (\<lambda>w. nat (T + 1 - w_until w)) ws)"

lemma lag_round:
  assumes "w_until w \<le> T" and "0 < w_period w"
  shows "lag T (ws @ [w\<lparr>w_until := w_until w + w_period w\<rparr>]) < lag T (w # ws)"
  using assms by (simp add: lag_def)

lemma add_loop_returns:
  assumes "list_all (\<lambda>w. 0 < w_period w) (mc_waiters c)"
  shows "\<exists>c'. add_loop listening T c = Some c'"
  using assms
proof (induction "lag T (mc_waiters c)" arbitrary: c rule: less_induct)
  case less
  show ?case
  proof (cases "mc_waiters c")
    case Nil
    then show ?thesis by (simp add: add_loop_Nil)
  next
    case (Cons w ws)
    show ?thesis
    proof (cases "T < w_until w")
      case True
      then show ?thesis using Cons by (simp add: add_loop_late)
    next
      case False
      then have "\<exists>c'. add_loop listening T (round_of listening w ws c) = Some c'"
        using Cons less.prems lag_round [of w T ws] by (intro less.hyps) auto
      then show ?thesis using Cons False by (simp add: add_loop_round)
    qed
  qed
qed

section \<open>Tickers with one period\<close>

text \<open>The times, from \<open>t\<close> and \<open>p\<close> apart, that are not after \<open>T\<close>.\<close>

definition ticks :: "int \<Rightarrow> int \<Rightarrow> int \<Rightarrow> int list" where
  "ticks t p T = map (\<lambda>k. t + int k * p) [0..<nat ((T - t) div p + 1)]"

lemma ticks_late: "T < t \<Longrightarrow> 0 < p \<Longrightarrow> ticks t p T = []"
  using div_neg_pos_less0 [of "T - t" p] by (simp add: ticks_def)

lemma ticks_step:
  assumes "t \<le> T" and "0 < p"
  shows "ticks t p T = t # ticks (t + p) p T"
proof -
  have "(T - (t + p)) div p = (T - t) div p - 1"
    using assms(2) div_mult_self1 [of p "T - t" "- 1"] by (simp add: algebra_simps)
  moreover have "0 \<le> (T - t) div p" using assms by (simp add: pos_imp_zdiv_nonneg_iff)
  ultimately have "nat ((T - t) div p + 1) = Suc (nat ((T - (t + p)) div p + 1))" by simp
  then show ?thesis
    by (simp only: ticks_def upt_conv_Cons zero_less_Suc map_Suc_upt [symmetric] list.map map_map)
      (simp add: comp_def algebra_simps)
qed

definition ticks_for :: "nat \<Rightarrow> (nat \<times> int) list \<Rightarrow> int list" where
  "ticks_for i log = map snd (filter (\<lambda>x. fst x = i) log)"

lemma ticks_for_simps [simp]:
  "ticks_for i [] = []" "ticks_for i (x # log) = (if fst x = i then snd x # ticks_for i log else ticks_for i log)"
  by (simp_all add: ticks_for_def)

text \<open>The waiters are in order, of one period, and none is more than one period behind the first.\<close>

definition in_step :: "int \<Rightarrow> waiter list \<Rightarrow> bool" where
  "in_step p ws \<longleftrightarrow> sorted (map w_until ws) \<and> distinct (map w_ticker ws) \<and>
     list_all (\<lambda>w. w_period w = p \<and> w_until w \<le> w_until (hd ws) + p) ws"

lemma in_step_round:
  assumes "in_step p (w # ws)" and "0 < p"
  shows "in_step p (ws @ [w\<lparr>w_until := w_until w + w_period w\<rparr>])"
    and "w_until w \<le> w_until (hd (ws @ [w\<lparr>w_until := w_until w + w_period w\<rparr>]))"
proof -
  show hd: "w_until w \<le> w_until (hd (ws @ [w\<lparr>w_until := w_until w + w_period w\<rparr>]))"
    using assms by (cases ws) (auto simp: in_step_def)
  have "w_until v \<le> w_until w + p" if "v \<in> set ws" for v
    using assms(1) that by (auto simp: in_step_def list_all_iff)
  then show "in_step p (ws @ [w\<lparr>w_until := w_until w + w_period w\<rparr>])"
    using assms hd by (fastforce simp: in_step_def sorted_append list_all_iff)
qed

lemma add_loop_in_step:
  assumes "in_step p (mc_waiters c)" and "0 < p"
    and "\<And>w. w \<in> set (mc_waiters c) \<Longrightarrow> mc_chan c (w_ticker w) = None \<and> listening (w_ticker w) \<and> w_until w \<le> T + p"
  shows "\<exists>c' new. add_loop listening T c = Some c' \<and> mc_received c' = mc_received c @ new \<and>
    sorted (map snd new) \<and> (\<forall>x\<in>set new. w_until (hd (mc_waiters c)) \<le> snd x) \<and>
    (\<forall>w\<in>set (mc_waiters c). ticks_for (w_ticker w) new = ticks (w_until w) p T) \<and>
    mc_chan c' = mc_chan c \<and> in_step p (mc_waiters c') \<and> w_ticker ` set (mc_waiters c') = w_ticker ` set (mc_waiters c) \<and>
    (\<forall>w\<in>set (mc_waiters c'). T < w_until w \<and> w_until w \<le> T + p) \<and> mc_tickers c' = mc_tickers c"
  using assms(1,3)
proof (induction "lag T (mc_waiters c)" arbitrary: c rule: less_induct)
  case less
  show ?case
  proof (cases "mc_waiters c")
    case Nil
    then show ?thesis using less.prems by (intro exI [of _ c] exI [of _ "[]"]) (simp add: add_loop_Nil)
  next
    case (Cons w ws)
    show ?thesis
    proof (cases "T < w_until w")
      case True
      have "T < w_until v" if "v \<in> set (w # ws)" for v
        using True that less.prems(1) Cons by (auto simp: in_step_def)
      then show ?thesis
        using less.prems Cons True assms(2)
        by (intro exI [of _ c] exI [of _ "[]"]) (auto simp: add_loop_late ticks_late)
    next
      case False
      let ?r = "round_of listening w ws c" and ?w = "w\<lparr>w_until := w_until w + w_period w\<rparr>"
      have p: "w_period w = p" "in_step p (w # ws)" using less.prems(1) Cons by (auto simp: in_step_def)
      have w: "mc_chan c (w_ticker w) = None" "listening (w_ticker w)" using less.prems(2) Cons by auto
      note r = round_of_received [of c w listening, OF w]
      have lag: "lag T (mc_waiters ?r) < lag T (mc_waiters c)"
        using lag_round [of w T ws] False p(1) assms(2) Cons by simp
      have "in_step p (mc_waiters ?r)" using in_step_round [OF p(2) assms(2)] by simp
      from less.hyps [OF lag this] obtain c' new where ih: "add_loop listening T ?r = Some c'"
        "mc_received c' = mc_received ?r @ new" "sorted (map snd new)"
        "\<forall>x\<in>set new. w_until (hd (mc_waiters ?r)) \<le> snd x"
        "\<forall>v\<in>set (mc_waiters ?r). ticks_for (w_ticker v) new = ticks (w_until v) p T"
        "mc_chan c' = mc_chan ?r" "in_step p (mc_waiters c')"
        "w_ticker ` set (mc_waiters c') = w_ticker ` set (mc_waiters ?r)"
        "\<forall>w\<in>set (mc_waiters c'). T < w_until w \<and> w_until w \<le> T + p" "mc_tickers c' = mc_tickers ?r"
        using less.prems(2) Cons False p(1) r(2) by fastforce
      have "\<forall>x\<in>set new. w_until w \<le> snd x" using ih(4) in_step_round(2) [OF p(2) assms(2)] by fastforce
      moreover have "mc_tickers ?r = mc_tickers c"
        by (auto simp: round_of_def receive_def waiter_fn_def tick_def runAt_def split: option.splits)
      moreover have "\<forall>v\<in>set (w # ws). ticks_for (w_ticker v) ((w_ticker w, w_until w) # new) = ticks (w_until v) p T"
        using ih(5) p False ticks_step [of "w_until w" T p] assms(2) by (auto simp: in_step_def)
      ultimately show ?thesis
        using ih r Cons False
        by (intro exI [of _ c'] exI [of _ "(w_ticker w, w_until w) # new"])
          (simp add: add_loop_round [of c w ws T listening])
    qed
  qed
qed

text \<open>
  A clock whose tickers all have period \<open>p\<close>: every waiter is due within one period, and no channel
  holds a tick.  A new clock is such a clock, and \<open>NewTicker\<close> and \<open>Add\<close> keep it one.
\<close>

definition ready :: "int \<Rightarrow> MockClock \<Rightarrow> bool" where
  "ready p c \<longleftrightarrow> distinct (map w_ticker (mc_waiters c)) \<and>
     list_all (\<lambda>w. w_period w = p \<and> mc_now c < w_until w \<and> w_until w \<le> mc_now c + p \<and>
       w_ticker w < mc_tickers c) (mc_waiters c) \<and> mc_chan c = (\<lambda>_. None)"

lemma ready_New: "ready p (NewMockClock t)"
  by (simp add: ready_def NewMockClock_def)

lemma ready_NewTicker: "ready p c \<Longrightarrow> 0 < p \<Longrightarrow> ready p (snd (MockClock_NewTicker p c))"
  by (fastforce simp: ready_def MockClock_NewTicker_def MockClock_Now_def tick_def runAt_def Let_def list_all_iff)

lemma ready_in_step:
  assumes "ready p c" and "sorts srt"
  shows "in_step p (srt (mc_waiters c))" and "set (srt (mc_waiters c)) = set (mc_waiters c)"
proof -
  let ?ws = "srt (mc_waiters c)"
  have mset: "mset ?ws = mset (mc_waiters c)" and srt: "sorted (map w_until ?ws)"
    using assms(2) by (auto simp: sorts_def)
  show set: "set ?ws = set (mc_waiters c)" using mset by (rule mset_eq_setD)
  have "mset (map w_ticker ?ws) = mset (map w_ticker (mc_waiters c))" using mset by simp
  then have "distinct (map w_ticker ?ws)"
    using assms(1) mset_eq_imp_distinct_iff [of "map w_ticker ?ws" "map w_ticker (mc_waiters c)"] by (simp add: ready_def)
  moreover have "w_period w = p \<and> w_until w \<le> w_until (hd ?ws) + p" if "w \<in> set ?ws" for w
  proof -
    have "hd ?ws \<in> set ?ws" using that by (cases ?ws) auto
    then have "mc_now c < w_until (hd ?ws)" using assms(1) set by (simp add: ready_def list_all_iff)
    moreover have "w_period w = p" "w_until w \<le> mc_now c + p" using that assms(1) set by (simp_all add: ready_def list_all_iff)
    ultimately show ?thesis by simp
  qed
  ultimately show "in_step p ?ws" using srt by (simp add: in_step_def list_all_iff)
qed

section \<open>Properties\<close>

text \<open>
  C27: the mock clock is right for tickers that all have the same period.  Advancing it by a duration
  that is not negative ends, moves the clock by that duration, and hands every ticker that is
  listened to exactly the ticks that fall into the time passed; the ticks of all tickers together
  come in chronological order; and afterwards the clock is again such a clock.
\<close>

theorem MockClock_Add_ticks:
  assumes "sorts sort_Slice" and "ready p c" and "0 < p" and "0 \<le> d"
  shows "\<exists>c' new. MockClock_Add sort_Slice (\<lambda>_. True) d c = Some (Ok c') \<and>
    MockClock_Now c' = MockClock_Now c + d \<and> ready p c' \<and>
    mc_received c' = mc_received c @ new \<and> sorted (map snd new) \<and>
    (\<forall>w\<in>set (mc_waiters c). ticks_for (w_ticker w) new = ticks (w_until w) p (mc_now c + d))"
proof -
  let ?c = "c\<lparr>mc_waiters := sort_Slice (mc_waiters c)\<rparr>" and ?T = "mc_now c + d"
  note s = ready_in_step [OF assms(2,1)]
  have "mc_chan ?c (w_ticker w) = None \<and> True \<and> w_until w \<le> ?T + p" if "w \<in> set (mc_waiters ?c)" for w
    using that s(2) assms(2,4) by (auto simp: ready_def list_all_iff)
  from add_loop_in_step [of p ?c "\<lambda>_. True" ?T, OF _ assms(3) this] s(1)
  obtain c' new where r: "add_loop (\<lambda>_. True) ?T ?c = Some c'" "mc_received c' = mc_received c @ new"
    "sorted (map snd new)" "\<forall>w\<in>set (sort_Slice (mc_waiters c)). ticks_for (w_ticker w) new = ticks (w_until w) p ?T"
    "mc_chan c' = mc_chan c" "in_step p (mc_waiters c')"
    "w_ticker ` set (mc_waiters c') = w_ticker ` set (sort_Slice (mc_waiters c))"
    "\<forall>w\<in>set (mc_waiters c'). ?T < w_until w \<and> w_until w \<le> ?T + p" "mc_tickers c' = mc_tickers c"
    by auto
  have "w_ticker w < mc_tickers c" if "w \<in> set (mc_waiters c')" for w
  proof -
    have "w_ticker w \<in> w_ticker ` set (mc_waiters c)" using that r(7) s(2) by blast
    then show ?thesis using assms(2) by (auto simp: ready_def list_all_iff)
  qed
  then have "ready p (c'\<lparr>mc_now := ?T\<rparr>)"
    using r(5,6,8,9) assms(2) by (auto simp: ready_def in_step_def list_all_iff)
  then show ?thesis
    using r(1-4) s(2) assms(4)
    by (intro exI [of _ "c'\<lparr>mc_now := ?T\<rparr>"] exI [of _ new]) (simp add: MockClock_Add_def Let_def MockClock_Now_def)
qed

text \<open>Two tickers of period 2, the second started one nanosecond after the first.\<close>

definition sample_clock :: MockClock where
  "sample_clock = \<lparr>mc_now = 1, mc_waiters = [\<lparr>w_until = 2, w_ticker = 0, w_period = 2\<rparr>,
     \<lparr>w_until = 3, w_ticker = 1, w_period = 2\<rparr>], mc_tickers = 2, mc_chan = (\<lambda>_. None), mc_received = []\<rparr>"

lemma sorts_sort_key: "sorts (sort_key w_until)"
  by (simp add: sorts_def)

theorem MockClock_Add_ticks_witness:
  "\<exists>c'. MockClock_Add (sort_key w_until) (\<lambda>_. True) 4 sample_clock = Some (Ok c') \<and> mc_now c' = 5 \<and>
     ticks_for 0 (mc_received c') = [2, 4] \<and> ticks_for 1 (mc_received c') = [3, 5] \<and>
     sorted (map snd (mc_received c'))"
proof -
  have "ready 2 sample_clock" by (simp add: ready_def sample_clock_def)
  moreover have "ticks 2 2 5 = [2, 4]" "ticks 3 2 5 = [3, 5]" by (simp_all add: ticks_def upt_rec)
  ultimately show ?thesis
    using MockClock_Add_ticks [OF sorts_sort_key, of 2 sample_clock 4]
    by (auto simp: sample_clock_def MockClock_Now_def)
qed

text \<open>
  With different periods the clock is wrong, since \<open>Add\<close> sorts the waiters only once and a ticker
  goes back to the end of the list.  Next to a ticker of period 3, one of period 1 gets its second
  tick after the first tick of the other, so ticks are out of order and the clock runs backwards, and
  its third tick not at all.
  Next to a ticker of period 10 it gets only one of five ticks.
\<close>

definition two_tickers :: "int \<Rightarrow> int \<Rightarrow> MockClock" where
  "two_tickers p q = snd (MockClock_NewTicker q (snd (MockClock_NewTicker p (NewMockClock 0))))"

lemma MockClock_Add_periods_differ:
  "map_option (map_outcome mc_received) (MockClock_Add (sort_key w_until) (\<lambda>_. True) 3 (two_tickers 1 3)) =
     Some (Ok [(0, 1), (1, 3), (0, 2)]) \<and>
   map_option (map_outcome mc_received) (MockClock_Add (sort_key w_until) (\<lambda>_. True) 5 (two_tickers 1 10)) =
     Some (Ok [(0, 1)])"
  by (simp add: two_tickers_def MockClock_NewTicker_def NewMockClock_def MockClock_Now_def tick_def runAt_def Let_def
    MockClock_Add_def add_loop.simps receive_def waiter_fn_def)

end
