(* ===== verification/Lad_Pool.thy ===== *)
theory Lad_Pool
  imports Lad_Prelude
begin

text \<open>
  The pools (\<open>internal/pool/pool.go\<close>, \<open>buffer/pool.go\<close>, \<open>internal/bufferpool\<close>) and the code that takes buffers
  and encoders from them and puts them back (\<open>jsonEncoder.clone\<close>, \<open>putJSONEncoder\<close>,
  \<open>resetReflectBuf\<close>, \<open>EncodeEntry\<close>, \<open>writeContext\<close>, \<open>ioCore.Write\<close>), on an explicit heap and with any
  number of goroutines.  The other theories treat a buffer as a value; this one shows that they
  may.
\<close>

section \<open>Heap and pools\<close>

text \<open>
  Buffers and encoders live at addresses.  Of an encoder only what refers to buffers or is copied
  by \<open>clone\<close> is kept; the configuration never changes.
\<close>

record penc =
  pe_spaced :: bool
  pe_open :: nat
  pe_buf :: "nat option"
  pe_reflectBuf :: "nat option"

definition zero_enc :: penc where
  "zero_enc = \<lparr>pe_spaced = False, pe_open = 0, pe_buf = None, pe_reflectBuf = None\<rparr>"

record heap =
  bufs :: "nat \<Rightarrow> bytes"
  encs :: "nat \<Rightarrow> penc"
  free_bufs :: "nat list"
  free_encs :: "nat list"
  next_buf :: nat
  next_enc :: nat

text \<open>
  \<open>sync.Pool\<close> hands out any object that was put into it and not yet handed out, or a new one;
  \<open>choice\<close> says which.
\<close>

definition pool_Get :: "nat option \<Rightarrow> nat list \<Rightarrow> nat \<Rightarrow> nat \<times> nat list \<times> nat" where
  "pool_Get choice free new =
     (case choice of
        Some i \<Rightarrow> if i \<in> set free then (i, remove1 i free, new) else (new, free, Suc new)
      | None \<Rightarrow> (new, free, Suc new))"

definition pool_Put :: "nat \<Rightarrow> nat list \<Rightarrow> nat list" where
  "pool_Put i free = i # free"

text \<open>\<open>Pool.Get\<close> of buffers resets what it hands out; \<open>Free\<close> puts a buffer back.\<close>

definition bufferpool_Get :: "nat option \<Rightarrow> heap \<Rightarrow> nat \<times> heap" where
  "bufferpool_Get choice h =
     (case pool_Get choice (free_bufs h) (next_buf h) of
        (b, free, new) \<Rightarrow> (b, h\<lparr>free_bufs := free, next_buf := new, bufs := (bufs h)(b := [])\<rparr>))"

definition buffer_Free :: "nat \<Rightarrow> heap \<Rightarrow> heap" where
  "buffer_Free b h = h\<lparr>free_bufs := pool_Put b (free_bufs h)\<rparr>"

definition buffer_append :: "nat \<Rightarrow> bytes \<Rightarrow> heap \<Rightarrow> heap" where
  "buffer_append b x h = h\<lparr>bufs := (bufs h)(b := bufs h b @ x)\<rparr>"

text \<open>A new encoder is empty, a pooled one is as \<open>putJSONEncoder\<close> left it.\<close>

definition jsonPool_Get :: "nat option \<Rightarrow> heap \<Rightarrow> nat \<times> heap" where
  "jsonPool_Get choice h =
     (case pool_Get choice (free_encs h) (next_enc h) of
        (e, free, new) \<Rightarrow>
          (e, h\<lparr>free_encs := free, next_enc := new,
                encs := (if new = next_enc h then encs h else (encs h)(e := zero_enc))\<rparr>))"

definition putJSONEncoder :: "nat \<Rightarrow> heap \<Rightarrow> heap" where
  "putJSONEncoder e h =
     (let h = (case pe_reflectBuf (encs h e) of None \<Rightarrow> h | Some r \<Rightarrow> buffer_Free r h);
          h = h\<lparr>encs := (encs h)(e := (encs h e)\<lparr>pe_buf := None, pe_spaced := False, pe_open := 0,
                 pe_reflectBuf := None\<rparr>)\<rparr>
      in h\<lparr>free_encs := pool_Put e (free_encs h)\<rparr>)"

definition heap_clone :: "bool \<Rightarrow> nat \<Rightarrow> nat option \<Rightarrow> nat option \<Rightarrow> heap \<Rightarrow> nat \<times> heap" where
  "heap_clone spc ns ce cb h =
     (case jsonPool_Get ce h of
        (e, h) \<Rightarrow>
          let h = h\<lparr>encs := (encs h)(e := (encs h e)\<lparr>pe_spaced := spc, pe_open := ns\<rparr>)\<rparr> in
          (case bufferpool_Get cb h of
             (b, h) \<Rightarrow> (e, h\<lparr>encs := (encs h)(e := (encs h e)\<lparr>pe_buf := Some b\<rparr>)\<rparr>)))"

definition heap_resetReflectBuf :: "nat option \<Rightarrow> nat \<Rightarrow> heap \<Rightarrow> heap" where
  "heap_resetReflectBuf choice e h =
     (case pe_reflectBuf (encs h e) of
        None \<Rightarrow>
          (case bufferpool_Get choice h of
             (r, h) \<Rightarrow> h\<lparr>encs := (encs h)(e := (encs h e)\<lparr>pe_reflectBuf := Some r\<rparr>)\<rparr>)
      | Some r \<Rightarrow> h\<lparr>bufs := (bufs h)(r := [])\<rparr>)"

section \<open>Goroutines\<close>

text \<open>
  Where a goroutine is in \<open>ioCore.Write\<close>, with the text that it has appended so far: in
  \<open>consoleEncoder.EncodeEntry\<close> with the line; with an encoder, in \<open>jsonEncoder.EncodeEntry\<close> or, when there
  is a line, in \<open>writeContext\<close>; with an encoder and a reflected value in its second buffer; and with the
  buffer that \<open>EncodeEntry\<close> returned.  An encoder that \<open>With\<close> has made stays with its core, which then
  takes the place of the goroutine; it is never put back, and other goroutines read its text.
\<close>

datatype phase =
    Idle
  | Console nat bytes
  | Encoding "(nat \<times> bytes) option" nat bytes
  | Reflecting "(nat \<times> bytes) option" nat bytes bytes
  | Holding nat bytes
  | Kept nat bytes

record pools =
  hp :: heap
  ph :: "nat \<Rightarrow> phase"
  outs :: "(nat \<times> bytes \<times> bytes) list"

definition move :: "nat \<Rightarrow> phase \<Rightarrow> heap \<Rightarrow> pools \<Rightarrow> pools" where
  "move t p h c = c\<lparr>hp := h, ph := (ph c)(t := p)\<rparr>"

text \<open>
  One step of goroutine \<open>t\<close>.  An output records the bytes that reached the writer and the text
  that the goroutine had appended.  A marshaler may panic at any point; then \<open>EncodeEntry\<close> puts
  nothing back, and \<open>writeContext\<close> puts the context back, as its deferred function does.
\<close>

inductive pool_step :: "pools \<Rightarrow> pools \<Rightarrow> bool" where
  json_begin: "ph c t = Idle \<Longrightarrow> heap_clone spc ns ce cb (hp c) = (e, h) \<Longrightarrow>
    pool_step c (move t (Encoding None e []) h c)"
| console_begin: "ph c t = Idle \<Longrightarrow> bufferpool_Get ch (hp c) = (l, h) \<Longrightarrow>
    pool_step c (move t (Console l []) h c)"
| console_append: "ph c t = Console l x \<Longrightarrow>
    pool_step c (move t (Console l (x @ y)) (buffer_append l y (hp c)) c)"
| context_begin: "ph c t = Console l x \<Longrightarrow> heap_clone spc ns ce cb (hp c) = (e, h) \<Longrightarrow>
    pool_step c (move t (Encoding (Some (l, x)) e []) h c)"
| enc_append: "ph c t = Encoding lo e x \<Longrightarrow> pe_buf (encs (hp c) e) = Some b \<Longrightarrow>
    pool_step c (move t (Encoding lo e (x @ y)) (buffer_append b y (hp c)) c)"
| enc_reflect: "ph c t = Encoding lo e x \<Longrightarrow> heap_resetReflectBuf ch e (hp c) = h \<Longrightarrow>
    pe_reflectBuf (encs h e) = Some r \<Longrightarrow>
    pool_step c (move t (Reflecting lo e x v) (buffer_append r v h) c)"
| enc_copy: "ph c t = Reflecting lo e x v \<Longrightarrow> pe_buf (encs (hp c) e) = Some b \<Longrightarrow>
    pe_reflectBuf (encs (hp c) e) = Some r \<Longrightarrow>
    pool_step c (move t (Encoding lo e (x @ v)) (buffer_append b (bufs (hp c) r) (hp c)) c)"
| enc_parent: "ph c t = Encoding lo e x \<Longrightarrow> pe_buf (encs (hp c) e) = Some b \<Longrightarrow> ph c u = Kept e' y \<Longrightarrow>
    pe_buf (encs (hp c) e') = Some b' \<Longrightarrow>
    pool_step c (move t (Encoding lo e (x @ y)) (buffer_append b (bufs (hp c) b') (hp c)) c)"
| with_keep: "ph c t = Encoding None e x \<Longrightarrow> pool_step c (move t (Kept e x) (hp c) c)"
| json_return: "ph c t = Encoding None e x \<Longrightarrow> pe_buf (encs (hp c) e) = Some b \<Longrightarrow>
    pool_step c (move t (Holding b x) (putJSONEncoder e (hp c)) c)"
| context_end: "ph c t = Encoding (Some (l, x)) e y \<Longrightarrow> pe_buf (encs (hp c) e) = Some b \<Longrightarrow>
    pool_step c (move t (Console l (x @ pre @ y @ suf))
      (putJSONEncoder e (buffer_Free b (buffer_append l (pre @ bufs (hp c) b @ suf) (hp c)))) c)"
| console_return: "ph c t = Console l x \<Longrightarrow> pool_step c (move t (Holding l x) (hp c) c)"
| panic: "ph c t \<in> {Console l x, Encoding None e y, Reflecting None e y v} \<Longrightarrow> pool_step c (move t Idle (hp c) c)"
| context_panic: "ph c t \<in> {Encoding (Some l) e y, Reflecting (Some l) e y v} \<Longrightarrow>
    pe_buf (encs (hp c) e) = Some b \<Longrightarrow>
    pool_step c (move t Idle (putJSONEncoder e (buffer_Free b (hp c))) c)"
| out_Write: "ph c t = Holding b x \<Longrightarrow>
    pool_step c ((move t Idle (buffer_Free b (hp c)) c)\<lparr>outs := outs c @ [(t, bufs (hp c) b, x)]\<rparr>)"

definition pools_init :: pools where
  "pools_init = \<lparr>hp = \<lparr>bufs = (\<lambda>_. []), encs = (\<lambda>_. zero_enc), free_bufs = [], free_encs = [], next_buf = 0,
     next_enc = 0\<rparr>, ph = (\<lambda>_. Idle), outs = []\<rparr>"

section \<open>Ownership\<close>

text \<open>The buffers and the encoders that a goroutine uses.\<close>

definition opt_list :: "'a option \<Rightarrow> 'a list" where
  "opt_list x = (case x of None \<Rightarrow> [] | Some y \<Rightarrow> [y])"

lemma opt_list_simps [simp]: "opt_list None = []" "opt_list (Some x) = [x]"
  by (simp_all add: opt_list_def)

definition enc_bufs :: "heap \<Rightarrow> nat \<Rightarrow> nat list" where
  "enc_bufs h e = opt_list (pe_buf (encs h e)) @ opt_list (pe_reflectBuf (encs h e))"

primrec own_bufs :: "heap \<Rightarrow> phase \<Rightarrow> nat list" where
  "own_bufs h Idle = []"
| "own_bufs h (Console l x) = [l]"
| "own_bufs h (Encoding lo e x) = opt_list (map_option fst lo) @ enc_bufs h e"
| "own_bufs h (Reflecting lo e x v) = opt_list (map_option fst lo) @ enc_bufs h e"
| "own_bufs h (Holding b x) = [b]"
| "own_bufs h (Kept e x) = enc_bufs h e"

primrec own_encs :: "phase \<Rightarrow> nat list" where
  "own_encs Idle = []"
| "own_encs (Console l x) = []"
| "own_encs (Encoding lo e x) = [e]"
| "own_encs (Reflecting lo e x v) = [e]"
| "own_encs (Holding b x) = []"
| "own_encs (Kept e x) = [e]"

text \<open>The buffers of a goroutine hold what it appended.\<close>

definition line_ok :: "heap \<Rightarrow> (nat \<times> bytes) option \<Rightarrow> bool" where
  "line_ok h lo = (case lo of None \<Rightarrow> True | Some (l, x) \<Rightarrow> bufs h l = x)"

fun phase_ok :: "heap \<Rightarrow> phase \<Rightarrow> bool" where
  "phase_ok h Idle = True"
| "phase_ok h (Console l x) = (bufs h l = x)"
| "phase_ok h (Encoding lo e x) =
     (line_ok h lo \<and> (case pe_buf (encs h e) of None \<Rightarrow> False | Some b \<Rightarrow> bufs h b = x))"
| "phase_ok h (Reflecting lo e x v) =
     (line_ok h lo \<and> (case pe_buf (encs h e) of None \<Rightarrow> False | Some b \<Rightarrow> bufs h b = x) \<and>
      (case pe_reflectBuf (encs h e) of None \<Rightarrow> False | Some r \<Rightarrow> bufs h r = v))"
| "phase_ok h (Holding b x) = (bufs h b = x)"
| "phase_ok h (Kept e x) = (case pe_buf (encs h e) of None \<Rightarrow> False | Some b \<Rightarrow> bufs h b = x)"

text \<open>
  The invariant of the pools: nothing is in a pool twice, pooled encoders are clean.
\<close>

definition heap_ok :: "heap \<Rightarrow> bool" where
  "heap_ok h \<longleftrightarrow> distinct (free_bufs h) \<and> distinct (free_encs h) \<and>
     (\<forall>b\<in>set (free_bufs h). b < next_buf h) \<and> (\<forall>e\<in>set (free_encs h). e < next_enc h) \<and>
     (\<forall>e\<in>set (free_encs h). encs h e = zero_enc)"

text \<open>A goroutine owns what it uses: it is not in a pool.\<close>

definition owns :: "heap \<Rightarrow> phase \<Rightarrow> bool" where
  "owns h p \<longleftrightarrow> distinct (own_bufs h p) \<and>
     (\<forall>b\<in>set (own_bufs h p). b < next_buf h \<and> b \<notin> set (free_bufs h)) \<and>
     (\<forall>e\<in>set (own_encs p). e < next_enc h \<and> e \<notin> set (free_encs h)) \<and> phase_ok h p"

definition apart :: "heap \<Rightarrow> phase \<Rightarrow> phase \<Rightarrow> bool" where
  "apart h p q \<longleftrightarrow> set (own_bufs h p) \<inter> set (own_bufs h q) = {} \<and> set (own_encs p) \<inter> set (own_encs q) = {}"

definition pools_inv :: "pools \<Rightarrow> bool" where
  "pools_inv c \<longleftrightarrow> heap_ok (hp c) \<and> (\<forall>t. owns (hp c) (ph c t)) \<and>
     (\<forall>t u. t \<noteq> u \<longrightarrow> apart (hp c) (ph c t) (ph c u)) \<and> (\<forall>o1\<in>set (outs c). fst (snd o1) = snd (snd o1))"

section \<open>What one goroutine does does not concern the others\<close>

text \<open>
  A change of the heap by a goroutine in phase \<open>p\<close> that goes to phase \<open>q\<close>: it touches only what the
  goroutine owns, what is in a pool and what is new; what it takes comes from there, and what it
  gives back was its own.
\<close>

definition local_change :: "heap \<Rightarrow> phase \<Rightarrow> heap \<Rightarrow> phase \<Rightarrow> bool" where
  "local_change h p h' q \<longleftrightarrow>
     (\<forall>b. b < next_buf h \<and> b \<notin> set (own_bufs h p) \<and> b \<notin> set (free_bufs h) \<longrightarrow>
        bufs h' b = bufs h b \<and> b \<notin> set (own_bufs h' q) \<and> b \<notin> set (free_bufs h')) \<and>
     (\<forall>e. e < next_enc h \<and> e \<notin> set (own_encs p) \<and> e \<notin> set (free_encs h) \<longrightarrow>
        encs h' e = encs h e \<and> e \<notin> set (own_encs q) \<and> e \<notin> set (free_encs h')) \<and>
     next_buf h \<le> next_buf h' \<and> next_enc h \<le> next_enc h'"

lemma own_bufs_cong:
  "\<forall>e\<in>set (own_encs p). encs h' e = encs h e \<Longrightarrow> own_bufs h' p = own_bufs h p"
  by (cases p) (auto simp: enc_bufs_def)

lemma phase_ok_cong:
  assumes "\<forall>e\<in>set (own_encs p). encs h' e = encs h e" and "\<forall>b\<in>set (own_bufs h p). bufs h' b = bufs h b"
  shows "phase_ok h' p = phase_ok h p"
  using assms by (cases p) (auto simp: enc_bufs_def line_ok_def split: option.splits)

lemma owns_frame:
  assumes "local_change h p h' q" and "owns h r" and "apart h p r"
  shows "owns h' r" and "apart h' q r" and "own_bufs h' r = own_bufs h r"
proof -
  have e: "encs h' e = encs h e \<and> e \<notin> set (own_encs q) \<and> e \<notin> set (free_encs h') \<and> e < next_enc h'"
    if "e \<in> set (own_encs r)" for e
    using assms that by (auto simp: local_change_def owns_def apart_def)
  show r: "own_bufs h' r = own_bufs h r" by (rule own_bufs_cong) (use e in blast)
  have b: "bufs h' b = bufs h b \<and> b \<notin> set (own_bufs h' q) \<and> b \<notin> set (free_bufs h') \<and> b < next_buf h'"
    if "b \<in> set (own_bufs h r)" for b
    using assms that by (auto simp: local_change_def owns_def apart_def)
  have "phase_ok h' r = phase_ok h r" by (rule phase_ok_cong) (use e b in blast)+
  then show "owns h' r" using assms(2) e b r by (auto simp: owns_def)
  show "apart h' q r" using e b r by (auto simp: apart_def)
qed

lemma apart_sym: "apart h p q \<Longrightarrow> apart h q p"
  by (auto simp: apart_def)

lemma move_inv:
  assumes inv: "pools_inv c" and t: "ph c t = p" and local: "local_change (hp c) p h q"
    and h: "heap_ok h" and q: "owns h q"
  shows "pools_inv (move t q h c)"
proof -
  have f: "owns h (ph c u)" "apart h q (ph c u)" "own_bufs h (ph c u) = own_bufs (hp c) (ph c u)" if "u \<noteq> t" for u
    using owns_frame [OF local, of "ph c u"] inv t that by (auto simp: pools_inv_def)
  have "apart h (ph c u) (ph c v)" if "u \<noteq> v" "u \<noteq> t" "v \<noteq> t" for u v
    using f that inv by (auto simp: pools_inv_def apart_def)
  then show ?thesis
    using inv h q f by (auto simp: pools_inv_def move_def intro: apart_sym)
qed

section \<open>The operations\<close>

lemma bufferpool_Get_ok:
  assumes "heap_ok h" and "bufferpool_Get ch h = (b, h')"
  shows "heap_ok h'" and "b < next_buf h'" and "b \<in> set (free_bufs h) \<or> next_buf h \<le> b"
    and "set (free_bufs h') = set (free_bufs h) - {b}" and "next_buf h \<le> next_buf h'" and "bufs h' = (bufs h)(b := [])"
    and "encs h' = encs h" and "free_encs h' = free_encs h" and "next_enc h' = next_enc h"
  using assms
  by (auto simp: bufferpool_Get_def pool_Get_def heap_ok_def less_Suc_eq split: option.splits if_splits)

lemma jsonPool_Get_ok:
  assumes "heap_ok h" and "jsonPool_Get ch h = (e, h')"
  shows "heap_ok h'" and "e < next_enc h'" and "e \<in> set (free_encs h) \<or> next_enc h \<le> e"
    and "set (free_encs h') = set (free_encs h) - {e}" and "next_enc h \<le> next_enc h'" and "encs h' = (encs h)(e := zero_enc)"
    and "bufs h' = bufs h" and "free_bufs h' = free_bufs h" and "next_buf h' = next_buf h"
  using assms
  by (auto simp: jsonPool_Get_def pool_Get_def heap_ok_def fun_upd_idem less_Suc_eq split: option.splits if_splits)

lemma heap_clone_ok:
  assumes "heap_ok h" and "heap_clone spc ns ce cb h = (e, h')"
  shows "heap_ok h'" and "e < next_enc h'" and "e \<in> set (free_encs h) \<or> next_enc h \<le> e"
    and "set (free_encs h') = set (free_encs h) - {e}" and "next_enc h \<le> next_enc h'"
    and "\<exists>b. encs h' = (encs h)(e := \<lparr>pe_spaced = spc, pe_open = ns, pe_buf = Some b, pe_reflectBuf = None\<rparr>) \<and>
      b < next_buf h' \<and> (b \<in> set (free_bufs h) \<or> next_buf h \<le> b) \<and> set (free_bufs h') = set (free_bufs h) - {b} \<and>
      bufs h' = (bufs h)(b := [])"
    and "next_buf h \<le> next_buf h'"
proof -
  obtain h1 where g: "jsonPool_Get ce h = (e, h1)"
    using assms(2) by (auto simp: heap_clone_def Let_def split: prod.splits)
  note j = jsonPool_Get_ok [OF assms(1) g]
  let ?h2 = "h1\<lparr>encs := (encs h1)(e := (encs h1 e)\<lparr>pe_spaced := spc, pe_open := ns\<rparr>)\<rparr>"
  have "e \<notin> set (free_encs h1)" using j(4) by simp
  then have ok: "heap_ok ?h2" using j(1) by (simp add: heap_ok_def)
  obtain b h3 where b: "bufferpool_Get cb ?h2 = (b, h3)" by (metis prod.exhaust)
  note k = bufferpool_Get_ok [OF ok b]
  have h': "h' = h3\<lparr>encs := (encs h3)(e := (encs h3 e)\<lparr>pe_buf := Some b\<rparr>)\<rparr>"
    using assms(2) g b by (simp add: heap_clone_def Let_def)
  show "heap_ok h'" using k(1) k(8) j(4) by (simp add: heap_ok_def h')
  show "e < next_enc h'" "e \<in> set (free_encs h) \<or> next_enc h \<le> e" "set (free_encs h') = set (free_encs h) - {e}"
    "next_enc h \<le> next_enc h'" "next_buf h \<le> next_buf h'"
    using j k by (simp_all add: h')
  show "\<exists>b. encs h' = (encs h)(e := \<lparr>pe_spaced = spc, pe_open = ns, pe_buf = Some b, pe_reflectBuf = None\<rparr>) \<and>
      b < next_buf h' \<and> (b \<in> set (free_bufs h) \<or> next_buf h \<le> b) \<and> set (free_bufs h') = set (free_bufs h) - {b} \<and>
      bufs h' = (bufs h)(b := [])"
    using j k by (intro exI [of _ b]) (auto simp: h' zero_enc_def)
qed

lemma buffer_append_simps [simp]:
  "encs (buffer_append b x h) = encs h" "free_bufs (buffer_append b x h) = free_bufs h"
  "free_encs (buffer_append b x h) = free_encs h" "next_buf (buffer_append b x h) = next_buf h"
  "next_enc (buffer_append b x h) = next_enc h" "bufs (buffer_append b x h) = (bufs h)(b := bufs h b @ x)"
  by (simp_all add: buffer_append_def)

lemma buffer_Free_simps [simp]:
  "encs (buffer_Free b h) = encs h" "free_bufs (buffer_Free b h) = b # free_bufs h"
  "free_encs (buffer_Free b h) = free_encs h" "next_buf (buffer_Free b h) = next_buf h"
  "next_enc (buffer_Free b h) = next_enc h" "bufs (buffer_Free b h) = bufs h"
  by (simp_all add: buffer_Free_def pool_Put_def)

lemma putJSONEncoder_simps [simp]:
  "encs (putJSONEncoder e h) = (encs h)(e := zero_enc)"
  "free_bufs (putJSONEncoder e h) = opt_list (pe_reflectBuf (encs h e)) @ free_bufs h"
  "free_encs (putJSONEncoder e h) = e # free_encs h" "next_buf (putJSONEncoder e h) = next_buf h"
  "next_enc (putJSONEncoder e h) = next_enc h" "bufs (putJSONEncoder e h) = bufs h"
  by (auto simp: putJSONEncoder_def pool_Put_def zero_enc_def Let_def split: option.splits)

lemma enc_bufs_append [simp]: "enc_bufs (buffer_append b x h) e = enc_bufs h e"
  by (simp add: enc_bufs_def)

lemma heap_ok_append [simp]: "heap_ok (buffer_append b x h) = heap_ok h"
  by (simp add: heap_ok_def)

text \<open>Appending to a buffer that the goroutine owns.\<close>

lemma append_local:
  assumes "b \<in> set (own_bufs h p)" and "own_bufs h q = own_bufs h p" and "own_encs q = own_encs p"
  shows "local_change h p (buffer_append b x h) q"
proof -
  have "own_bufs (buffer_append b x h) q = own_bufs h q" by (rule own_bufs_cong) simp
  then show ?thesis using assms by (auto simp: local_change_def)
qed

lemma append_owns:
  assumes "owns h p" and "own_bufs h q = own_bufs h p" and "own_encs q = own_encs p"
    and "phase_ok (buffer_append b x h) q"
  shows "owns (buffer_append b x h) q"
proof -
  have "own_bufs (buffer_append b x h) q = own_bufs h q" by (rule own_bufs_cong) simp
  then show ?thesis using assms by (simp add: owns_def)
qed

lemma append_inv:
  assumes "pools_inv c" and "ph c t = p" and "b \<in> set (own_bufs (hp c) p)"
    and "own_bufs (hp c) q = own_bufs (hp c) p" and "own_encs q = own_encs p" and "phase_ok (buffer_append b x (hp c)) q"
  shows "pools_inv (move t q (buffer_append b x (hp c)) c)"
proof (rule move_inv [OF assms(1,2) append_local [OF assms(3-5)]])
  show "heap_ok (buffer_append b x (hp c))" using assms(1) by (simp add: pools_inv_def)
  show "owns (buffer_append b x (hp c)) q"
    by (rule append_owns [OF _ assms(4-6)]) (use assms(1,2) in \<open>auto simp: pools_inv_def\<close>)
qed

lemma owns_at: "pools_inv c \<Longrightarrow> ph c t = p \<Longrightarrow> owns (hp c) p \<and> heap_ok (hp c)"
  by (auto simp: pools_inv_def)

lemma owns_not_free:
  assumes "owns h p" and "b \<in> set (free_bufs h) \<or> next_buf h \<le> b"
  shows "b \<notin> set (own_bufs h p)"
  using assms leD unfolding owns_def by blast

text \<open>Taking an encoder and its buffer, without or with a line.\<close>

lemma clone_inv:
  assumes inv: "pools_inv c" and t: "ph c t = p" and p: "p = (case lo of None \<Rightarrow> Idle | Some (l, x) \<Rightarrow> Console l x)"
    and clone: "heap_clone spc ns ce cb (hp c) = (e, h)"
  shows "pools_inv (move t (Encoding lo e []) h c)"
proof -
  have o: "owns (hp c) p" "heap_ok (hp c)" using owns_at [OF inv t] by auto
  note k = heap_clone_ok [OF o(2) clone]
  obtain b where b: "encs h = (encs (hp c))(e := \<lparr>pe_spaced = spc, pe_open = ns, pe_buf = Some b, pe_reflectBuf = None\<rparr>)"
      "b < next_buf h" "b \<in> set (free_bufs (hp c)) \<or> next_buf (hp c) \<le> b"
      "set (free_bufs h) = set (free_bufs (hp c)) - {b}" "bufs h = (bufs (hp c))(b := [])"
    using k(6) by blast
  have own: "own_bufs h (Encoding lo e []) = own_bufs (hp c) p @ [b]" "own_encs p = []"
    using p by (auto simp: enc_bufs_def b(1) split: option.splits)
  show ?thesis
  proof (rule move_inv [OF inv t _ k(1)])
    have "bufs h v = bufs (hp c) v \<and> v \<notin> set (own_bufs (hp c) p @ [b]) \<and> v \<notin> set (free_bufs h)"
      if "v < next_buf (hp c)" "v \<notin> set (own_bufs (hp c) p)" "v \<notin> set (free_bufs (hp c))" for v
      using that b(3,4,5) by fastforce
    moreover have "encs h v = encs (hp c) v \<and> v \<noteq> e \<and> v \<notin> set (free_encs h)"
      if "v < next_enc (hp c)" "v \<notin> set (free_encs (hp c))" for v
      using that b(1) k(3,4) by fastforce
    ultimately show "local_change (hp c) p h (Encoding lo e [])"
      using k(5,7) unfolding local_change_def own by simp
    have "l \<noteq> b \<and> bufs (hp c) l = x" if "lo = Some (l, x)" for l x
      using o(1) p b(3) that by (auto simp: owns_def)
    then have "line_ok h lo" using b(5) by (auto simp: line_ok_def split: option.splits)
    moreover have "b \<notin> set (own_bufs (hp c) p)" by (rule owns_not_free [OF o(1) b(3)])
    moreover have "v < next_buf h \<and> v \<notin> set (free_bufs h)" if "v \<in> set (own_bufs (hp c) p)" for v
      using o(1) that k(7) b(4) unfolding owns_def by (metis DiffE order_less_le_trans)
    ultimately show "owns h (Encoding lo e [])"
      using o(1) b(2,4) k(2,4) unfolding owns_def own(1) by (simp add: b(1,5))
  qed
qed

lemma heap_resetReflectBuf_ok:
  assumes "heap_ok h" and "owns h (Encoding lo e x)" and "heap_resetReflectBuf ch e h = h'" and "pe_reflectBuf (encs h' e) = Some r"
  shows "heap_ok h'" and "owns h' (Encoding lo e x)" and "local_change h (Encoding lo e x) h' (Encoding lo e x)"
    and "bufs h' r = []"
proof -
  have e: "e < next_enc h" "e \<notin> set (free_encs h)" using assms(2) by (auto simp: owns_def)
  obtain b where b: "pe_buf (encs h e) = Some b" "bufs h b = x" "line_ok h lo"
    using assms(2) by (auto simp: owns_def split: option.splits)
  have all: "heap_ok h' \<and> owns h' (Encoding lo e x) \<and> local_change h (Encoding lo e x) h' (Encoding lo e x) \<and> bufs h' r = []"
  proof (cases "pe_reflectBuf (encs h e)")
    case None
    obtain r' h1 where g: "bufferpool_Get ch h = (r', h1)" by (metis prod.exhaust)
    note k = bufferpool_Get_ok [OF assms(1) g]
    have h': "h' = h1\<lparr>encs := (encs h1)(e := (encs h1 e)\<lparr>pe_reflectBuf := Some r'\<rparr>)\<rparr>"
      using assms(3) None g by (simp add: heap_resetReflectBuf_def)
    have r: "r' = r" using assms(4) h' by simp
    have ok: "heap_ok h'" using k(1,8) e(2) by (simp add: heap_ok_def h')
    have "r \<notin> set (own_bufs h (Encoding lo e x))" using owns_not_free [OF assms(2)] k(3) r by blast
    then have n: "r \<noteq> b" "\<forall>l y. lo = Some (l, y) \<longrightarrow> r \<noteq> l" using b(1) by (auto simp: enc_bufs_def)
    have own: "own_bufs h' (Encoding lo e x) = own_bufs h (Encoding lo e x) @ [r]"
      using None k(7) r by (simp add: enc_bufs_def h')
    have "line_ok h' lo" using b(3) n(2) k(6) r by (auto simp: line_ok_def h' split: option.splits)
    then have "phase_ok h' (Encoding lo e x)" using b n(1) k(6,7) r by (simp add: h')
    then have "owns h' (Encoding lo e x)"
      using assms(2) own \<open>r \<notin> set (own_bufs h (Encoding lo e x))\<close> k r e
      by (auto simp: owns_def h' simp del: own_bufs.simps phase_ok.simps)
    moreover have "local_change h (Encoding lo e x) h' (Encoding lo e x)"
    proof -
      have "bufs h' v = bufs h v \<and> v \<noteq> r \<and> v \<notin> set (free_bufs h')" if "v < next_buf h" "v \<notin> set (free_bufs h)" for v
        using that k(3,4,6) unfolding h' r by fastforce
      then show ?thesis using k(5,8,9) unfolding local_change_def own by (simp add: h' k(7))
    qed
    ultimately show ?thesis using ok k(6) r by (simp add: h')
  next
    case (Some r')
    have h': "h' = h\<lparr>bufs := (bufs h)(r' := [])\<rparr>" using assms(3) Some by (simp add: heap_resetReflectBuf_def)
    have r: "r' = r" using assms(4) Some h' by simp
    have n: "r \<noteq> b" "\<forall>l y. lo = Some (l, y) \<longrightarrow> r \<noteq> l"
      using assms(2) Some b(1) r by (auto simp: owns_def enc_bufs_def)
    have own: "own_bufs h' (Encoding lo e x) = own_bufs h (Encoding lo e x)" by (simp add: enc_bufs_def h')
    have "line_ok h' lo" using b(3) n(2) r by (auto simp: line_ok_def h' split: option.splits)
    then have "phase_ok h' (Encoding lo e x)" using b n(1) r by (simp add: h')
    then have "owns h' (Encoding lo e x)" using assms(2) own by (simp add: owns_def h')
    moreover have "local_change h (Encoding lo e x) h' (Encoding lo e x)"
      using Some own r by (auto simp: local_change_def h' enc_bufs_def)
    ultimately show ?thesis using assms(1) r by (simp add: h' heap_ok_def)
  qed
  then show "heap_ok h'" "owns h' (Encoding lo e x)" "local_change h (Encoding lo e x) h' (Encoding lo e x)"
    "bufs h' r = []" by auto
qed

text \<open>Giving back what the goroutine owns, or forgetting it.\<close>

lemma release_inv:
  assumes inv: "pools_inv c" and t: "ph c t = p"
    and fb: "free_bufs h = B @ free_bufs (hp c)" and B: "distinct B" "set B \<subseteq> set (own_bufs (hp c) p)"
    and fe: "free_encs h = E @ free_encs (hp c)" and E: "distinct E" "set E \<subseteq> set (own_encs p)" "\<forall>e\<in>set E. encs h e = zero_enc"
    and new: "next_buf h = next_buf (hp c)" "next_enc h = next_enc (hp c)"
    and encs: "\<forall>e. e \<notin> set E \<longrightarrow> encs h e = encs (hp c) e"
    and bufs: "\<forall>b. b \<notin> set (own_bufs (hp c) p) \<longrightarrow> bufs h b = bufs (hp c) b"
    and q: "own_encs q = []" "distinct (own_bufs h q)" "set (own_bufs h q) \<subseteq> set (own_bufs (hp c) p) - set B" "phase_ok h q"
  shows "pools_inv (move t q h c)"
proof (rule move_inv [OF inv t])
  have o: "owns (hp c) p" "heap_ok (hp c)" using owns_at [OF inv t] by auto
  have b: "v < next_buf (hp c) \<and> v \<notin> set (free_bufs (hp c))" if "v \<in> set (own_bufs (hp c) p)" for v
    using o(1) that unfolding owns_def by blast
  have e: "v < next_enc (hp c) \<and> v \<notin> set (free_encs (hp c))" if "v \<in> set (own_encs p)" for v
    using o(1) that unfolding owns_def by blast
  show "local_change (hp c) p h q"
    using B(2) E(2) q(1,3) encs bufs unfolding local_change_def fb fe new by auto
  have "distinct (B @ free_bufs (hp c))" "distinct (E @ free_encs (hp c))"
    using o(2) B E b e by (auto simp: heap_ok_def)
  moreover have "\<forall>v\<in>set (B @ free_bufs (hp c)). v < next_buf (hp c)" "\<forall>v\<in>set (E @ free_encs (hp c)). v < next_enc (hp c)"
    using o(2) B(2) E(2) b e unfolding heap_ok_def set_append by blast+
  moreover have "\<forall>v\<in>set (E @ free_encs (hp c)). encs h v = zero_enc"
    using o(2) E(3) encs unfolding heap_ok_def set_append by (metis Un_iff)
  ultimately show "heap_ok h" unfolding heap_ok_def fb fe new by blast
  have "\<forall>v\<in>set (own_bufs h q). v < next_buf (hp c) \<and> v \<notin> set (B @ free_bufs (hp c))"
    using q(3) b by auto
  then show "owns h q" using q(1,2,4) unfolding owns_def fb new by simp
qed

lemma enc_phase:
  assumes "owns h (Encoding lo e x)"
  obtains b where "pe_buf (encs h e) = Some b" "bufs h b = x" "pe_reflectBuf (encs h e) \<noteq> Some b"
    "\<forall>l y. lo = Some (l, y) \<longrightarrow> l \<noteq> b \<and> bufs h l = y \<and> pe_reflectBuf (encs h e) \<noteq> Some l"
proof -
  obtain b where b: "pe_buf (encs h e) = Some b" "bufs h b = x" "line_ok h lo"
    using assms by (auto simp: owns_def split: option.splits)
  have d: "distinct (opt_list (map_option fst lo) @ [b] @ opt_list (pe_reflectBuf (encs h e)))"
    using assms b(1) by (simp add: owns_def enc_bufs_def)
  show ?thesis
  proof (rule that [OF b(1,2)])
    show "pe_reflectBuf (encs h e) \<noteq> Some b" using d by auto
    show "\<forall>l y. lo = Some (l, y) \<longrightarrow> l \<noteq> b \<and> bufs h l = y \<and> pe_reflectBuf (encs h e) \<noteq> Some l"
      using d b(3) by (auto simp: line_ok_def)
  qed
qed

lemma reflecting_phase:
  assumes "owns h (Reflecting lo e x v)"
  shows "owns h (Encoding lo e x)" and "\<exists>r. pe_reflectBuf (encs h e) = Some r \<and> bufs h r = v"
  using assms by (auto simp: owns_def split: option.splits)

lemma console_begin_inv:
  assumes inv: "pools_inv c" and t: "ph c t = Idle" and get: "bufferpool_Get ch (hp c) = (l, h)"
  shows "pools_inv (move t (Console l []) h c)"
proof (rule move_inv [OF inv t])
  have o: "heap_ok (hp c)" using owns_at [OF inv t] by auto
  note k = bufferpool_Get_ok [OF o get]
  show "heap_ok h" by (rule k(1))
  show "owns h (Console l [])" using k(2,4,6) by (simp add: owns_def)
  have "bufs h v = bufs (hp c) v \<and> v \<noteq> l \<and> v \<notin> set (free_bufs h)" if "v < next_buf (hp c)" "v \<notin> set (free_bufs (hp c))" for v
    using that k(3,4,6) by fastforce
  then show "local_change (hp c) Idle h (Console l [])"
    using k(5,7-9) unfolding local_change_def by simp
qed

lemma move_move: "move t q h' (move t p h c) = move t q h' c"
  by (simp add: move_def)

section \<open>Each step keeps the invariant\<close>

lemma enc_append_inv:
  assumes inv: "pools_inv c" and t: "ph c t = Encoding lo e x" and b: "pe_buf (encs (hp c) e) = Some b"
  shows "pools_inv (move t (Encoding lo e (x @ y)) (buffer_append b y (hp c)) c)"
proof -
  have "owns (hp c) (Encoding lo e x)" using owns_at [OF inv t] by simp
  then have "bufs (hp c) b = x" "\<forall>l y. lo = Some (l, y) \<longrightarrow> l \<noteq> b \<and> bufs (hp c) l = y"
    using b by (auto elim!: enc_phase)
  then show ?thesis
    by (intro append_inv [OF inv t]) (auto simp: enc_bufs_def line_ok_def b split: option.split)
qed

lemma enc_reflect_inv:
  assumes inv: "pools_inv c" and t: "ph c t = Encoding lo e x" and h: "heap_resetReflectBuf ch e (hp c) = h"
    and r: "pe_reflectBuf (encs h e) = Some r"
  shows "pools_inv (move t (Reflecting lo e x v) (buffer_append r v h) c)"
proof -
  have o: "heap_ok (hp c)" "owns (hp c) (Encoding lo e x)" using owns_at [OF inv t] by auto
  note k = heap_resetReflectBuf_ok [OF o h r]
  let ?c = "move t (Encoding lo e x) h c"
  have inv': "pools_inv ?c" and t': "ph ?c t = Encoding lo e x" and hp: "hp ?c = h"
    by (rule move_inv [OF inv t k(3,1,2)]) (simp_all add: move_def)
  obtain b where b: "pe_buf (encs h e) = Some b" "bufs h b = x" "r \<noteq> b"
    "\<forall>l y. lo = Some (l, y) \<longrightarrow> bufs h l = y \<and> r \<noteq> l"
    using k(2) r by (auto elim!: enc_phase)
  then have "phase_ok (buffer_append r v h) (Reflecting lo e x v)"
    using k(4) r by (auto simp: line_ok_def split: option.split)
  then have "pools_inv (move t (Reflecting lo e x v) (buffer_append r v (hp ?c)) ?c)"
    by (intro append_inv [OF inv' t']) (simp_all add: hp enc_bufs_def r)
  then show ?thesis by (simp only: move_move hp)
qed

lemma enc_copy_inv:
  assumes inv: "pools_inv c" and t: "ph c t = Reflecting lo e x v" and b: "pe_buf (encs (hp c) e) = Some b"
    and r: "pe_reflectBuf (encs (hp c) e) = Some r"
  shows "pools_inv (move t (Encoding lo e (x @ v)) (buffer_append b (bufs (hp c) r) (hp c)) c)"
proof -
  have o: "owns (hp c) (Reflecting lo e x v)" using owns_at [OF inv t] by simp
  have "bufs (hp c) r = v" using reflecting_phase(2) [OF o] r by auto
  moreover have "bufs (hp c) b = x" "\<forall>l y. lo = Some (l, y) \<longrightarrow> l \<noteq> b \<and> bufs (hp c) l = y"
    using reflecting_phase(1) [OF o] b by (auto elim!: enc_phase)
  ultimately show ?thesis
    by (intro append_inv [OF inv t]) (auto simp: enc_bufs_def line_ok_def b split: option.split)
qed

lemma enc_parent_inv:
  assumes inv: "pools_inv c" and t: "ph c t = Encoding lo e x" and b: "pe_buf (encs (hp c) e) = Some b"
    and u: "ph c u = Kept e' y" and b': "pe_buf (encs (hp c) e') = Some b'"
  shows "pools_inv (move t (Encoding lo e (x @ y)) (buffer_append b (bufs (hp c) b') (hp c)) c)"
proof -
  have "bufs (hp c) b' = y" using owns_at [OF inv u] b' by (simp add: owns_def)
  then show ?thesis using enc_append_inv [OF inv t b] by simp
qed

lemma with_keep_inv:
  assumes inv: "pools_inv c" and t: "ph c t = Encoding None e x"
  shows "pools_inv (move t (Kept e x) (hp c) c)"
proof -
  have o: "owns (hp c) (Encoding None e x)" "heap_ok (hp c)" using owns_at [OF inv t] by auto
  show ?thesis
    by (rule move_inv [OF inv t _ o(2)]) (use o(1) in \<open>simp_all add: local_change_def owns_def line_ok_def\<close>)
qed

lemma json_return_inv:
  assumes inv: "pools_inv c" and t: "ph c t = Encoding None e x" and b: "pe_buf (encs (hp c) e) = Some b"
  shows "pools_inv (move t (Holding b x) (putJSONEncoder e (hp c)) c)"
proof -
  have o: "owns (hp c) (Encoding None e x)" using owns_at [OF inv t] by simp
  have "bufs (hp c) b = x" "pe_reflectBuf (encs (hp c) e) \<noteq> Some b" using o b by (auto elim!: enc_phase)
  then show ?thesis
    by (intro release_inv [OF inv t, of _ "opt_list (pe_reflectBuf (encs (hp c) e))" "[e]"])
      (auto simp: enc_bufs_def b opt_list_def split: option.split)
qed

lemma context_end_inv:
  assumes inv: "pools_inv c" and t: "ph c t = Encoding (Some (l, x)) e y" and b: "pe_buf (encs (hp c) e) = Some b"
  shows "pools_inv (move t (Console l (x @ pre @ y @ suf))
      (putJSONEncoder e (buffer_Free b (buffer_append l (pre @ bufs (hp c) b @ suf) (hp c)))) c)"
proof -
  have o: "owns (hp c) (Encoding (Some (l, x)) e y)" using owns_at [OF inv t] by simp
  have "bufs (hp c) b = y" "pe_reflectBuf (encs (hp c) e) \<noteq> Some b" "l \<noteq> b" "bufs (hp c) l = x"
    "pe_reflectBuf (encs (hp c) e) \<noteq> Some l" using o b by (auto elim!: enc_phase)
  then show ?thesis
    by (intro release_inv [OF inv t, of _ "opt_list (pe_reflectBuf (encs (hp c) e)) @ [b]" "[e]"])
      (auto simp: enc_bufs_def b opt_list_def split: option.split)
qed

lemma context_panic_inv:
  assumes inv: "pools_inv c" and t: "ph c t \<in> {Encoding (Some l) e y, Reflecting (Some l) e y v}"
    and b: "pe_buf (encs (hp c) e) = Some b"
  shows "pools_inv (move t Idle (putJSONEncoder e (buffer_Free b (hp c))) c)"
proof -
  obtain p where p: "ph c t = p" "p \<in> {Encoding (Some l) e y, Reflecting (Some l) e y v}" using t by simp
  have "owns (hp c) (Encoding (Some l) e y)" using owns_at [OF inv p(1)] p(2) reflecting_phase(1) by auto
  then have "pe_reflectBuf (encs (hp c) e) \<noteq> Some b" using b by (auto elim!: enc_phase)
  moreover have "set (own_bufs (hp c) p) = insert (fst l) (set (enc_bufs (hp c) e))" "own_encs p = [e]" using p(2) by auto
  ultimately show ?thesis
    by (intro release_inv [OF inv p(1), of _ "opt_list (pe_reflectBuf (encs (hp c) e)) @ [b]" "[e]"])
      (auto simp: enc_bufs_def b opt_list_def split: option.split)
qed

lemma out_Write_inv:
  assumes inv: "pools_inv c" and t: "ph c t = Holding b x"
  shows "pools_inv ((move t Idle (buffer_Free b (hp c)) c)\<lparr>outs := outs c @ [(t, bufs (hp c) b, x)]\<rparr>)"
proof -
  have "pools_inv (move t Idle (buffer_Free b (hp c)) c)"
    by (rule release_inv [OF inv t, of _ "[b]" "[]"]) simp_all
  moreover have "bufs (hp c) b = x" using owns_at [OF inv t] by (simp add: owns_def)
  ultimately show ?thesis by (simp add: pools_inv_def move_def)
qed

lemma console_append_inv:
  assumes inv: "pools_inv c" and t: "ph c t = Console l x"
  shows "pools_inv (move t (Console l (x @ y)) (buffer_append l y (hp c)) c)"
  by (rule append_inv [OF inv t]) (use owns_at [OF inv t] in \<open>simp_all add: owns_def\<close>)

lemma console_return_inv:
  assumes inv: "pools_inv c" and t: "ph c t = Console l x"
  shows "pools_inv (move t (Holding l x) (hp c) c)"
  by (rule release_inv [OF inv t, of _ "[]" "[]"]) (use owns_at [OF inv t] in \<open>simp_all add: owns_def\<close>)

lemma forget_inv: "pools_inv c \<Longrightarrow> pools_inv (move t Idle (hp c) c)"
  by (rule release_inv [OF _ refl, where B = "[]" and E = "[]"]) simp_all

lemma pool_step_inv: "pool_step c c' \<Longrightarrow> pools_inv c \<Longrightarrow> pools_inv c'"
proof (induction rule: pool_step.induct)
  case (json_begin c t spc ns ce cb e h)
  show ?case by (rule clone_inv [OF json_begin(3,1) _ json_begin(2)]) simp
next
  case (context_begin c t l x spc ns ce cb e h)
  show ?case by (rule clone_inv [OF context_begin(3,1) _ context_begin(2)]) simp
qed (rule console_begin_inv console_append_inv console_return_inv enc_append_inv enc_reflect_inv enc_copy_inv enc_parent_inv with_keep_inv json_return_inv
  context_end_inv context_panic_inv forget_inv out_Write_inv; assumption)+

lemma pools_init_inv: "pools_inv pools_init"
  by (simp add: pools_inv_def pools_init_def heap_ok_def owns_def apart_def)

lemma reachable_inv: "rtranclp pool_step pools_init c \<Longrightarrow> pools_inv c"
  by (induction rule: rtranclp_induct) (auto intro: pools_init_inv pool_step_inv)

section \<open>Properties\<close>

text \<open>
  C5: the pools never mix up log calls.  However the steps of any number of goroutines interleave, whatever
  object the pools hand out and wherever marshalers panic, the bytes that a call sends to its
  writer are exactly those that it appended itself (or copied from the encoder of its core); no buffer and no encoder is in a pool twice or
  in a pool while it is in use, and no two calls use the same one.
\<close>

theorem pools_no_crosstalk:
  assumes "rtranclp pool_step pools_init c"
  shows "(\<forall>(t, sent, appended)\<in>set (outs c). sent = appended) \<and>
    distinct (free_bufs (hp c)) \<and> distinct (free_encs (hp c)) \<and>
    (\<forall>t. set (own_bufs (hp c) (ph c t)) \<inter> set (free_bufs (hp c)) = {} \<and>
         set (own_encs (ph c t)) \<inter> set (free_encs (hp c)) = {}) \<and>
    (\<forall>t u. t \<noteq> u \<longrightarrow> set (own_bufs (hp c) (ph c t)) \<inter> set (own_bufs (hp c) (ph c u)) = {} \<and>
         set (own_encs (ph c t)) \<inter> set (own_encs (ph c u)) = {})"
proof -
  have inv: "pools_inv c" by (rule reachable_inv [OF assms])
  then have "heap_ok (hp c)" "\<forall>t. owns (hp c) (ph c t)" "\<forall>t u. t \<noteq> u \<longrightarrow> apart (hp c) (ph c t) (ph c u)"
    "\<forall>o1\<in>set (outs c). fst (snd o1) = snd (snd o1)" by (simp_all add: pools_inv_def)
  then show ?thesis unfolding heap_ok_def owns_def apart_def by (fastforce simp: split_def)
qed

text \<open>A call that logs one byte, after which its buffer and its encoder are in the pools again.\<close>

definition sample_pools :: pools where
  "sample_pools = \<lparr>hp = \<lparr>bufs = (\<lambda>_. [])(0 := ''a''), encs = (\<lambda>_. zero_enc), free_bufs = [0], free_encs = [0],
     next_buf = 1, next_enc = 1\<rparr>, ph = (\<lambda>_. Idle), outs = [(7, ''a'', ''a'')]\<rparr>"

lemma sample_pools_reachable: "rtranclp pool_step pools_init sample_pools"
proof -
  let ?h0 = "hp pools_init"
  define e1 where "e1 = \<lparr>pe_spaced = False, pe_open = 0, pe_buf = Some 0, pe_reflectBuf = None\<rparr>"
  define h1 where "h1 = \<lparr>bufs = (\<lambda>_. []), encs = (\<lambda>_. zero_enc)(0 := e1), free_bufs = [], free_encs = [],
    next_buf = 1, next_enc = 1\<rparr>"
  have clone: "heap_clone False 0 None None ?h0 = (0, h1)"
    by (simp add: heap_clone_def jsonPool_Get_def bufferpool_Get_def pool_Get_def pools_init_def h1_def e1_def zero_enc_def
      Let_def fun_eq_iff)
  define c1 where "c1 = move 7 (Encoding None 0 []) h1 pools_init"
  define c2 where "c2 = move 7 (Encoding None 0 ([] @ ''a'')) (buffer_append 0 ''a'' (hp c1)) c1"
  define c3 where "c3 = move 7 (Holding 0 ([] @ ''a'')) (putJSONEncoder 0 (hp c2)) c2"
  define c4 where "c4 = (move 7 Idle (buffer_Free 0 (hp c3)) c3)\<lparr>outs := outs c3 @ [(7, bufs (hp c3) 0, [] @ ''a'')]\<rparr>"
  note defs = c1_def c2_def c3_def c4_def move_def h1_def e1_def
  have s1: "pool_step pools_init c1" unfolding c1_def by (rule json_begin [OF _ clone]) (simp add: pools_init_def)
  have s2: "pool_step c1 c2" unfolding c2_def by (rule enc_append) (simp_all add: defs)
  have s3: "pool_step c2 c3" unfolding c3_def by (rule json_return) (simp_all add: defs)
  have s4: "pool_step c3 c4" unfolding c4_def by (rule out_Write) (simp add: defs)
  have s: "c4 = sample_pools"
    by (simp add: defs sample_pools_def pools_init_def putJSONEncoder_def buffer_Free_def buffer_append_def pool_Put_def
      zero_enc_def Let_def fun_eq_iff)
  have "rtranclp pool_step pools_init c2" by (rule rtranclp.rtrancl_into_rtrancl [OF r_into_rtranclp]) (rule s1 s2)+
  then have "rtranclp pool_step pools_init c3" using s3 by (rule rtranclp.rtrancl_into_rtrancl)
  then have "rtranclp pool_step pools_init c4" using s4 by (rule rtranclp.rtrancl_into_rtrancl)
  then show ?thesis unfolding s .
qed

theorem pools_no_crosstalk_witness:
  "outs sample_pools = [(7, ''a'', ''a'')] \<and> free_bufs (hp sample_pools) = [0] \<and>
   distinct (free_bufs (hp sample_pools)) \<and> set (own_bufs (hp sample_pools) (ph sample_pools 7)) \<inter> {0} = {}"
  using pools_no_crosstalk [OF sample_pools_reachable] by (simp add: sample_pools_def)

end
