(* ===== verification/Lad_Global.thy ===== *)
theory Lad_Global
  imports Lad_Sugar
begin

text \<open>
  The global loggers and the redirection of the standard library's logger (\<open>global.go\<close>).
\<close>

section \<open>Trimming white space\<close>

text \<open>
  \<open>bytes.TrimSpace\<close> strips the UTF-8 encodings of the white space of Unicode at both ends.
\<close>

definition space_runes :: "nat list" where
  "space_runes = [0x9, 0xA, 0xB, 0xC, 0xD, 0x20, 0x85, 0xA0, 0x1680, 0x2000, 0x2001, 0x2002, 0x2003, 0x2004, 0x2005,
     0x2006, 0x2007, 0x2008, 0x2009, 0x200A, 0x2028, 0x2029, 0x202F, 0x205F, 0x3000]"

definition rune_bytes :: "nat \<Rightarrow> bytes" where
  "rune_bytes r =
     map byte (if r < 0x80 then [r] else if r < 0x800 then [0xC0 + r div 64, 0x80 + r mod 64]
       else [0xE0 + r div 4096, 0x80 + r div 64 mod 64, 0x80 + r mod 64])"

lemma rune_bytes_nonempty [simp]: "rune_bytes r \<noteq> []"
  by (simp add: rune_bytes_def)

function trim_left :: "bytes \<Rightarrow> bytes" where
  "trim_left s =
     (case find (\<lambda>r. prefix (rune_bytes r) s) space_runes of
        None \<Rightarrow> s
      | Some r \<Rightarrow> trim_left (drop (length (rune_bytes r)) s))"
  by pat_completeness auto
termination
  by (relation "measure length") (auto simp: find_Some_iff prefix_def)

function trim_right :: "bytes \<Rightarrow> bytes" where
  "trim_right s =
     (case find (\<lambda>r. suffix (rune_bytes r) s) space_runes of
        None \<Rightarrow> s
      | Some r \<Rightarrow> trim_right (take (length s - length (rune_bytes r)) s))"
  by pat_completeness auto
termination
  by (relation "measure length") (auto simp: find_Some_iff suffix_def)

declare trim_left.simps [simp del] trim_right.simps [simp del]

definition TrimSpace :: "bytes \<Rightarrow> bytes" where
  "TrimSpace s = trim_right (trim_left s)"

section \<open>Global loggers\<close>

record 'v globals =
  globalL :: "'v Logger"
  globalS :: "'v SugaredLogger"

definition initial_globals :: "'v globals" where
  "initial_globals = \<lparr>globalL = NewNop, globalS = Logger_Sugar NewNop\<rparr>"

definition global_L :: "'v globals \<Rightarrow> 'v Logger" where
  "global_L g = globalL g"

definition global_S :: "'v globals \<Rightarrow> 'v SugaredLogger" where
  "global_S g = globalS g"

text \<open>The function that undoes the replacement is represented by the logger that it restores.\<close>

definition ReplaceGlobals :: "'v Logger \<Rightarrow> 'v globals \<Rightarrow> 'v Logger \<times> 'v globals" where
  "ReplaceGlobals log g = (globalL g, g\<lparr>globalL := log, globalS := Logger_Sugar log\<rparr>)"

section \<open>The standard logger\<close>

type_synonym ('v, 'z) logFunc =
  "bytes \<Rightarrow> 'v Field list \<Rightarrow> site \<Rightarrow> ('v, 'z) world_scheme \<Rightarrow> control \<times> ('v, 'z) world_scheme"

definition stdLogDefaultDepth :: int where "stdLogDefaultDepth = 1"
definition loggerWriterDepth :: int where "loggerWriterDepth = 2"

definition levelToFunc :: "'v env \<Rightarrow> 'v Logger \<Rightarrow> level \<Rightarrow> error + ('v, 'z) logFunc" where
  "levelToFunc E log l =
     (if l = DebugLevel then Inr (Logger_Debug E log)
      else if l = InfoLevel then Inr (Logger_Info E log)
      else if l = WarnLevel then Inr (Logger_Warn E log)
      else if l = ErrorLevel then Inr (Logger_Error E log)
      else if l = DPanicLevel then Inr (Logger_DPanic E log)
      else if l = PanicLevel then Inr (Logger_Panic E log)
      else if l = FatalLevel then Inr (Logger_Fatal E log)
      else Inl (errors_new (''unrecognized level: '' @ [CHR 0x22] @ Level_String l @ [CHR 0x22])))"

text \<open>\<open>loggerWriter\<close>: its count, its error, and the call of the logging function.\<close>

definition loggerWriter_Write ::
  "('v, 'z) logFunc \<Rightarrow> bytes \<Rightarrow> site \<Rightarrow> ('v, 'z) world_scheme \<Rightarrow>
   (nat \<times> error option) \<times> control \<times> ('v, 'z) world_scheme" where
  "loggerWriter_Write logFunc p s w =
     (let p = TrimSpace p in ((length p, None), logFunc p [] s w))"

text \<open>
  A \<open>log.Logger\<close> of the standard library: flags, prefix and output.  What it writes in front of a
  message comes from outside if there are flags, otherwise it is the prefix.
\<close>

datatype ('v, 'z) std_out = ToFile nat | ToLogger "('v, 'z) logFunc"

record ('v, 'z) std_log =
  std_flags :: int
  std_prefix :: bytes
  std_output :: "('v, 'z) std_out"

definition std_line :: "(int \<Rightarrow> bytes \<Rightarrow> bytes) \<Rightarrow> ('v, 'z) std_log \<Rightarrow> bytes \<Rightarrow> bytes" where
  "std_line header sl msg =
     (if std_flags sl = 0 then std_prefix sl else header (std_flags sl) (std_prefix sl)) @ msg @
     (if msg = [] \<or> last msg \<noteq> CHR 0x0A then [CHR 0x0A] else [])"

definition std_Print ::
  "'v env \<Rightarrow> (int \<Rightarrow> bytes \<Rightarrow> bytes) \<Rightarrow> ('v, 'z) std_log \<Rightarrow> bytes \<Rightarrow> site \<Rightarrow> ('v, 'z) world_scheme \<Rightarrow>
   control \<times> ('v, 'z) world_scheme" where
  "std_Print E header sl msg s w =
     (case std_output sl of
        ToFile i \<Rightarrow> (Returns, snd (ws_Write E (Sink i) (std_line header sl msg) w))
      | ToLogger f \<Rightarrow> snd (loggerWriter_Write f (std_line header sl msg) s w))"

definition NewStdLog ::
  "'v env \<Rightarrow> 'v Logger \<Rightarrow> ('v, 'z) world_scheme \<Rightarrow> ('v, 'z) std_log outcome \<times> ('v, 'z) world_scheme" where
  "NewStdLog E log w =
     (case WithOptions E [AddCallerSkip (stdLogDefaultDepth + loggerWriterDepth)] log w of
        (Ok logger, w') \<Rightarrow>
          (Ok \<lparr>std_flags = 0, std_prefix = [], std_output = ToLogger (Logger_Info E logger)\<rparr>, w')
      | (Panic m, w') \<Rightarrow> (Panic m, w'))"

definition NewStdLogAt ::
  "'v env \<Rightarrow> 'v Logger \<Rightarrow> level \<Rightarrow> ('v, 'z) world_scheme \<Rightarrow>
   (error + ('v, 'z) std_log) outcome \<times> ('v, 'z) world_scheme" where
  "NewStdLogAt E log l w =
     (case WithOptions E [AddCallerSkip (stdLogDefaultDepth + loggerWriterDepth)] log w of
        (Ok logger, w') \<Rightarrow>
          (case levelToFunc E logger l of
             Inl e \<Rightarrow> (Ok (Inl e), w')
           | Inr f \<Rightarrow> (Ok (Inr \<lparr>std_flags = 0, std_prefix = [], std_output = ToLogger f\<rparr>), w'))
      | (Panic m, w') \<Rightarrow> (Panic m, w'))"

text \<open>
  \<open>redirectStdLogAt\<close> changes the standard logger; on success it also returns the function that
  restores flags and prefix and resets the output to standard error.
\<close>

definition redirectStdLogAt ::
  "'v env \<Rightarrow> 'v Logger \<Rightarrow> level \<Rightarrow> ('v, 'z) std_log \<Rightarrow> ('v, 'z) world_scheme \<Rightarrow>
   (error + (('v, 'z) std_log \<Rightarrow> ('v, 'z) std_log)) outcome \<times> ('v, 'z) std_log \<times> ('v, 'z) world_scheme" where
  "redirectStdLogAt E log l std w =
     (let flags = std_flags std; pre = std_prefix std;
          std1 = std\<lparr>std_flags := 0, std_prefix := []\<rparr> in
      case WithOptions E [AddCallerSkip (stdLogDefaultDepth + loggerWriterDepth)] log w of
        (Panic m, w') \<Rightarrow> (Panic m, std1, w')
      | (Ok logger, w') \<Rightarrow>
          (case levelToFunc E logger l of
             Inl e \<Rightarrow> (Ok (Inl e), std1, w')
           | Inr f \<Rightarrow>
               (Ok (Inr (\<lambda>s. s\<lparr>std_flags := flags, std_prefix := pre, std_output := ToFile os_Stderr\<rparr>)),
                std1\<lparr>std_output := ToLogger f\<rparr>, w')))"

definition programmerErrorTemplate :: "bytes \<Rightarrow> bytes" where
  "programmerErrorTemplate v = ''You've found a bug in lad! Please file a bug at '' @
     ''https://github.com/uber-go/lad/issues/new and reference this error: '' @ v"

definition RedirectStdLog ::
  "'v env \<Rightarrow> 'v Logger \<Rightarrow> ('v, 'z) std_log \<Rightarrow> ('v, 'z) world_scheme \<Rightarrow>
   (('v, 'z) std_log \<Rightarrow> ('v, 'z) std_log) outcome \<times> ('v, 'z) std_log \<times> ('v, 'z) world_scheme" where
  "RedirectStdLog E log std w =
     (case redirectStdLogAt E log InfoLevel std w of
        (Ok (Inl e), r) \<Rightarrow> (Panic (programmerErrorTemplate (err_fmt e)), r)
      | (Ok (Inr f), r) \<Rightarrow> (Ok f, r)
      | (Panic m, r) \<Rightarrow> (Panic m, r))"

definition RedirectStdLogAt ::
  "'v env \<Rightarrow> 'v Logger \<Rightarrow> level \<Rightarrow> ('v, 'z) std_log \<Rightarrow> ('v, 'z) world_scheme \<Rightarrow>
   (error + (('v, 'z) std_log \<Rightarrow> ('v, 'z) std_log)) outcome \<times> ('v, 'z) std_log \<times> ('v, 'z) world_scheme" where
  "RedirectStdLogAt E log l std w = redirectStdLogAt E log l std w"

section \<open>Facts about trimming\<close>

lemma newline_rune:
  assumes "r \<in> set space_runes" and "last (rune_bytes r) = CHR 0x0A"
  shows "r = 0xA"
proof -
  have "list_all (\<lambda>r. last (rune_bytes r) = CHR 0x0A \<longrightarrow> r = 0xA) space_runes"
    by (simp add: space_runes_def rune_bytes_def)
  then show ?thesis using assms by (simp add: list_all_iff)
qed

lemma rune_bytes_newline: "rune_bytes 0xA = [CHR 0x0A]"
  by (simp add: rune_bytes_def)

lemma find_SomeD: "find P xs = Some x \<Longrightarrow> x \<in> set xs \<and> P x"
  by (auto simp: find_Some_iff)

lemma suffix_newline:
  "find (\<lambda>r. suffix (rune_bytes r) (s @ [CHR 0x0A])) space_runes = Some 0xA"
proof (cases "find (\<lambda>r. suffix (rune_bytes r) (s @ [CHR 0x0A])) space_runes")
  case None
  moreover have "0xA \<in> set space_runes" by (simp add: space_runes_def)
  ultimately show ?thesis by (auto simp: find_None_iff rune_bytes_newline suffix_def)
next
  case (Some r)
  then have r: "r \<in> set space_runes" "suffix (rune_bytes r) (s @ [CHR 0x0A])" by (auto dest: find_SomeD)
  then have "last (rune_bytes r) = CHR 0x0A"
    by (metis last_appendR last_snoc rune_bytes_nonempty suffix_def)
  then show ?thesis using Some newline_rune r by simp
qed

lemma trim_right_newline: "trim_right (s @ [CHR 0x0A]) = trim_right s"
  unfolding trim_right.simps [of "s @ [CHR 0x0A]"] suffix_newline by (simp add: rune_bytes_newline)

lemma trim_left_suffix: "suffix (trim_left s) s"
proof (induction s rule: trim_left.induct)
  case (1 s)
  then show ?case
    by (subst trim_left.simps) (auto split: option.splits intro: suffix_order.trans [OF _ suffix_drop])
qed

lemma trim_right_prefix: "prefix (trim_right s) s"
proof (induction s rule: trim_right.induct)
  case (1 s)
  then show ?case
    by (subst trim_right.simps) (auto split: option.splits intro: prefix_order.trans [OF _ take_is_prefix])
qed

text \<open>A text that has no white space at its ends.\<close>

definition trimmed :: "bytes \<Rightarrow> bool" where
  "trimmed s \<longleftrightarrow> s \<noteq> [] \<and> (\<forall>r \<in> set space_runes. \<not> prefix (rune_bytes r) s \<and> \<not> suffix (rune_bytes r) s)"

lemma trimmed_newline: "trimmed s \<Longrightarrow> TrimSpace (s @ [CHR 0x0A]) = s"
proof -
  assume s: "trimmed s"
  have "\<not> prefix (rune_bytes r) (s @ [CHR 0x0A])" if "r \<in> set space_runes" for r
  proof
    assume p: "prefix (rune_bytes r) (s @ [CHR 0x0A])"
    then have e: "rune_bytes r = s @ [CHR 0x0A]"
      using s that by (auto simp: trimmed_def prefix_snoc)
    then show False using newline_rune [OF that] rune_bytes_newline s by (simp add: trimmed_def)
  qed
  then have "trim_left (s @ [CHR 0x0A]) = s @ [CHR 0x0A]"
    by (subst trim_left.simps) (simp add: find_None_iff [THEN iffD2])
  moreover have "find (\<lambda>r. suffix (rune_bytes r) s) space_runes = None"
    using s by (simp add: trimmed_def find_None_iff)
  then have "trim_right s = s" by (subst trim_right.simps) simp
  ultimately show ?thesis by (simp add: TrimSpace_def trim_right_newline)
qed

lemma TrimSpace_shorter: "length (TrimSpace (s @ [CHR 0x0A])) \<le> length s"
proof (cases "trim_left (s @ [CHR 0x0A])" rule: rev_cases)
  case Nil
  then show ?thesis using prefix_length_le [OF trim_right_prefix, of "[]"] by (simp add: TrimSpace_def)
next
  case (snoc u c)
  then have "suffix (u @ [c]) (s @ [CHR 0x0A])" using trim_left_suffix by metis
  then have "c = CHR 0x0A" "length u \<le> length s" by (auto simp: suffix_def)
  then show ?thesis
    using snoc prefix_length_le [OF trim_right_prefix, of u] by (simp add: TrimSpace_def trim_right_newline)
qed

lemma levelToFunc_supported:
  "supported l \<Longrightarrow> levelToFunc E log l = Inr (Logger_Log E log l)"
  by (erule supportedE) (simp_all add: levelToFunc_def level_simps Logger_Debug_def Logger_Info_def Logger_Warn_def
      Logger_Error_def Logger_DPanic_def Logger_Panic_def Logger_Fatal_def)

lemma ReplaceGlobals_undo:
  assumes "globalS g = Logger_Sugar (globalL g)"
  shows "snd (ReplaceGlobals (fst (ReplaceGlobals log g)) (snd (ReplaceGlobals log g))) = g"
  using assms by (simp add: ReplaceGlobals_def)

lemma ReplaceGlobals_consistent:
  "global_S (snd (ReplaceGlobals log g)) = Logger_Sugar (global_L (snd (ReplaceGlobals log g)))"
  by (simp add: ReplaceGlobals_def global_S_def global_L_def)

lemma redirected_prints:
  assumes "supported l" and "trimmed msg" and "RedirectStdLogAt E log l std w = (r, std', w')"
  shows "\<exists>restore. r = Ok (Inr restore) \<and> w' = w \<and>
    std_Print E header std' msg s w = Logger_Log E (log\<lparr>callerSkip := callerSkip log + 3\<rparr>) l msg [] s w \<and>
    std_Print E header std' (msg @ [CHR 0x0A]) s w =
      Logger_Log E (log\<lparr>callerSkip := callerSkip log + 3\<rparr>) l msg [] s w \<and>
    restore std' = std\<lparr>std_output := ToFile os_Stderr\<rparr>"
proof -
  have "last msg \<noteq> CHR 0x0A" "msg \<noteq> []"
  proof -
    have "0xA \<in> set space_runes" by (simp add: space_runes_def)
    then have "\<not> suffix [CHR 0x0A] msg" using assms(2) rune_bytes_newline by (metis trimmed_def)
    then show "last msg \<noteq> CHR 0x0A" "msg \<noteq> []"
      using assms(2) by (auto simp: suffix_def trimmed_def) (metis append_butlast_last_id)
  qed
  then show ?thesis
    using assms trimmed_newline
    by (auto simp: RedirectStdLogAt_def redirectStdLogAt_def stdLogDefaultDepth_def loggerWriterDepth_def
        levelToFunc_supported std_Print_def std_line_def loggerWriter_Write_def Let_def)
qed

section \<open>Properties\<close>

text \<open>
  C16: redirecting the standard logger.  At every supported level \<open>RedirectStdLogAt\<close> succeeds; from then
  on a message that is printed through the standard library, with or without a newline at its
  end, is logged at that level with exactly its text, and the returned function restores flags,
  prefix and the output to standard error.
\<close>

theorem RedirectStdLogAt_redirects:
  assumes "supported l" and "trimmed msg" and "RedirectStdLogAt E log l std w = (r, std', w')"
  shows "\<exists>restore. r = Ok (Inr restore) \<and> w' = w \<and>
    std_Print E header std' msg s w = Logger_Log E (log\<lparr>callerSkip := callerSkip log + 3\<rparr>) l msg [] s w \<and>
    std_Print E header std' (msg @ [CHR 0x0A]) s w =
      Logger_Log E (log\<lparr>callerSkip := callerSkip log + 3\<rparr>) l msg [] s w \<and>
    restore std' = std\<lparr>std_output := ToFile os_Stderr\<rparr>"
  by (rule redirected_prints [OF assms])

lemma byte_eq_sym: "n < 256 \<Longrightarrow> c = byte n \<longleftrightarrow> bval c = n"
  by auto

lemma sample_trimmed: "trimmed ''hi''"
  by (simp add: byte_eq_sym trimmed_def space_runes_def rune_bytes_def suffix_def prefix_def append_eq_Cons_conv Cons_eq_append_conv)

theorem RedirectStdLogAt_redirects_witness:
  "\<exists>restore std'. RedirectStdLogAt sample_env sample_logger InfoLevel
      \<lparr>std_flags = 3, std_prefix = ''app '', std_output = ToFile os_Stderr\<rparr> sample_world = (Ok (Inr restore), std', sample_world) \<and>
    std_Print sample_env (\<lambda>_ p. p) std' ''hi'' sample_site sample_world =
      Logger_Log sample_env (sample_logger\<lparr>callerSkip := callerSkip sample_logger + 3\<rparr>) InfoLevel ''hi'' [] sample_site sample_world \<and>
    restore std' = \<lparr>std_flags = 3, std_prefix = ''app '', std_output = ToFile os_Stderr\<rparr>"
proof -
  let ?std = "\<lparr>std_flags = 3, std_prefix = ''app '', std_output = ToFile os_Stderr\<rparr>"
  obtain r std' w' where r: "RedirectStdLogAt sample_env sample_logger InfoLevel ?std sample_world = (r, std', w')"
    by (metis prod.exhaust)
  have s: "supported InfoLevel" by (simp add: supported_def level_simps)
  show ?thesis
    using RedirectStdLogAt_redirects [OF s sample_trimmed r, of "\<lambda>_ p. p" sample_site] r by auto
qed

text \<open>
  What the redirection reports and what it leaves behind.  The writer behind the standard
  logger, which always gets lines that end in a newline, answers each of them with a count that
  is too small and no error.  And a redirection that fails because of the level has nevertheless
  cleared the flags and the prefix of the standard logger.
\<close>

lemma redirect_deviations:
  "fst (fst (loggerWriter_Write f (line @ [CHR 0x0A]) s w)) < length (line @ [CHR 0x0A]) \<and>
   snd (fst (loggerWriter_Write f (line @ [CHR 0x0A]) s w)) = None \<and>
   redirectStdLogAt E log InvalidLevel std w' =
     (Ok (Inl (errors_new (''unrecognized level: '' @ [CHR 0x22] @ Level_String InvalidLevel @ [CHR 0x22]))),
      std\<lparr>std_flags := 0, std_prefix := []\<rparr>, w')"
  using TrimSpace_shorter [of line]
  by (simp add: loggerWriter_Write_def Let_def less_Suc_eq_le redirectStdLogAt_def levelToFunc_def level_simps)

end
