(* ===== verification/Lad_Readme.thy ===== *)
theory Lad_Readme
  imports Lad_Global Lad_Float "HOL-Library.Multiset" "HOL-Library.Product_Lexorder"
begin

text \<open>
  The program that fills the benchmark tables of the README (\<open>internal/readme/readme.go\<close>): it runs
  benchmarks, finds one line per library in their output, and prints the rows sorted by time.
\<close>

section \<open>Percentages\<close>

text \<open>
  The format \<open>%+0.f\<close>, which prints a sign and the nearest integer.
\<close>

definition fmt_signed :: "nat \<Rightarrow> bytes" where
  "fmt_signed b =
     (if IsNaN F64 b then ''+NaN''
      else if IsInf F64 b then (if f_neg F64 b then ''-Inf'' else ''+Inf'')
      else (if f_neg F64 b then ''-'' else ''+'') @ (case f_ratio F64 b of (n, d) \<Rightarrow> dec_nat (round_div n d)))"

text \<open>Division by zero gives an infinity or, for zero, no number; neither is changed by what follows.\<close>

definition pct :: "int \<Rightarrow> int \<Rightarrow> bytes" where
  "pct val baseline =
     (if baseline = 0 then (if val = 0 then ''+NaN'' else if 0 < val then ''+Inf'' else ''-Inf'')
      else fmt_signed (f64_sub (f64_mul (f64_div (f64_of_int val) (f64_of_int baseline)) (f64_of_int 100))
             (f64_of_int 100))) @ ''%''"

section \<open>Rows\<close>

record benchmarkRow =
  br_Name :: bytes
  br_Time :: int64
  AllocatedBytes :: int
  AllocatedObjects :: int
  ladTime :: int64
  ladAllocatedBytes :: int
  ladAllocatedObjects :: int

definition row_String :: "benchmarkRow \<Rightarrow> bytes" where
  "row_String b =
     (let t = sint (br_Time b); tp = pct t (sint (ladTime b)) in
      ''| '' @ br_Name b @ '' | '' @ dec_int t @ '' ns/op | '' @ tp @ '' | '' @ dec_int (AllocatedObjects b) @
      '' allocs/op'')"

definition row_Less :: "benchmarkRow \<Rightarrow> benchmarkRow \<Rightarrow> bool" where
  "row_Less left right =
     (let leftlad = sublist ''lad'' (br_Name left); rightlad = sublist ''lad'' (br_Name right) in
      if leftlad = rightlad then sint (br_Time left) < sint (br_Time right) else leftlad)"

section \<open>From the output of a benchmark to rows\<close>

text \<open>
  What the program gets from outside: the command that runs a benchmark, \<open>time.ParseDuration\<close>,
  \<open>strconv.Atoi\<close>, \<open>%q\<close> of \<open>fmt\<close>, and the packages for templates, with the input.
\<close>

record readme_env =
  run_bench :: "bytes \<Rightarrow> bytes \<times> error option"
  ParseDuration :: "bytes \<Rightarrow> error + int64"
  Atoi :: "bytes \<Rightarrow> error + int"
  quote :: "bytes \<Rightarrow> bytes"

text \<open>\<open>strings.Split\<close> at one byte, \<open>strings.TrimSuffix\<close>, and \<open>strings.ReplaceAll\<close> of a byte by nothing.\<close>

fun split_at :: "char \<Rightarrow> bytes \<Rightarrow> bytes \<Rightarrow> bytes list" where
  "split_at sep acc [] = [acc]"
| "split_at sep acc (c # cs) = (if c = sep then acc # split_at sep [] cs else split_at sep (acc @ [c]) cs)"

definition TrimSuffix :: "bytes \<Rightarrow> bytes \<Rightarrow> bytes" where
  "TrimSuffix s suf = (if suffix suf s then take (length s - length suf) s else s)"

definition remove_byte :: "char \<Rightarrow> bytes \<Rightarrow> bytes" where
  "remove_byte c s = filter (\<lambda>x. x \<noteq> c) s"

definition libraryNameToMarkdownName :: "(bytes \<times> bytes) list" where
  "libraryNameToMarkdownName =
     [(''lad'', '':lad: lad''), (''lad.Sugar'', '':lad: lad (sugared)''), (''stdlib.Println'', ''standard library''),
      (''sirupsen/logrus'', ''logrus''), (''go-kit/kit/log'', ''go-kit''), (''inconshreveable/log15'', ''log15''),
      (''apex/log'', ''apex/log''), (''rs/zerolog'', ''zerolog''), (''slog'', ''slog''),
      (''slog.LogAttrs'', ''slog (LogAttrs)'')]"

definition markdown_name :: "bytes \<Rightarrow> bytes" where
  "markdown_name lib = (case map_of libraryNameToMarkdownName lib of None \<Rightarrow> [] | Some n \<Rightarrow> n)"

fun find_loop :: "bytes \<Rightarrow> bytes list \<Rightarrow> bytes \<Rightarrow> error + bytes" where
  "find_loop substr [] out = Inr out"
| "find_loop substr (line # input) out =
     (if sublist substr line then
        if out \<noteq> [] then Inl (errors_new (''input has duplicate substring '' @ substr))
        else find_loop substr input line
      else find_loop substr input out)"

definition findUniqueSubstring :: "bytes list \<Rightarrow> bytes \<Rightarrow> error + bytes" where
  "findUniqueSubstring input substr = find_loop substr input []"

text \<open>The fields of a line; \<open>Inl\<close> is the first error.\<close>

definition parse_fields :: "readme_env \<Rightarrow> bytes list \<Rightarrow> error + int64 \<times> int \<times> int" where
  "parse_fields R split =
     (case ParseDuration R (remove_byte (CHR '' '') (TrimSuffix (TrimSpace (split ! 2)) ''/op'')) of
        Inl e \<Rightarrow> Inl e
      | Inr duration \<Rightarrow>
          (case Atoi R (TrimSuffix (TrimSpace (split ! 3)) '' B/op'') of
             Inl e \<Rightarrow> Inl e
           | Inr allocatedBytes \<Rightarrow>
               (case Atoi R (TrimSuffix (TrimSpace (split ! 4)) '' allocs/op'') of
                  Inl e \<Rightarrow> Inl e
                | Inr allocatedObjects \<Rightarrow> Inr (duration, allocatedBytes, allocatedObjects))))"

definition getBenchmarkRow ::
  "readme_env \<Rightarrow> bytes list \<Rightarrow> bytes \<Rightarrow> bytes \<Rightarrow> benchmarkRow option \<Rightarrow> error + benchmarkRow option" where
  "getBenchmarkRow R input benchmarkName libraryName baseline =
     (case findUniqueSubstring input (benchmarkName @ ''/'' @ libraryName @ ''-'') of
        Inl e \<Rightarrow> Inl e
      | Inr line \<Rightarrow>
          if line = [] then Inr None
          else let split = split_at (CHR 0x09) [] line in
            if length split < 5 then Inl (errors_new (''unknown benchmark line: '' @ line))
            else case parse_fields R split of
                   Inl e \<Rightarrow> Inl e
                 | Inr (duration, allocatedBytes, allocatedObjects) \<Rightarrow>
                     let r = \<lparr>br_Name = markdown_name libraryName, br_Time = duration, AllocatedBytes = allocatedBytes,
                           AllocatedObjects = allocatedObjects, ladTime = 0, ladAllocatedBytes = 0,
                           ladAllocatedObjects = 0\<rparr>
                     in Inr (Some (case baseline of
                          None \<Rightarrow> r
                        | Some b \<Rightarrow> r\<lparr>ladTime := br_Time b, ladAllocatedBytes := AllocatedBytes b,
                            ladAllocatedObjects := AllocatedObjects b\<rparr>)))"

definition getBenchmarkOutput :: "readme_env \<Rightarrow> bytes \<Rightarrow> error + bytes list" where
  "getBenchmarkOutput R benchmarkName =
     (case run_bench R benchmarkName of
        (out, Some err) \<Rightarrow> Inl (errors_new (''error running '' @ [CHR 0x27] @ ''go test -bench='' @ quote R benchmarkName @
          [CHR 0x27] @ '': '' @ err_fmt err @ [CHR 0x0A] @ out))
      | (out, None) \<Rightarrow> Inr (split_at (CHR 0x0A) [] out))"

text \<open>The loop over the map, in the order \<open>libs\<close> in which Go visits its keys.\<close>

fun rows_loop ::
  "readme_env \<Rightarrow> bytes list \<Rightarrow> bytes \<Rightarrow> benchmarkRow option \<Rightarrow> bytes list \<Rightarrow> benchmarkRow list \<Rightarrow>
   error + benchmarkRow list" where
  "rows_loop R input name baseline [] rows = Inr rows"
| "rows_loop R input name baseline (lib # libs) rows =
     (case getBenchmarkRow R input name lib baseline of
        Inl e \<Rightarrow> Inl e
      | Inr None \<Rightarrow> rows_loop R input name baseline libs rows
      | Inr (Some r) \<Rightarrow> rows_loop R input name baseline libs (rows @ [r]))"

definition table_head :: "bytes list" where
  "table_head = [''| Package | Time | Time % to lad | Objects Allocated |'',
     ''| :------ | :--: | :-----------: | :---------------: |'']"

fun join_lines :: "bytes list \<Rightarrow> bytes" where
  "join_lines [] = []"
| "join_lines [x] = x"
| "join_lines (x # xs) = x @ [CHR 0x0A] @ join_lines xs"

text \<open>\<open>sort_Sort\<close> is \<open>sort.Sort\<close> with \<open>Less\<close>.\<close>

definition getBenchmarkRows ::
  "readme_env \<Rightarrow> (benchmarkRow list \<Rightarrow> benchmarkRow list) \<Rightarrow> bytes list \<Rightarrow> bytes \<Rightarrow> error + bytes" where
  "getBenchmarkRows R sort_Sort libs benchmarkName =
     (case getBenchmarkOutput R benchmarkName of
        Inl e \<Rightarrow> Inl e
      | Inr benchmarkOutput \<Rightarrow>
          (case getBenchmarkRow R benchmarkOutput benchmarkName ''lad'' None of
             Inl e \<Rightarrow> Inl e
           | Inr baseline \<Rightarrow>
               (case rows_loop R benchmarkOutput benchmarkName baseline libs [] of
                  Inl e \<Rightarrow> Inl e
                | Inr rows \<Rightarrow> Inr (join_lines (table_head @ map row_String (sort_Sort rows))))))"

record tmplData =
  BenchmarkAddingFields :: bytes
  BenchmarkAccumulatedContext :: bytes
  BenchmarkWithoutFields :: bytes

text \<open>Go visits a map anew in each loop, hence three orders.\<close>

definition getTmplData ::
  "readme_env \<Rightarrow> (benchmarkRow list \<Rightarrow> benchmarkRow list) \<Rightarrow> bytes list \<Rightarrow> bytes list \<Rightarrow> bytes list \<Rightarrow>
   error + tmplData" where
  "getTmplData R sort_Sort libs1 libs2 libs3 =
     (case getBenchmarkRows R sort_Sort libs1 ''BenchmarkAddingFields'' of
        Inl e \<Rightarrow> Inl e
      | Inr a \<Rightarrow>
          (case getBenchmarkRows R sort_Sort libs2 ''BenchmarkAccumulatedContext'' of
             Inl e \<Rightarrow> Inl e
           | Inr b \<Rightarrow>
               (case getBenchmarkRows R sort_Sort libs3 ''BenchmarkWithoutFields'' of
                  Inl e \<Rightarrow> Inl e
                | Inr c \<Rightarrow> Inr \<lparr>BenchmarkAddingFields = a, BenchmarkAccumulatedContext = b,
                    BenchmarkWithoutFields = c\<rparr>)))"

text \<open>
  \<open>do\<close>: the template comes from standard input, and its parsing and execution are those of
  \<open>text/template\<close>.
\<close>

definition readme_do ::
  "(error + tmplData) \<Rightarrow> (error + bytes) \<Rightarrow> (bytes \<Rightarrow> error + 't) \<Rightarrow> ('t \<Rightarrow> tmplData \<Rightarrow> bytes \<times> error option) \<Rightarrow>
   bytes \<times> error option" where
  "readme_do tmpl_data stdin template_Parse Execute =
     (case tmpl_data of
        Inl e \<Rightarrow> ([], Some e)
      | Inr td \<Rightarrow>
          (case stdin of
             Inl e \<Rightarrow> ([], Some e)
           | Inr dat \<Rightarrow>
               (case template_Parse dat of
                  Inl e \<Rightarrow> ([], Some e)
                | Inr t \<Rightarrow> Execute t td)))"

section \<open>Finding the line of a library\<close>

lemma find_loop_filter:
  assumes "substr \<noteq> []"
  shows "find_loop substr input out =
    (case (if out = [] then [] else [out]) @ filter (sublist substr) input of
       [] \<Rightarrow> Inr []
     | [line] \<Rightarrow> Inr line
     | _ \<Rightarrow> Inl (errors_new (''input has duplicate substring '' @ substr)))"
  using assms
proof (induction substr input out rule: find_loop.induct)
  case (2 substr line input out)
  then show ?case by (cases "sublist substr line") (auto split: list.split)
qed simp

text \<open>The line is found exactly if it is the only one; none at all is no error.\<close>

lemma findUniqueSubstring_unique:
  assumes "substr \<noteq> []"
  shows "findUniqueSubstring input substr =
    (case filter (sublist substr) input of
       [] \<Rightarrow> Inr []
     | [line] \<Rightarrow> Inr line
     | _ \<Rightarrow> Inl (errors_new (''input has duplicate substring '' @ substr)))"
  using find_loop_filter [OF assms] by (simp add: findUniqueSubstring_def)

section \<open>The order of the rows\<close>

text \<open>The rows of this library come first, then time decides.\<close>

definition row_key :: "benchmarkRow \<Rightarrow> bool \<times> int" where
  "row_key r = (\<not> sublist ''lad'' (br_Name r), sint (br_Time r))"

lemma row_Less_key: "row_Less a b \<longleftrightarrow> row_key a < row_key b"
  by (auto simp: row_Less_def row_key_def less_prod_def' Let_def)

text \<open>What \<open>sort.Sort\<close> promises: a permutation in which no row is less than an earlier one.\<close>

definition sorts_rows :: "(benchmarkRow list \<Rightarrow> benchmarkRow list) \<Rightarrow> bool" where
  "sorts_rows sort_Sort \<longleftrightarrow>
     (\<forall>rs. mset (sort_Sort rs) = mset rs \<and> sorted_wrt (\<lambda>a b. \<not> row_Less b a) (sort_Sort rs))"

lemma sorts_rows_sort_key: "sorts_rows (sort_key row_key)"
  using sorted_sort_key [of row_key] by (simp add: sorts_rows_def row_Less_key not_less sorted_wrt_map)

lemma sorts_rows_unique:
  assumes "sorts_rows sort_Sort" and "inj_on row_key (set rs)"
  shows "sort_Sort rs = sort_key row_key rs"
proof (rule sym, rule sort_key_inj_key_eq)
  show "mset rs = mset (sort_Sort rs)" using assms(1) by (simp add: sorts_rows_def)
  show "sorted (map row_key (sort_Sort rs))"
    using assms(1) by (simp add: sorts_rows_def row_Less_key not_less sorted_wrt_map)
qed (rule assms(2))

section \<open>The rows of a table\<close>

definition rows_of :: "readme_env \<Rightarrow> bytes list \<Rightarrow> bytes \<Rightarrow> benchmarkRow option \<Rightarrow> bytes list \<Rightarrow> benchmarkRow list" where
  "rows_of R input name baseline libs =
     concat (map (\<lambda>lib. case getBenchmarkRow R input name lib baseline of Inr (Some r) \<Rightarrow> [r] | _ \<Rightarrow> []) libs)"

definition rows_fail :: "readme_env \<Rightarrow> bytes list \<Rightarrow> bytes \<Rightarrow> benchmarkRow option \<Rightarrow> bytes list \<Rightarrow> bool" where
  "rows_fail R input name baseline libs \<longleftrightarrow>
     (\<exists>lib\<in>set libs. \<exists>e. getBenchmarkRow R input name lib baseline = Inl e)"

lemma rows_loop_rows:
  "(\<exists>e. rows_loop R input name baseline libs rows = Inl e) \<longleftrightarrow> rows_fail R input name baseline libs"
  "\<not> rows_fail R input name baseline libs \<Longrightarrow>
     rows_loop R input name baseline libs rows = Inr (rows @ rows_of R input name baseline libs)"
  by (induction libs arbitrary: rows) (auto simp: rows_fail_def rows_of_def split: sum.splits option.splits)

lemma rows_of_perm:
  assumes "mset libs = mset libs'"
  shows "mset (rows_of R input name baseline libs) = mset (rows_of R input name baseline libs')"
proof -
  let ?f = "\<lambda>lib. case getBenchmarkRow R input name lib baseline of Inr (Some r) \<Rightarrow> [r] | _ \<Rightarrow> []"
  have "mset (concat (map ?f xs)) = \<Sum>\<^sub># (image_mset (\<lambda>lib. mset (?f lib)) (mset xs))" for xs
    by (induction xs) simp_all
  then show ?thesis unfolding rows_of_def assms by (simp only: assms)
qed

text \<open>The table that belongs to the output of a benchmark.\<close>

definition table_of :: "readme_env \<Rightarrow> bytes list \<Rightarrow> bytes \<Rightarrow> benchmarkRow option \<Rightarrow> bytes list \<Rightarrow> bytes" where
  "table_of R input name baseline libs =
     join_lines (table_head @ map row_String (sort_key row_key (rows_of R input name baseline libs)))"

lemma getBenchmarkRows_table:
  assumes "sorts_rows sort_Sort" and "getBenchmarkOutput R name = Inr input"
    and "getBenchmarkRow R input name ''lad'' None = Inr baseline"
    and "inj_on row_key (set (rows_of R input name baseline libs))"
  shows "\<not> rows_fail R input name baseline libs \<Longrightarrow>
      getBenchmarkRows R sort_Sort libs name = Inr (table_of R input name baseline libs)"
    and "rows_fail R input name baseline libs \<Longrightarrow> \<exists>e. getBenchmarkRows R sort_Sort libs name = Inl e"
  using assms(2,3) rows_loop_rows(1) [of R input name baseline libs "[]"] sorts_rows_unique [OF assms(1,4)]
  by (auto simp: getBenchmarkRows_def table_of_def rows_loop_rows(2))

section \<open>Properties\<close>

text \<open>
  C37: a table of the README does not depend on chance.  If no two rows tie, then in whatever order Go
  visits the map of libraries and however \<open>sort.Sort\<close> works, the program prints the same table,
  in which the rows of this library come first and all others follow by time, or it fails in every
  order.
\<close>

theorem getBenchmarkRows_order:
  assumes "sorts_rows sort_Sort" and "mset libs = mset libs'" and "getBenchmarkOutput R name = Inr input"
    and "getBenchmarkRow R input name ''lad'' None = Inr baseline"
    and "inj_on row_key (set (rows_of R input name baseline libs))"
  shows "if rows_fail R input name baseline libs then \<exists>e. getBenchmarkRows R sort_Sort libs' name = Inl e
    else getBenchmarkRows R sort_Sort libs' name = Inr (table_of R input name baseline libs)"
proof -
  let ?rows = "rows_of R input name baseline"
  have m: "mset (?rows libs) = mset (?rows libs')" by (rule rows_of_perm [OF assms(2)])
  then have s: "set (?rows libs) = set (?rows libs')" "set libs = set libs'" using assms(2) by (metis set_mset_mset)+
  then have inj: "inj_on row_key (set (?rows libs'))" using assms(5) by simp
  have "sort_key row_key (?rows libs) = sort_key row_key (?rows libs')"
    by (rule sort_key_inj_key_eq [OF _ assms(5)]) (simp_all add: m)
  then have "table_of R input name baseline libs = table_of R input name baseline libs'"
    by (simp add: table_of_def)
  moreover have "rows_fail R input name baseline libs = rows_fail R input name baseline libs'"
    using s(2) by (simp add: rows_fail_def)
  ultimately show ?thesis using getBenchmarkRows_table [OF assms(1,3,4) inj] by simp
qed

text \<open>A benchmark with the line of one library only.\<close>

definition sample_readme :: readme_env where
  "sample_readme = \<lparr>run_bench = (\<lambda>name. (name @ ''/lad-8'' @ concat (replicate 4 [CHR 0x09, CHR ''1'']), None)),
     ParseDuration = (\<lambda>_. Inr 5), Atoi = (\<lambda>_. Inr 1), quote = id\<rparr>"

definition sample_row :: benchmarkRow where
  "sample_row = \<lparr>br_Name = '':lad: lad'', br_Time = 5, AllocatedBytes = 1, AllocatedObjects = 1, ladTime = 5,
     ladAllocatedBytes = 1, ladAllocatedObjects = 1\<rparr>"

definition sample_output :: "bytes list" where
  "sample_output = [''B/lad-8'' @ concat (replicate 4 [CHR 0x09, CHR ''1''])]"

lemma sample_benchmark:
  "getBenchmarkOutput sample_readme ''B'' = Inr sample_output"
  "getBenchmarkRow sample_readme sample_output ''B'' ''lad'' bl =
     Inr (Some (case bl of None \<Rightarrow> sample_row\<lparr>ladTime := 0, ladAllocatedBytes := 0, ladAllocatedObjects := 0\<rparr>
       | Some b \<Rightarrow> sample_row\<lparr>ladTime := br_Time b, ladAllocatedBytes := AllocatedBytes b,
           ladAllocatedObjects := AllocatedObjects b\<rparr>))"
  "getBenchmarkRow sample_readme sample_output ''B'' ''slog'' bl = Inr None"
  by (simp_all add: sample_output_def sample_readme_def sample_row_def getBenchmarkOutput_def getBenchmarkRow_def findUniqueSubstring_def
    parse_fields_def markdown_name_def libraryNameToMarkdownName_def numeral_eq_Suc Let_def sublist_Cons_right split: option.split)

theorem getBenchmarkRows_order_witness:
  "getBenchmarkRows sample_readme (sort_key row_key) [''slog'', ''lad''] ''B'' =
     Inr (join_lines (table_head @ [row_String sample_row]))"
proof -
  let ?base = "Some (sample_row\<lparr>ladTime := 0, ladAllocatedBytes := 0, ladAllocatedObjects := 0\<rparr>)"
  have r: "rows_of sample_readme sample_output ''B'' ?base [''lad'', ''slog''] = [sample_row]"
    by (simp add: rows_of_def sample_benchmark) (simp add: sample_row_def)
  have b: "getBenchmarkRow sample_readme sample_output ''B'' ''lad'' None = Inr ?base" by (simp add: sample_benchmark)
  have i: "inj_on row_key (set (rows_of sample_readme sample_output ''B'' ?base [''lad'', ''slog'']))" unfolding r by simp
  have f: "\<not> rows_fail sample_readme sample_output ''B'' ?base [''lad'', ''slog'']"
    by (simp add: rows_fail_def sample_benchmark)
  have m: "mset [''lad'', ''slog''] = mset [''slog'', ''lad'']" by (simp add: add_mset_commute)
  show ?thesis
    using getBenchmarkRows_order [OF sorts_rows_sort_key m sample_benchmark(1) b i] f unfolding table_of_def r by simp
qed

text \<open>
  Without a line for this library there is no baseline, which is no error: every other row is then
  compared with a time of zero.
\<close>

lemma missing_baseline:
  assumes "getBenchmarkRow R input name lib None = Inr (Some r)" and "0 < sint (br_Time r)"
  shows "row_String r = ''| '' @ markdown_name lib @ '' | '' @ dec_int (sint (br_Time r)) @ '' ns/op | +Inf% | '' @
    dec_int (AllocatedObjects r) @ '' allocs/op''"
  using assms by (auto simp: getBenchmarkRow_def Let_def row_String_def pct_def split: sum.splits if_splits)

end
