(* ===== verification/Lad_Sink.thy ===== *)
theory Lad_Sink
  imports Lad_Logger_Props
begin

text \<open>
  The registry of sinks (\<open>sink.go\<close>) and the opening of paths (\<open>writer.go\<close>).
\<close>

section \<open>What comes from outside\<close>

text \<open>
  Quoting as \<open>%q\<close> does it, the text of a URL, the splitting of an authority by \<open>net/url\<close> into user,
  host name and port, and the Unicode part of \<open>strings.ToLower\<close>.
\<close>

record authority =
  au_User :: bool
  au_Hostname :: bytes
  au_Port :: bytes

record url =
  u_Scheme :: bytes
  u_Opaque :: bytes
  u_User :: bool
  u_Hostname :: bytes
  u_Port :: bytes
  u_Path :: bytes
  u_RawQuery :: bytes
  u_Fragment :: bytes

record netenv =
  Quote :: "bytes \<Rightarrow> bytes"
  QuoteByte :: "char \<Rightarrow> bytes"
  URLString :: "url \<Rightarrow> bytes"
  parseAuthority :: "bytes \<Rightarrow> error + authority"
  lower_uni :: "bytes \<Rightarrow> bytes"

text \<open>
  The files of the process: which handles were opened for which paths and which were closed; the
  answer of \<open>os.OpenFile\<close> may depend on what was opened before.  A handle is the number of a sink.
\<close>

record os =
  os_next :: nat
  os_opened :: "(nat \<times> bytes) list"
  os_closed :: "nat list"
  os_refuse :: "(nat \<times> bytes) list \<Rightarrow> bytes \<Rightarrow> error option"

text \<open>\<open>os.OpenFile\<close> for appending, creating the file if necessary.\<close>

definition OpenFile :: "bytes \<Rightarrow> os \<Rightarrow> (error + nat) \<times> os" where
  "OpenFile path s =
     (case os_refuse s (os_opened s) path of
        Some e \<Rightarrow> (Inl e, s)
      | None \<Rightarrow> (Inr (os_next s), s\<lparr>os_next := os_next s + 1, os_opened := os_opened s @ [(os_next s, path)]\<rparr>))"

section \<open>URLs\<close>

text \<open>\<open>strings.Cut\<close>.\<close>

fun cut :: "char \<Rightarrow> bytes \<Rightarrow> bytes \<times> bytes" where
  "cut c [] = ([], [])"
| "cut c (x # xs) = (if x = c then ([], xs) else apfst ((#) x) (cut c xs))"

definition is_letter :: "char \<Rightarrow> bool" where
  "is_letter c \<longleftrightarrow> 97 \<le> bval c \<and> bval c \<le> 122 \<or> 65 \<le> bval c \<and> bval c \<le> 90"

definition scheme_char :: "char \<Rightarrow> bool" where
  "scheme_char c \<longleftrightarrow> is_letter c \<or> is_digit c \<or> c \<in> {CHR ''+'', CHR ''-'', CHR ''.''}"

text \<open>\<open>getScheme\<close> of \<open>net/url\<close>: the text in front of the first colon, if it looks like a scheme.\<close>

definition getScheme :: "bytes \<Rightarrow> error + bytes \<times> bytes" where
  "getScheme raw =
     (let pre = takeWhile scheme_char raw; rest = dropWhile scheme_char raw in
      if rest = [] \<or> hd rest \<noteq> CHR '':'' then Inr ([], raw)
      else if pre = [] then Inl (errors_new ''missing protocol scheme'')
      else if \<not> is_letter (hd pre) then Inr ([], raw)
      else Inr (pre, tl rest))"

definition is_hex :: "char \<Rightarrow> bool" where
  "is_hex c \<longleftrightarrow> is_digit c \<or> 97 \<le> bval c \<and> bval c \<le> 102 \<or> 65 \<le> bval c \<and> bval c \<le> 70"

definition unhex :: "char \<Rightarrow> nat" where
  "unhex c = (if is_digit c then bval c - 48 else if 97 \<le> bval c then bval c - 87 else bval c - 55)"

text \<open>Percent-decoding of paths and fragments.\<close>

fun unescape :: "bytes \<Rightarrow> error + bytes" where
  "unescape [] = Inr []"
| "unescape (c # s) =
     (if c \<noteq> CHR ''%'' then map_sum id ((#) c) (unescape s)
      else case s of
        a # b # r \<Rightarrow>
          if is_hex a \<and> is_hex b then map_sum id ((#) (byte (16 * unhex a + unhex b))) (unescape r)
          else Inl (errors_new (''invalid URL escape '' @ [CHR 0x22] @ [c, a, b] @ [CHR 0x22]))
      | _ \<Rightarrow> Inl (errors_new (''invalid URL escape '' @ [CHR 0x22] @ c # s @ [CHR 0x22])))"

definition is_ctl :: "char \<Rightarrow> bool" where
  "is_ctl c \<longleftrightarrow> bval c < 32 \<or> bval c = 127"

definition zeroURL :: url where
  "zeroURL = \<lparr>u_Scheme = [], u_Opaque = [], u_User = False, u_Hostname = [], u_Port = [], u_Path = [],
     u_RawQuery = [], u_Fragment = []\<rparr>"

text \<open>The authority and the path of a URL, behind the scheme and without the query.\<close>

definition parse_rest :: "netenv \<Rightarrow> url \<Rightarrow> bytes \<Rightarrow> error + url" where
  "parse_rest N u rest =
     (let setPath = (\<lambda>u p. map_sum id (\<lambda>p'. u\<lparr>u_Path := p'\<rparr>) (unescape p)) in
      if take 2 rest = ''//'' \<and> (u_Scheme u \<noteq> [] \<or> take 3 rest \<noteq> ''///'') then
        (let auth = takeWhile (\<lambda>c. c \<noteq> CHR ''/'') (drop 2 rest); p = dropWhile (\<lambda>c. c \<noteq> CHR ''/'') (drop 2 rest) in
         case parseAuthority N auth of
           Inl e \<Rightarrow> Inl e
         | Inr au \<Rightarrow> setPath (u\<lparr>u_User := au_User au, u_Hostname := au_Hostname au, u_Port := au_Port au\<rparr>) p)
      else setPath u rest)"

definition parse_nofrag :: "netenv \<Rightarrow> bytes \<Rightarrow> error + url" where
  "parse_nofrag N raw =
     (if list_ex is_ctl raw then Inl (errors_new ''net/url: invalid control character in URL'')
      else if raw = ''*'' then Inr (zeroURL\<lparr>u_Path := ''*''\<rparr>)
      else case getScheme raw of
        Inl e \<Rightarrow> Inl e
      | Inr (scheme, rest) \<Rightarrow>
          let u = zeroURL\<lparr>u_Scheme := map ascii_lower scheme\<rparr>;
              (rest, query) =
                (if rest \<noteq> [] \<and> last rest = CHR ''?'' \<and> count_list rest (CHR ''?'') = 1 then (butlast rest, [])
                 else cut (CHR ''?'') rest);
              u = u\<lparr>u_RawQuery := query\<rparr>
          in if take 1 rest \<noteq> ''/'' \<and> u_Scheme u \<noteq> [] then Inr (u\<lparr>u_Opaque := rest\<rparr>)
             else if take 1 rest \<noteq> ''/'' \<and> CHR '':'' \<in> set (fst (cut (CHR ''/'') rest))
               then Inl (errors_new ''first path segment in URL cannot contain colon'')
             else parse_rest N u rest)"

definition url_Parse :: "netenv \<Rightarrow> bytes \<Rightarrow> error + url" where
  "url_Parse N raw =
     (let (u, frag) = cut (CHR ''#'') raw;
          err = (\<lambda>t e. errors_new (''parse '' @ Quote N t @ '': '' @ err_fmt e)) in
      case parse_nofrag N u of
        Inl e \<Rightarrow> Inl (err u e)
      | Inr v \<Rightarrow>
          if frag = [] then Inr v
          else case unescape frag of
            Inl e \<Rightarrow> Inl (err raw e)
          | Inr f \<Rightarrow> Inr (v\<lparr>u_Fragment := f\<rparr>))"

text \<open>\<open>filepath.IsAbs\<close> on Unix.\<close>

definition IsAbs :: "bytes \<Rightarrow> bool" where
  "IsAbs p \<longleftrightarrow> take 1 p = ''/''"

section \<open>Sinks\<close>

text \<open>
  A \<open>Sink\<close> is a write syncer with \<open>Close\<close>: a standard stream behind \<open>nopCloserSink\<close>, an open file, or
  a sink of the user that is known to the process by a handle.
\<close>

datatype closable = nopCloserSink ws | FileSink nat | UserSink ws nat

primrec sink_ws :: "closable \<Rightarrow> ws" where
  "sink_ws (nopCloserSink w) = w"
| "sink_ws (FileSink h) = Sink h"
| "sink_ws (UserSink w h) = w"

primrec sink_Close :: "closable \<Rightarrow> os \<Rightarrow> os" where
  "sink_Close (nopCloserSink w) s = s"
| "sink_Close (FileSink h) s = s\<lparr>os_closed := os_closed s @ [h]\<rparr>"
| "sink_Close (UserSink w h) s = s\<lparr>os_closed := os_closed s @ [h]\<rparr>"

type_synonym factory = "url \<Rightarrow> os \<Rightarrow> (error + closable) \<times> os"

definition newFileSinkFromPath :: "bytes \<Rightarrow> os \<Rightarrow> (error + closable) \<times> os" where
  "newFileSinkFromPath path s =
     (if path = ''stdout'' then (Inr (nopCloserSink (Sink os_Stdout)), s)
      else if path = ''stderr'' then (Inr (nopCloserSink (Sink os_Stderr)), s)
      else apfst (map_sum id FileSink) (OpenFile path s))"

definition newFileSinkFromURL :: "netenv \<Rightarrow> factory" where
  "newFileSinkFromURL N u s =
     (if u_User u then
        (Inl (errors_new (''user and password not allowed with file URLs: got '' @ URLString N u)), s)
      else if u_Fragment u \<noteq> [] then
        (Inl (errors_new (''fragments not allowed with file URLs: got '' @ URLString N u)), s)
      else if u_RawQuery u \<noteq> [] then
        (Inl (errors_new (''query parameters not allowed with file URLs: got '' @ URLString N u)), s)
      else if u_Port u \<noteq> [] then
        (Inl (errors_new (''ports not allowed with file URLs: got '' @ URLString N u)), s)
      else if u_Hostname u \<noteq> [] \<and> u_Hostname u \<noteq> ''localhost'' then
        (Inl (errors_new (''file URLs must leave host empty or use localhost: got '' @ URLString N u)), s)
      else newFileSinkFromPath (u_Path u) s)"

section \<open>The registry\<close>

record sinkRegistry =
  factories :: "bytes \<Rightarrow> factory option"

definition schemeFile :: bytes where "schemeFile = ''file''"

definition lower_letter :: "char \<Rightarrow> bool" where
  "lower_letter c \<longleftrightarrow> 97 \<le> bval c \<and> bval c \<le> 122"

definition scheme_rest_ok :: "char \<Rightarrow> bool" where
  "scheme_rest_ok c \<longleftrightarrow> lower_letter c \<or> is_digit c \<or> c \<in> {CHR ''.'', CHR ''+'', CHR ''-''}"

text \<open>The index \<open>s[0]\<close> panics for an empty text.\<close>

definition normalizeScheme :: "netenv \<Rightarrow> bytes \<Rightarrow> (error + bytes) outcome" where
  "normalizeScheme N s =
     (case ToLower (lower_uni N) s of
        [] \<Rightarrow> Panic ''index out of range''
      | first # r \<Rightarrow>
          if \<not> lower_letter first then Ok (Inl (errors_new ''must start with a letter''))
          else (case find (\<lambda>c. \<not> scheme_rest_ok c) r of
                  Some c \<Rightarrow> Ok (Inl (errors_new (''may not contain '' @ QuoteByte N c)))
                | None \<Rightarrow> Ok (Inr (first # r))))"

definition RegisterSink ::
  "netenv \<Rightarrow> bytes \<Rightarrow> factory \<Rightarrow> sinkRegistry \<Rightarrow> error option outcome \<times> sinkRegistry" where
  "RegisterSink N scheme fac sr =
     (if scheme = [] then (Ok (Some (errors_new ''can't register a sink factory for empty string'')), sr)
      else case normalizeScheme N scheme of
        Panic m \<Rightarrow> (Panic m, sr)
      | Ok (Inl e) \<Rightarrow> (Ok (Some (errors_new (Quote N scheme @ '' is not a valid scheme: '' @ err_fmt e))), sr)
      | Ok (Inr normalized) \<Rightarrow>
          if factories sr normalized \<noteq> None then
            (Ok (Some (errors_new (''sink factory already registered for scheme '' @ Quote N normalized))), sr)
          else (Ok None, sr\<lparr>factories := (factories sr)(normalized \<mapsto> fac)\<rparr>))"

definition newSinkRegistry :: "netenv \<Rightarrow> sinkRegistry" where
  "newSinkRegistry N =
     snd (RegisterSink N schemeFile (newFileSinkFromURL N) \<lparr>factories = Map.empty\<rparr>)"

definition newSink :: "netenv \<Rightarrow> sinkRegistry \<Rightarrow> bytes \<Rightarrow> os \<Rightarrow> (error + closable) \<times> os" where
  "newSink N sr rawURL s =
     (if IsAbs rawURL then newFileSinkFromPath rawURL s
      else case url_Parse N rawURL of
        Inl e \<Rightarrow> (Inl (errors_new (''can't parse '' @ Quote N rawURL @ '' as a URL: '' @ err_fmt e)), s)
      | Inr u \<Rightarrow>
          let u = (if u_Scheme u = [] then u\<lparr>u_Scheme := schemeFile\<rparr> else u) in
          (case factories sr (u_Scheme u) of
             None \<Rightarrow> (Inl (errors_new (''no sink found for scheme '' @ Quote N (u_Scheme u))), s)
           | Some fac \<Rightarrow> fac u s))"

section \<open>Opening paths\<close>

definition CombineWriteSyncers :: "ws list \<Rightarrow> ws" where
  "CombineWriteSyncers writers =
     (if writers = [] then AddSync (NoSync io_Discard) else Lock (NewMultiWriteSyncer writers))"

definition closeAll :: "closable list \<Rightarrow> os \<Rightarrow> os" where
  "closeAll cs s = fold sink_Close cs s"

text \<open>The loop of \<open>open\<close>: the sinks opened so far and the error.\<close>

primrec open_loop ::
  "'v env \<Rightarrow> netenv \<Rightarrow> sinkRegistry \<Rightarrow> bytes list \<Rightarrow> closable list \<Rightarrow> error option \<Rightarrow> os \<Rightarrow>
   (closable list \<times> error option) \<times> os" where
  "open_loop E N sr [] opened openErr s = ((opened, openErr), s)"
| "open_loop E N sr (path # paths) opened openErr s =
     (case newSink N sr path s of
        (Inl err, s') \<Rightarrow>
          open_loop E N sr paths opened
            (multierr_Append E openErr (Some (errors_new (''open sink '' @ Quote N path @ '': '' @ err_fmt err)))) s'
      | (Inr k, s') \<Rightarrow> open_loop E N sr paths (opened @ [k]) openErr s')"

text \<open>The function that closes everything is represented by the sinks that it closes.\<close>

definition open_paths ::
  "'v env \<Rightarrow> netenv \<Rightarrow> sinkRegistry \<Rightarrow> bytes list \<Rightarrow> os \<Rightarrow> (error + ws list \<times> closable list) \<times> os" where
  "open_paths E N sr paths s =
     (case open_loop E N sr paths [] None s of
        ((cs, Some e), s') \<Rightarrow> (Inl e, closeAll cs s')
      | ((cs, None), s') \<Rightarrow> (Inr (map sink_ws cs, cs), s'))"

definition Open ::
  "'v env \<Rightarrow> netenv \<Rightarrow> sinkRegistry \<Rightarrow> bytes list \<Rightarrow> os \<Rightarrow> (error + ws \<times> closable list) \<times> os" where
  "Open E N sr paths s = apfst (map_sum id (apfst CombineWriteSyncers)) (open_paths E N sr paths s)"

section \<open>The contract of a factory\<close>

text \<open>
  A factory that makes a sink has opened exactly what \<open>Close\<close> of the sink closes, and one that
  fails leaves nothing open.
\<close>

primrec handles :: "closable \<Rightarrow> nat list" where
  "handles (nopCloserSink w) = []"
| "handles (FileSink h) = [h]"
| "handles (UserSink w h) = [h]"

text \<open>The handles that a step from one state of the process to another has opened.\<close>

definition opens :: "nat list \<Rightarrow> os \<Rightarrow> os \<Rightarrow> bool" where
  "opens hs s s' \<longleftrightarrow> (\<exists>ps. os_opened s' = os_opened s @ ps \<and> map fst ps = hs) \<and> os_closed s' = os_closed s"

lemma opens_refl [simp]: "opens [] s s"
  by (simp add: opens_def)

lemma opens_trans: "opens hs s s' \<Longrightarrow> opens hs' s' s'' \<Longrightarrow> opens (hs @ hs') s s''"
  by (auto simp: opens_def)

definition result_handles :: "error + closable \<Rightarrow> nat list" where
  "result_handles r = (case r of Inl e \<Rightarrow> [] | Inr k \<Rightarrow> handles k)"

locale sink_factory =
  fixes fac :: factory
  assumes accounts: "fac u s = (r, s') \<Longrightarrow> opens (result_handles r) s s'"
begin

lemma failure_opens_nothing: "fac u s = (Inl e, s') \<Longrightarrow> opens [] s s'"
  using accounts [of u s "Inl e" s'] by (simp add: result_handles_def)

lemma success_opens_sink: "fac u s = (Inr k, s') \<Longrightarrow> opens (handles k) s s'"
  using accounts [of u s "Inr k" s'] by (simp add: result_handles_def)

end

lemma newFileSinkFromPath_opens:
  "newFileSinkFromPath path s = (r, s') \<Longrightarrow> opens (result_handles r) s s'"
  by (auto simp: newFileSinkFromPath_def OpenFile_def opens_def result_handles_def split: if_splits option.splits)

interpretation file_factory: sink_factory "newFileSinkFromURL N" for N
  by unfold_locales
    (auto simp: newFileSinkFromURL_def result_handles_def dest: newFileSinkFromPath_opens split: if_splits)

definition registry_ok :: "sinkRegistry \<Rightarrow> bool" where
  "registry_ok sr \<longleftrightarrow> (\<forall>scheme fac. factories sr scheme = Some fac \<longrightarrow> sink_factory fac)"

lemma RegisterSink_ok:
  assumes "registry_ok sr" and "sink_factory fac"
  shows "registry_ok (snd (RegisterSink N scheme fac sr))"
  using assms by (auto simp: RegisterSink_def registry_ok_def split: outcome.splits sum.splits)

lemma newSinkRegistry_ok: "registry_ok (newSinkRegistry N)"
  unfolding newSinkRegistry_def
  by (rule RegisterSink_ok) (simp_all add: registry_ok_def file_factory.sink_factory_axioms)

lemma newSink_opens:
  assumes "registry_ok sr" and "newSink N sr path s = (r, s')"
  shows "opens (result_handles r) s s'"
proof -
  have "opens (result_handles r) s s'" if "factories sr sch = Some fac" "fac u s = (r, s')" for sch fac u
    using assms(1) that sink_factory.accounts unfolding registry_ok_def by blast
  then show ?thesis
    using assms(2)
    by (auto simp: newSink_def Let_def result_handles_def dest: newFileSinkFromPath_opens
        split: if_splits sum.splits option.splits)
qed

lemma open_loop_opens:
  assumes "multierr_ok E" and "registry_ok sr" and "open_loop E N sr paths cs err s = ((cs', err'), s')"
  shows "\<exists>ks. cs' = cs @ ks \<and> opens (concat (map handles ks)) s s' \<and>
    (err' = None \<longrightarrow> err = None \<and> length ks = length paths)"
  using assms(3)
proof (induction paths arbitrary: cs err s)
  case (Cons path paths)
  obtain r s1 where r: "newSink N sr path s = (r, s1)" by fastforce
  note o = newSink_opens [OF assms(2) r]
  show ?case
  proof (cases r)
    case (Inl e)
    with Cons.IH [of cs _ s1] Cons.prems r o show ?thesis
      by (fastforce simp: result_handles_def multierr_simps [OF assms(1)] dest: opens_trans)
  next
    case (Inr k)
    with Cons.IH [of "cs @ [k]" err s1] Cons.prems r
    obtain ks where ks: "cs' = cs @ k # ks" "opens (concat (map handles ks)) s1 s'"
      "err' = None \<longrightarrow> err = None \<and> length ks = length paths"
      by auto
    then have "opens (concat (map handles (k # ks))) s s'"
      using o Inr opens_trans [of "handles k" s s1 "concat (map handles ks)" s'] by (simp add: result_handles_def)
    with ks show ?thesis by (intro exI [of _ "k # ks"]) simp
  qed
qed simp

lemma closeAll_os:
  "os_opened (closeAll cs s) = os_opened s \<and> os_closed (closeAll cs s) = os_closed s @ concat (map handles cs)"
proof (induction cs arbitrary: s)
  case (Cons k cs)
  then show ?case by (cases k) (simp_all add: closeAll_def)
qed (simp add: closeAll_def)

lemma Open_opens:
  assumes "multierr_ok E" and "registry_ok sr" and "Open E N sr paths s = (r, s')"
  shows "case r of
      Inl e \<Rightarrow> \<exists>ps. os_opened s' = os_opened s @ ps \<and> os_closed s' = os_closed s @ map fst ps
    | Inr (w, cs) \<Rightarrow> opens (concat (map handles cs)) s s' \<and> length cs = length paths \<and>
        w = CombineWriteSyncers (map sink_ws cs)"
proof -
  obtain cs err s1 where l: "open_loop E N sr paths [] None s = ((cs, err), s1)" by (metis prod.exhaust)
  from open_loop_opens [OF assms(1,2) l] have "opens (concat (map handles cs)) s s1"
    and "err = None \<longrightarrow> length cs = length paths" by auto
  then show ?thesis
    using assms(3) l closeAll_os [of cs s1]
    by (cases err) (auto simp: Open_def open_paths_def opens_def)
qed

section \<open>Schemes\<close>

lemma ascii_lower_eq_iff: "lower_letter (ascii_lower c) \<longleftrightarrow> is_letter c"
  by (auto simp: lower_letter_def ascii_lower_def is_letter_def)

lemma ascii_lower_other: "\<not> is_letter c \<Longrightarrow> ascii_lower c = c"
  by (auto simp: is_letter_def ascii_lower_def)

lemma scheme_char_lower: "scheme_rest_ok (ascii_lower c) \<longleftrightarrow> scheme_char c"
proof (cases "is_letter c")
  case True
  then show ?thesis by (simp add: scheme_rest_ok_def scheme_char_def ascii_lower_eq_iff)
next
  case False
  then show ?thesis
    using ascii_lower_eq_iff [of c] by (auto simp: scheme_rest_ok_def scheme_char_def ascii_lower_other)
qed

text \<open>The schemes that RFC 3986 allows.\<close>

definition valid_scheme :: "bytes \<Rightarrow> bool" where
  "valid_scheme s \<longleftrightarrow> s \<noteq> [] \<and> is_letter (hd s) \<and> list_all scheme_char s"

lemma normalizeScheme_ascii:
  assumes "s \<noteq> []" and "\<forall>c \<in> set s. bval c < 128"
  shows "(\<exists>n. normalizeScheme N s = Ok (Inr n)) \<longleftrightarrow> valid_scheme s"
    and "normalizeScheme N s = Ok (Inr n) \<Longrightarrow> n = map ascii_lower s"
proof -
  obtain c r where s: "s = c # r" using assms(1) by (cases s) auto
  have f: "find (\<lambda>c. \<not> scheme_rest_ok c) (map ascii_lower r) = None \<longleftrightarrow> list_all scheme_char r"
    by (simp add: find_None_iff list_all_iff scheme_char_lower)
  have l: "is_letter c \<Longrightarrow> scheme_char c" by (simp add: scheme_char_def)
  show "(\<exists>n. normalizeScheme N s = Ok (Inr n)) \<longleftrightarrow> valid_scheme s"
    using assms(2) f l by (auto simp: s normalizeScheme_def ToLower_def valid_scheme_def ascii_lower_eq_iff
        split: option.splits)
  show "normalizeScheme N s = Ok (Inr n) \<Longrightarrow> n = map ascii_lower s"
    using assms(2) by (auto simp: s normalizeScheme_def ToLower_def split: if_splits option.splits)
qed

lemma getScheme_valid: "valid_scheme s \<Longrightarrow> getScheme (s @ CHR '':'' # rest) = Inr (s, rest)"
proof -
  assume v: "valid_scheme s"
  have c: "\<not> scheme_char (CHR '':'')" by (simp add: scheme_char_def is_letter_def is_digit_def)
  have "takeWhile scheme_char (s @ CHR '':'' # rest) = s" "dropWhile scheme_char (s @ CHR '':'' # rest) = CHR '':'' # rest"
    using v c by (auto simp: valid_scheme_def list_all_iff takeWhile_append2 dropWhile_append2)
  then show ?thesis using v by (simp add: getScheme_def valid_scheme_def)
qed

lemma parse_rest_scheme: "parse_rest N u rest = Inr v \<Longrightarrow> u_Scheme v = u_Scheme u"
proof -
  have m: "map_sum id f x = Inr v \<longleftrightarrow> (\<exists>y. x = Inr y \<and> f y = v)" for f :: "bytes \<Rightarrow> url" and x :: "error + bytes"
    by (cases x) auto
  show "parse_rest N u rest = Inr v \<Longrightarrow> u_Scheme v = u_Scheme u"
    by (auto simp: parse_rest_def Let_def m split: if_splits sum.splits)
qed

lemma parse_nofrag_scheme:
  assumes "valid_scheme s" and "parse_nofrag N (s @ CHR '':'' # rest) = Inr u"
  shows "u_Scheme u = map ascii_lower s"
proof -
  have "s @ CHR '':'' # rest \<noteq> ''*''" using assms(1) by (auto simp: valid_scheme_def append_eq_Cons_conv)
  then show ?thesis
    using assms by (auto simp: parse_nofrag_def getScheme_valid Let_def split: if_splits prod.splits dest!: parse_rest_scheme)
qed

lemma cut_append: "c \<notin> set a \<Longrightarrow> cut c (a @ b) = apfst ((@) a) (cut c b)"
  by (induction a) (auto simp: apfst_def map_prod_def split_def)

lemma url_Parse_scheme:
  assumes "valid_scheme s" and "url_Parse N (s @ CHR '':'' # rest) = Inr u"
  shows "u_Scheme u = map ascii_lower s"
proof -
  have h: "CHR ''#'' \<notin> set s"
    using assms(1) by (auto simp: valid_scheme_def list_all_iff scheme_char_def is_letter_def is_digit_def)
  obtain a b where "cut (CHR ''#'') rest = (a, b)" by fastforce
  then have "cut (CHR ''#'') (s @ CHR '':'' # rest) = (s @ CHR '':'' # a, b)"
    using cut_append [OF h, of "CHR '':'' # rest"] by simp
  then show ?thesis
    using assms by (auto simp: url_Parse_def split: sum.splits if_splits dest!: parse_nofrag_scheme)
qed

lemma newSinkRegistry_file: "factories (newSinkRegistry N) schemeFile = Some (newFileSinkFromURL N)"
  by (simp add: newSinkRegistry_def RegisterSink_def normalizeScheme_def schemeFile_def ToLower_def ascii_lower_def
      lower_letter_def scheme_rest_ok_def)

lemma newSink_abs: "IsAbs path \<Longrightarrow> newSink N sr path s = newFileSinkFromPath path s"
  by (simp add: newSink_def)

lemma newSink_stderr:
  "factories sr schemeFile = Some (newFileSinkFromURL N) \<Longrightarrow>
   newSink N sr ''stderr'' s = (Inr (nopCloserSink (Sink os_Stderr)), s)"
  by (simp add: newSink_def IsAbs_def url_Parse_def parse_nofrag_def is_ctl_def getScheme_def scheme_char_def is_letter_def
      zeroURL_def parse_rest_def newFileSinkFromURL_def newFileSinkFromPath_def)

section \<open>Properties\<close>


definition sample_net :: netenv where
  "sample_net = \<lparr>Quote = (\<lambda>s. [CHR 0x22] @ s @ [CHR 0x22]), QuoteByte = (\<lambda>c. [c]), URLString = u_Path,
     parseAuthority = (\<lambda>h. Inr \<lparr>au_User = False, au_Hostname = h, au_Port = []\<rparr>), lower_uni = id\<rparr>"

definition sample_os :: os where
  "sample_os = \<lparr>os_next = 10, os_opened = [], os_closed = [],
     os_refuse = (\<lambda>h p. if p = ''/b'' then Some (errors_new ''denied'') else None)\<rparr>"


text \<open>
  C35: registering a sink.  An ASCII scheme is accepted exactly if it is valid under RFC 3986 and not
  taken, where upper and lower case are the same.  From then on every URL with that scheme, in
  whatever case, goes to the factory, no other scheme is affected, and the scheme cannot be
  registered again.
\<close>

theorem RegisterSink_newSink:
  assumes "\<forall>c \<in> set scheme. bval c < 128" and "RegisterSink N scheme fac sr = (r, sr')"
  shows "(r = Ok None \<longleftrightarrow> valid_scheme scheme \<and> factories sr (map ascii_lower scheme) = None) \<and>
    (r = Ok None \<longrightarrow>
      (\<forall>scheme' rest u s. valid_scheme scheme' \<and> map ascii_lower scheme' = map ascii_lower scheme \<and>
          url_Parse N (scheme' @ CHR '':'' # rest) = Inr u \<longrightarrow>
        newSink N sr' (scheme' @ CHR '':'' # rest) s = fac u s) \<and>
      (\<forall>other. other \<noteq> map ascii_lower scheme \<longrightarrow> factories sr' other = factories sr other) \<and>
      (\<forall>fac'. fst (RegisterSink N scheme fac' sr') \<noteq> Ok None))"
proof (cases "scheme = []")
  case True
  then show ?thesis using assms(2) by (auto simp: RegisterSink_def valid_scheme_def)
next
  case False
  note n = normalizeScheme_ascii [OF False assms(1), of N]
  have new: "newSink N sr'' (scheme' @ CHR '':'' # rest) s = fac u s"
    if "valid_scheme scheme'" "url_Parse N (scheme' @ CHR '':'' # rest) = Inr u"
      "factories sr'' (map ascii_lower scheme') = Some fac" for scheme' rest u s sr''
  proof -
    have "\<not> IsAbs (scheme' @ CHR '':'' # rest)" "scheme' \<noteq> []"
      using that(1) by (cases scheme'; auto simp: IsAbs_def valid_scheme_def is_letter_def)+
    then show ?thesis using that url_Parse_scheme [OF that(1,2)] by (simp add: newSink_def Let_def)
  qed
  show ?thesis
  proof (cases "normalizeScheme N scheme")
    case (Ok x)
    then show ?thesis
      using n assms(2) False new by (cases x) (fastforce simp: RegisterSink_def split: if_splits)+
  next
    case (Panic m)
    then show ?thesis using n assms(2) False by (auto simp: RegisterSink_def)
  qed
qed

theorem RegisterSink_newSink_witness:
  "fst (RegisterSink sample_net ''Mem'' (\<lambda>u s. (Inr (UserSink (Sink 7) 7), s)) (newSinkRegistry sample_net)) = Ok None \<and>
   newSink sample_net (snd (RegisterSink sample_net ''Mem'' (\<lambda>u s. (Inr (UserSink (Sink 7) 7), s)) (newSinkRegistry sample_net)))
     ''mEM:x'' sample_os = (Inr (UserSink (Sink 7) 7), sample_os)"
proof -
  let ?fac = "\<lambda>u s. (Inr (UserSink (Sink 7) 7), s)"
  obtain r sr' where r: "RegisterSink sample_net ''Mem'' ?fac (newSinkRegistry sample_net) = (r, sr')" by fastforce
  have v: "valid_scheme ''Mem''" "valid_scheme ''mEM''" "factories (newSinkRegistry sample_net) (map ascii_lower ''Mem'') = None"
    by (simp_all add: valid_scheme_def is_letter_def scheme_char_def newSinkRegistry_def RegisterSink_def normalizeScheme_def
        schemeFile_def ToLower_def ascii_lower_def lower_letter_def scheme_rest_ok_def)
  have p: "url_Parse sample_net (''mEM'' @ CHR '':'' # ''x'') = Inr (zeroURL\<lparr>u_Scheme := map ascii_lower ''mEM'', u_Opaque := ''x''\<rparr>)"
    using getScheme_valid [OF v(2), of "''x''"]
    by (simp add: url_Parse_def parse_nofrag_def is_ctl_def zeroURL_def)
  have l: "map ascii_lower ''mEM'' = map ascii_lower ''Mem''" by (simp add: ascii_lower_def) (rule sym, simp)
  have a: "\<forall>c \<in> set ''Mem''. bval c < 128" by simp
  have "r = Ok None" using RegisterSink_newSink [OF a r] v by simp
  moreover have "newSink sample_net sr' (''mEM'' @ CHR '':'' # ''x'') sample_os = ?fac undefined sample_os"
    using RegisterSink_newSink [OF a r] calculation v(2) p l by blast
  ultimately show ?thesis using r by simp
qed

end
