(* ===== verification/Lad_Config.thy ===== *)
theory Lad_Config
  imports Lad_Sink "HOL-Library.Char_ord" "HOL-Library.List_Lexorder" "HOL-Library.Multiset"
begin

text \<open>
  The registry of encoders (\<open>encoder.go\<close>), the configuration of a logger (\<open>config.go\<close>) and the
  ready-made loggers of \<open>logger.go\<close>.
\<close>

section \<open>Encoders by name\<close>

type_synonym 'v constructor = "'v EncoderConfig \<Rightarrow> error + 'v encoder"

definition encoderNameToConstructor :: "'v env \<Rightarrow> bytes \<Rightarrow> 'v constructor option" where
  "encoderNameToConstructor E =
     [''console'' \<mapsto> (\<lambda>c. Inr (ConsoleEnc (NewConsoleEncoder E c))),
      ''json'' \<mapsto> (\<lambda>c. Inr (JSONEnc (NewJSONEncoder E c)))]"

definition errNoEncoderNameSpecified :: error where
  "errNoEncoderNameSpecified = errors_new ''no encoder name specified''"

definition RegisterEncoder ::
  "netenv \<Rightarrow> bytes \<Rightarrow> 'v constructor \<Rightarrow> (bytes \<Rightarrow> 'v constructor option) \<Rightarrow>
   error option \<times> (bytes \<Rightarrow> 'v constructor option)" where
  "RegisterEncoder N name ctor encs =
     (if name = [] then (Some errNoEncoderNameSpecified, encs)
      else if encs name \<noteq> None then
        (Some (errors_new (''encoder already registered for name '' @ Quote N name)), encs)
      else (None, encs(name \<mapsto> ctor)))"

definition newEncoder ::
  "netenv \<Rightarrow> (bytes \<Rightarrow> 'v constructor option) \<Rightarrow> bytes \<Rightarrow> 'v EncoderConfig \<Rightarrow> error + 'v encoder" where
  "newEncoder N encs name c =
     (if TimeKey c \<noteq> [] \<and> EncodeTime c = None then Inl (errors_new ''missing EncodeTime in EncoderConfig'')
      else if name = [] then Inl errNoEncoderNameSpecified
      else case encs name of
        None \<Rightarrow> Inl (errors_new (''no encoder registered for name '' @ Quote N name))
      | Some ctor \<Rightarrow> ctor c)"

section \<open>Configurations\<close>

record SamplingConfig =
  Initial :: int64
  Thereafter :: int64
  SamplingHook :: "nat option"

text \<open>
  \<open>cfg_Level\<close> is the cell of the atomic level, \<open>None\<close> for the zero value.  The map of initial fields
  is given by its entries in the order in which \<open>range\<close> happens to visit them.
\<close>

record 'v Config =
  cfg_Level :: "nat option"
  cfg_Development :: bool
  DisableCaller :: bool
  DisableStacktrace :: bool
  Sampling :: "SamplingConfig option"
  Encoding :: bytes
  cfg_EncoderConfig :: "'v EncoderConfig"
  OutputPaths :: "bytes list"
  ErrorOutputPaths :: "bytes list"
  InitialFields :: "(bytes \<times> 'v anyval) list"

definition NewProductionEncoderConfig :: "'v EncoderConfig" where
  "NewProductionEncoderConfig = \<lparr>MessageKey = ''msg'', LevelKey = ''level'', TimeKey = ''ts'', NameKey = ''logger'',
     CallerKey = ''caller'', FunctionKey = [], StacktraceKey = ''stacktrace'', SkipLineEnding = False,
     LineEnding = DefaultLineEnding, EncodeLevel = Some LowercaseLevelEncoder, EncodeTime = Some EpochTimeEncoder,
     EncodeDuration = Some SecondsDurationEncoder, EncodeCaller = Some ShortCallerEncoder, EncodeName = None,
     NewReflectedEncoder = None, ConsoleSeparator = []\<rparr>"

text \<open>A new atomic level gets the fresh cell \<open>a\<close>.\<close>

definition NewProductionConfig :: "nat \<Rightarrow> atomics \<Rightarrow> 'v Config \<times> atomics" where
  "NewProductionConfig a st =
     (\<lparr>cfg_Level = Some a, cfg_Development = False, DisableCaller = False, DisableStacktrace = False,
       Sampling = Some \<lparr>Initial = 100, Thereafter = 100, SamplingHook = None\<rparr>, Encoding = ''json'',
       cfg_EncoderConfig = NewProductionEncoderConfig, OutputPaths = [''stderr''],
       ErrorOutputPaths = [''stderr''], InitialFields = []\<rparr>, NewAtomicLevelAt a InfoLevel st)"

definition NewDevelopmentEncoderConfig :: "'v env \<Rightarrow> 'v EncoderConfig" where
  "NewDevelopmentEncoderConfig E = \<lparr>MessageKey = ''M'', LevelKey = ''L'', TimeKey = ''T'', NameKey = ''N'',
     CallerKey = ''C'', FunctionKey = [], StacktraceKey = ''S'', SkipLineEnding = False,
     LineEnding = DefaultLineEnding, EncodeLevel = Some CapitalLevelEncoder, EncodeTime = Some ISO8601TimeEncoder,
     EncodeDuration = Some (StringDurationEncoder E), EncodeCaller = Some ShortCallerEncoder, EncodeName = None,
     NewReflectedEncoder = None, ConsoleSeparator = []\<rparr>"

definition NewDevelopmentConfig :: "'v env \<Rightarrow> nat \<Rightarrow> atomics \<Rightarrow> 'v Config \<times> atomics" where
  "NewDevelopmentConfig E a st =
     (\<lparr>cfg_Level = Some a, cfg_Development = True, DisableCaller = False, DisableStacktrace = False,
       Sampling = None, Encoding = ''console'', cfg_EncoderConfig = NewDevelopmentEncoderConfig E,
       OutputPaths = [''stderr''], ErrorOutputPaths = [''stderr''], InitialFields = []\<rparr>,
      NewAtomicLevelAt a DebugLevel st)"

definition time_Second :: int64 where "time_Second = 1000000000"

definition initial_fields :: "(bytes \<times> 'v anyval) list \<Rightarrow> 'v Field list" where
  "initial_fields m = map (\<lambda>k. Any k (the (map_of m k))) (sort (map fst m))"

text \<open>The sampler gets the fresh counters \<open>i\<close>.\<close>

definition buildOptions :: "'v Config \<Rightarrow> nat \<Rightarrow> ws \<Rightarrow> 'v Option list" where
  "buildOptions c i errSink =
     [ErrorOutputOpt errSink] @
     (if cfg_Development c then [Development] else []) @
     (if \<not> DisableCaller c then [AddCaller] else []) @
     (if \<not> DisableStacktrace c
      then [AddStacktrace (LevelE (if cfg_Development c then WarnLevel else ErrorLevel))] else []) @
     (case Sampling c of
        None \<Rightarrow> []
      | Some sc \<Rightarrow>
          [WrapCore (\<lambda>core. NewSamplerWithOptions i core time_Second (Initial sc) (Thereafter sc)
             (case SamplingHook sc of None \<Rightarrow> [] | Some h \<Rightarrow> [h]))]) @
     (if InitialFields c \<noteq> [] then [Fields (initial_fields (InitialFields c))] else [])"

definition openSinks ::
  "'v env \<Rightarrow> netenv \<Rightarrow> sinkRegistry \<Rightarrow> 'v Config \<Rightarrow> os \<Rightarrow> (error + ws \<times> ws) \<times> os" where
  "openSinks E N sr c s =
     (case Open E N sr (OutputPaths c) s of
        (Inl e, s') \<Rightarrow> (Inl e, s')
      | (Inr (out, cs), s') \<Rightarrow>
          (case Open E N sr (ErrorOutputPaths c) s' of
             (Inl e, s'') \<Rightarrow> (Inl e, closeAll cs s'')
           | (Inr (errOut, _), s'') \<Rightarrow> (Inr (out, errOut), s'')))"

definition buildEncoder ::
  "netenv \<Rightarrow> (bytes \<Rightarrow> 'v constructor option) \<Rightarrow> 'v Config \<Rightarrow> error + 'v encoder" where
  "buildEncoder N encs c = newEncoder N encs (Encoding c) (cfg_EncoderConfig c)"

definition Build ::
  "'v env \<Rightarrow> netenv \<Rightarrow> (bytes \<Rightarrow> 'v constructor option) \<Rightarrow> sinkRegistry \<Rightarrow> 'v Config \<Rightarrow> nat \<Rightarrow> 'v Option list \<Rightarrow>
   os \<Rightarrow> ('v, 'z) world_scheme \<Rightarrow> (error + 'v Logger) outcome \<times> os \<times> ('v, 'z) world_scheme" where
  "Build E N encs sr c i opts s w =
     (case buildEncoder N encs c of
        Inl e \<Rightarrow> (Ok (Inl e), s, w)
      | Inr enc \<Rightarrow>
          (case openSinks E N sr c s of
             (Inl e, s') \<Rightarrow> (Ok (Inl e), s', w)
           | (Inr (out, errOut), s') \<Rightarrow>
               (case cfg_Level c of
                  None \<Rightarrow> (Ok (Inl (errors_new ''missing Level'')), s', w)
                | Some a \<Rightarrow>
                    (case Logger_New E (Some (NewCore enc out (AtomicE a))) (buildOptions c i errOut) w of
                       (Panic m, w') \<Rightarrow> (Panic m, s', w')
                     | (Ok log, w') \<Rightarrow>
                         (case WithOptions E opts log w' of
                            (Panic m, w'') \<Rightarrow> (Panic m, s', w'')
                          | (Ok log', w'') \<Rightarrow> (Ok (Inr log'), s', w''))))))"

section \<open>Ready-made loggers\<close>

definition NewProduction ::
  "'v env \<Rightarrow> netenv \<Rightarrow> (bytes \<Rightarrow> 'v constructor option) \<Rightarrow> sinkRegistry \<Rightarrow> nat \<Rightarrow> nat \<Rightarrow> 'v Option list \<Rightarrow>
   os \<Rightarrow> ('v, 'z) world_scheme \<Rightarrow> (error + 'v Logger) outcome \<times> os \<times> ('v, 'z) world_scheme" where
  "NewProduction E N encs sr a i opts s w =
     (case NewProductionConfig a (cells w) of
        (c, st) \<Rightarrow> Build E N encs sr c i opts s (w\<lparr>cells := st\<rparr>))"

definition NewDevelopment ::
  "'v env \<Rightarrow> netenv \<Rightarrow> (bytes \<Rightarrow> 'v constructor option) \<Rightarrow> sinkRegistry \<Rightarrow> nat \<Rightarrow> nat \<Rightarrow> 'v Option list \<Rightarrow>
   os \<Rightarrow> ('v, 'z) world_scheme \<Rightarrow> (error + 'v Logger) outcome \<times> os \<times> ('v, 'z) world_scheme" where
  "NewDevelopment E N encs sr a i opts s w =
     (case NewDevelopmentConfig E a (cells w) of
        (c, st) \<Rightarrow> Build E N encs sr c i opts s (w\<lparr>cells := st\<rparr>))"

definition Must :: "error + 'v Logger \<Rightarrow> 'v Logger outcome" where
  "Must r = (case r of Inl e \<Rightarrow> Panic (err_text e) | Inr log \<Rightarrow> Ok log)"

definition NewExample ::
  "'v env \<Rightarrow> 'v Option list \<Rightarrow> ('v, 'z) world_scheme \<Rightarrow> 'v Logger outcome \<times> ('v, 'z) world_scheme" where
  "NewExample E opts w =
     (let c = \<lparr>MessageKey = ''msg'', LevelKey = ''level'', TimeKey = [], NameKey = ''logger'', CallerKey = [],
            FunctionKey = [], StacktraceKey = [], SkipLineEnding = False, LineEnding = [],
            EncodeLevel = Some LowercaseLevelEncoder, EncodeTime = Some ISO8601TimeEncoder,
            EncodeDuration = Some (StringDurationEncoder E), EncodeCaller = None, EncodeName = None,
            NewReflectedEncoder = None, ConsoleSeparator = []\<rparr>;
          core = NewCore (JSONEnc (NewJSONEncoder E c)) (Sink os_Stdout) (LevelE DebugLevel)
      in case Logger_New E (Some core) [] w of
           (Ok log, w') \<Rightarrow> WithOptions E opts log w'
         | (Panic m, w') \<Rightarrow> (Panic m, w'))"

section \<open>What a failed Build leaves open\<close>

text \<open>Between two states of the process, everything that was opened was closed again.\<close>

definition cleaned :: "os \<Rightarrow> os \<Rightarrow> bool" where
  "cleaned s s' \<longleftrightarrow>
     (\<exists>ps. os_opened s' = os_opened s @ ps \<and> mset (os_closed s') = mset (os_closed s) + mset (map fst ps))"

lemma cleaned_refl [simp]: "cleaned s s"
  by (simp add: cleaned_def)

lemma opens_cleaned:
  assumes "opens (concat (map handles cs)) s s1" and "cleaned s1 s2"
  shows "cleaned s (closeAll cs s2)"
proof -
  obtain ps where ps: "os_opened s1 = os_opened s @ ps" "map fst ps = concat (map handles cs)"
    "os_closed s1 = os_closed s" using assms(1) by (auto simp: opens_def)
  obtain qs where "os_opened s2 = os_opened s1 @ qs" "mset (os_closed s2) = mset (os_closed s1) + mset (map fst qs)"
    using assms(2) by (auto simp: cleaned_def)
  with ps show ?thesis using closeAll_os [of cs s2]
    by (simp add: cleaned_def ac_simps flip: mset_map)
qed

lemma openSinks_cleaned:
  assumes "multierr_ok E" and "registry_ok sr" and "openSinks E N sr c s = (Inl e, s')"
  shows "cleaned s s'"
proof -
  have cl: "cleaned s1 s2" if "Open E N sr paths s1 = (Inl e', s2)" for paths s1 s2 e'
    using Open_opens [OF assms(1,2) that] by (auto simp: cleaned_def)
  show ?thesis
  proof (cases "Open E N sr (OutputPaths c) s")
    case (Pair r s1)
    show ?thesis
    proof (cases r)
      case (Inl e1)
      then show ?thesis using assms(3) Pair cl by (auto simp: openSinks_def)
    next
      case (Inr x)
      then obtain out cs where x: "r = Inr (out, cs)" by (cases x) auto
      then have "opens (concat (map handles cs)) s s1" using Open_opens [OF assms(1,2) Pair] by simp
      then show ?thesis
        using assms(3) Pair x opens_cleaned cl by (fastforce simp: openSinks_def split: prod.splits sum.splits)
    qed
  qed
qed

lemma initial_fields_perm:
  assumes "distinct (map fst m)" and "mset m = mset m'"
  shows "initial_fields m = initial_fields m'"
proof -
  have m: "mset (map fst m) = mset (map fst m')" using assms(2) by simp
  have d: "distinct (map fst m')" using mset_eq_imp_distinct_iff [OF m] assms(1) by blast
  have "map_of m = map_of m'"
    using mset_eq_setD [OF assms(2)] by (simp only: map_of_inject_set [OF assms(1) d])
  moreover have "sort (map fst m) = sort (map fst m')"
    by (rule properties_for_sort) (simp_all only: m mset_sort sorted_sort)
  ultimately show ?thesis by (simp add: initial_fields_def)
qed

section \<open>The production logger\<close>

definition production_logger :: "'v env \<Rightarrow> nat \<Rightarrow> nat \<Rightarrow> 'v Logger" where
  "production_logger E a i =
     \<lparr>l_core = sampler (ioCore (AtomicE a) (JSONEnc (NewJSONEncoder E NewProductionEncoderConfig))
        (lockedWriteSyncer (Sink os_Stderr))) i time_Second 100 100 None,
      development = False, addCaller = True, onPanic = None, onFatal = None, l_name = [],
      errorOutput = lockedWriteSyncer (Sink os_Stderr), addStack = LevelE ErrorLevel, callerSkip = 0,
      l_clock = (\<lambda>t. t)\<rparr>"

lemma Open_stderr:
  "factories sr schemeFile = Some (newFileSinkFromURL N) \<Longrightarrow>
   Open E N sr [''stderr''] s = (Inr (lockedWriteSyncer (Sink os_Stderr), [nopCloserSink (Sink os_Stderr)]), s)"
  by (simp add: Open_def open_paths_def newSink_stderr CombineWriteSyncers_def NewMultiWriteSyncer_def Lock_def)

lemma NewProduction_logger:
  assumes "factories sr schemeFile = Some (newFileSinkFromURL N)"
    and "encs ''json'' = Some (\<lambda>c. Inr (JSONEnc (NewJSONEncoder E c)))"
  shows "NewProduction E N encs sr a i [] s w =
    (Ok (Inr (production_logger E a i)), s, w\<lparr>cells := NewAtomicLevelAt a InfoLevel (cells w)\<rparr>)"
  using assms(2)
  by (simp add: NewProduction_def NewProductionConfig_def Build_def buildEncoder_def newEncoder_def
      NewProductionEncoderConfig_def openSinks_def Open_stderr [OF assms(1)] Logger_New_def NewCore_def
      buildOptions_def AddCaller_def NewSamplerWithOptions_def production_logger_def)

lemma sampler_first:
  assumes "samples w i = newCounters"
  shows "\<exists>f. sampler_decide i dur 100 100 None ent w = (True, w\<lparr>samples := f\<rparr>)"
proof -
  have "fst (IncCheckReset t d \<lparr>resetAt = 0, count = 0\<rparr>) = 1" for t d
    by (simp add: IncCheckReset_def Let_def)
  moreover have "\<not> sampler_drops 100 100 1" by (simp add: sampler_drops_def)
  ultimately show ?thesis
    using assms by (auto simp: sampler_decide_def newCounters_def Let_def split_def intro: exI [of _ "samples w"])
qed

lemma production_enabled:
  "enab_Enabled (NewAtomicLevelAt a InfoLevel st) (AtomicE a) l \<longleftrightarrow> InfoLevel \<le> l"
  by (simp add: enab_Enabled_def NewAtomicLevelAt_def AtomicLevel_Enabled_def AtomicLevel_set_get Level_Enabled_def)

lemma production_cfg:
  "cfg (NewJSONEncoder E NewProductionEncoderConfig) = NewProductionEncoderConfig\<lparr>NewReflectedEncoder := Some (JSONEncode E)\<rparr>"
  by (simp add: NewJSONEncoder_def newJSONEncoder_def NewProductionEncoderConfig_def DefaultLineEnding_def Let_def)

lemma production_entry_ok:
  assumes "\<forall>v b. JSONEncode E v = (b, None) \<longrightarrow> leaf_ok (TrimNewline b) (rv (TrimNewline b))"
  shows "entry_ok E (cfg (NewJSONEncoder E NewProductionEncoderConfig)) rv"
  using assms unfolding production_cfg
  by (auto simp: entry_ok_def values_ok_def NewProductionEncoderConfig_def calls_def nameEncoder_def
      LowercaseLevelEncoder_def EpochTimeEncoder_def SecondsDurationEncoder_def ShortCallerEncoder_def
      FullNameEncoder_def reflect_encode_def layout_ok_def Let_def)

lemma ce_Write_one:
  assumes "multierr_ok E" and "cores x = [ioCore en enc (lockedWriteSyncer (Sink j))]" and "\<not> dirty x"
    and "good_sink (sinks w j)" and "enc_EncodeEntry E enc (ce_Entry x) fs = Ok (Inr b)"
  shows "s_calls (sinks (snd (snd (ce_Write E (Some x) fs w))) j) = s_calls (sinks w j) @ [b]"
  using assms
  by (simp add: ce_Write_def Let_def ioCore_Write_def on_sink_def sink_Write_def sink_Sync_def good_sink_def
      multierr_simps)

lemma annotate_production:
  assumes "drop (k + 2) (call_stack s) \<noteq> []"
    and "annotate E (production_logger E a i\<lparr>callerSkip := int k\<rparr>) s ent ce w = (ce', w')"
  shows "w' = w \<and> (ent_Level (ce_Entry ce) < ErrorLevel \<longrightarrow> ent_Stack (ce_Entry ce') = ent_Stack (ce_Entry ce)) \<and>
    ent_Caller (ce_Entry ce') = (let fr = call_stack s ! (k + 2) in \<lparr>Defined = frame_PC fr \<noteq> 0, PC = frame_PC fr,
      File = frame_File fr, Line = frame_Line fr, Function = frame_Function fr\<rparr>)"
proof -
  obtain fr frs where fr: "drop (k + 2) (call_stack s) = fr # frs"
    using assms(1) by (cases "drop (k + 2) (call_stack s)") auto
  then have "call_stack s ! (k + 2) = fr" by (metis drop_eq_Nil hd_drop_conv_nth list.sel(1) list.simps(3) not_le)
  moreover have "drop (nat (int k + 2)) (call_stack s) = fr # frs" using fr by (simp add: nat_add_distrib)
  ultimately show ?thesis
    using assms(2)
    by (auto simp: annotate_def production_logger_def captured_def stack_Next_def Let_def enab_Enabled_def
        Level_Enabled_def split: if_splits)
qed

lemma production_check:
  assumes "samples w i = newCounters" and "cells w = NewAtomicLevelAt a InfoLevel st" and "InfoLevel \<le> l"
    and "drop (k + 2) (call_stack s) \<noteq> []"
  obtains x f where "Logger_check E (production_logger E a i\<lparr>callerSkip := int k\<rparr>) l msg s w = (Ok (Some x), w\<lparr>samples := f\<rparr>)"
    and "cores x = [ioCore (AtomicE a) (JSONEnc (NewJSONEncoder E NewProductionEncoderConfig))
      (lockedWriteSyncer (Sink os_Stderr))]" and "\<not> dirty x"
    and "ent_Level (ce_Entry x) = l" and "ent_Message (ce_Entry x) = msg" and "ent_Time (ce_Entry x) = sys_now s"
    and "l < ErrorLevel \<longrightarrow> ent_Stack (ce_Entry x) = []"
    and "File (ent_Caller (ce_Entry x)) = frame_File (call_stack s ! (k + 2))"
    and "Line (ent_Caller (ce_Entry x)) = frame_Line (call_stack s ! (k + 2))"
proof -
  let ?log = "production_logger E a i\<lparr>callerSkip := int k\<rparr>" and ?io = "ioCore (AtomicE a) (JSONEnc (NewJSONEncoder E
    NewProductionEncoderConfig)) (lockedWriteSyncer (Sink os_Stderr))"
  let ?ent = "log_entry ?log l msg s"
  have ent: "ent_Level ?ent = l" "ent_Message ?ent = msg" "ent_Time ?ent = sys_now s" "ent_Stack ?ent = []"
    by (simp_all add: log_entry_def production_logger_def zeroEntry_def)
  have en: "enab_Enabled (cells w) (AtomicE a) l" using production_enabled assms(2,3) by simp
  obtain f where f: "sampler_decide i time_Second 100 100 None ?ent w = (True, w\<lparr>samples := f\<rparr>)"
    using sampler_first [OF assms(1)] by blast
  obtain y where y: "AddCore None ?ent ?io = Some y" "cores y = [?io]" "\<not> dirty y" "ce_Entry y = ?ent"
    by (simp add: AddCore_def getCheckedEntry_def ce_reset_def Let_def)
  have ck: "core_Check E (l_core ?log) ?ent None w = (Ok (Some y), w\<lparr>samples := f\<rparr>)"
    using f en ent(1) y(1) by (simp add: production_logger_def)
  define z where "z = (case terminal_hook ?log l of None \<Rightarrow> y | Some h \<Rightarrow> y\<lparr>after := Some h\<rparr>)"
  have z: "cores z = [?io]" "\<not> dirty z" "ce_Entry z = ?ent" using y by (auto simp: z_def split: option.splits)
  obtain x w1 where x: "annotate E ?log s ?ent z (w\<lparr>samples := f\<rparr>) = (x, w1)" by fastforce
  note a = annotate_production [OF assms(4) x] annotate_ce [OF x]
  have "\<not> (l < DPanicLevel \<and> \<not> core_Enabled (cells w) (l_core ?log) l)"
    using en by (simp add: production_logger_def)
  then have "Logger_check E ?log l msg s w = (Ok (Some x), w\<lparr>samples := f\<rparr>)"
    using ck x a(1) by (simp add: Logger_check_def z_def After_def Let_def split: option.splits)
  then show ?thesis
    by (rule that) (use a z ent in \<open>simp_all add: Let_def\<close>)
qed

lemma production_encodes:
  assumes "\<forall>v b. JSONEncode E v = (b, None) \<longrightarrow> leaf_ok (TrimNewline b) (rv (TrimNewline b))"
    and "c = cfg (NewJSONEncoder E NewProductionEncoderConfig)" and "obj_items E c rv (addFields fs) = Ok (is, err)"
  shows "\<exists>t. json_EncodeEntry E (NewJSONEncoder E NewProductionEncoderConfig) ent fs = Ok t \<and>
    json_parse t = Some (JObj (mems (meta_items E c ent @ is) @ mems (stack_items c ent)))"
proof -
  have n: "obj_items E c rv (addFields []) = Ok ([], None)" by (simp add: addto_defs)
  have c: "caller_set c ent" "\<forall>x \<in> set (LineEnding c). is_ws x"
    unfolding assms(2) production_cfg
    by (simp_all add: caller_set_def NewProductionEncoderConfig_def DefaultLineEnding_def is_ws_def)
  have e: "json_addFields E [] enc = Ok enc" for enc by (simp add: json_addFields_def addto_defs)
  show ?thesis
    by (rule json_context_encodes [OF assms(2) production_entry_ok [OF assms(1), folded assms(2)] n])
      (use c assms(3) e in fastforce)
qed

text \<open>
  What it means that a message has been logged to standard error as JSON: one more write, which a
  JSON reader takes for one object with the metadata, the fields and, from Error level on, the
  stack trace, where the caller is the frame \<open>k\<close> levels up.
\<close>

definition logs_JSON ::
  "'v env \<Rightarrow> 'v EncoderConfig \<Rightarrow> jitem list \<Rightarrow> level \<Rightarrow> bytes \<Rightarrow> site \<Rightarrow> nat \<Rightarrow> ('v, 'z) world_scheme \<Rightarrow>
   ('v, 'z) world_scheme \<Rightarrow> bool" where
  "logs_JSON E c is l msg s k w w' \<longleftrightarrow>
     (\<exists>ent text. s_calls (sinks w' os_Stderr) = s_calls (sinks w os_Stderr) @ [text] \<and>
        json_parse text = Some (JObj (mems (meta_items E c ent @ is) @ mems (stack_items c ent))) \<and>
        ent_Level ent = l \<and> ent_Message ent = msg \<and> ent_Time ent = sys_now s \<and>
        File (ent_Caller ent) = frame_File (call_stack s ! k) \<and> Line (ent_Caller ent) = frame_Line (call_stack s ! k) \<and>
        (l < ErrorLevel \<longrightarrow> ent_Stack ent = []))"

lemma production_logs:
  assumes "multierr_ok E" and "\<forall>v b. JSONEncode E v = (b, None) \<longrightarrow> leaf_ok (TrimNewline b) (rv (TrimNewline b))"
    and "good_sink (sinks w os_Stderr)" and "samples w i = newCounters" and "cells w = NewAtomicLevelAt a InfoLevel st"
    and "InfoLevel \<le> l" and "drop (k + 2) (call_stack s) \<noteq> []"
    and "c = cfg (NewJSONEncoder E NewProductionEncoderConfig)"
    and "obj_items E c rv (addFields fs) = Ok (is, err)"
  shows "logs_JSON E c is l msg s (k + 2) w
    (snd (Logger_Log E (production_logger E a i\<lparr>callerSkip := int k\<rparr>) l msg fs s w))"
proof -
  let ?log = "production_logger E a i\<lparr>callerSkip := int k\<rparr>"
  obtain x f where x: "Logger_check E ?log l msg s w = (Ok (Some x), w\<lparr>samples := f\<rparr>)"
    and cores: "cores x = [ioCore (AtomicE a) (JSONEnc (NewJSONEncoder E NewProductionEncoderConfig))
      (lockedWriteSyncer (Sink os_Stderr))]" and d: "\<not> dirty x"
    and ent: "ent_Level (ce_Entry x) = l" "ent_Message (ce_Entry x) = msg" "ent_Time (ce_Entry x) = sys_now s"
      "l < ErrorLevel \<longrightarrow> ent_Stack (ce_Entry x) = []" "File (ent_Caller (ce_Entry x)) = frame_File (call_stack s ! (k + 2))"
      "Line (ent_Caller (ce_Entry x)) = frame_Line (call_stack s ! (k + 2))"
    using production_check [OF assms(4-7)] by metis
  obtain t where t: "json_EncodeEntry E (NewJSONEncoder E NewProductionEncoderConfig) (ce_Entry x) fs = Ok t"
    "json_parse t = Some (JObj (mems (meta_items E c (ce_Entry x) @ is) @ mems (stack_items c (ce_Entry x))))"
    using production_encodes [OF assms(2,8,9)] by blast
  obtain ctl ce' w2 where wr: "ce_Write E (Some x) fs (w\<lparr>samples := f\<rparr>) = (ctl, ce', w2)" by (metis prod.exhaust)
  have "s_calls (sinks w2 os_Stderr) = s_calls (sinks w os_Stderr) @ [t]"
    using ce_Write_one [OF assms(1) cores d, of "w\<lparr>samples := f\<rparr>" fs t] wr t(1) assms(3)
    by (simp add: enc_EncodeEntry_def)
  then show ?thesis
    using x wr t(2) ent unfolding logs_JSON_def
    by (intro exI [of _ "ce_Entry x"] exI [of _ t]) (simp add: Logger_Log_def)
qed

section \<open>Properties\<close>

text \<open>
  C15: when \<open>Build\<close> of a configuration with a level fails, every file that it has opened, for the
  output or for errors, has been closed again.
\<close>

theorem Build_failure_closes:
  assumes "multierr_ok E" and "registry_ok sr" and "cfg_Level c \<noteq> None"
    and "Build E N encs sr c i opts s w = (Ok (Inl e), s', w')"
  shows "cleaned s s'"
  using assms(3,4) openSinks_cleaned [OF assms(1,2)]
  by (auto simp: Build_def split: sum.splits prod.splits outcome.splits option.splits)

text \<open>
  Without a level, \<open>Build\<close> fails too, but only after it has opened the outputs, and it leaves
  them open.
\<close>

lemma Build_missing_Level_leaks:
  assumes "cfg_Level c = None" and "buildEncoder N encs c = Inr enc" and "factories sr schemeFile = Some (newFileSinkFromURL N)"
    and "OutputPaths c = [path]" and "IsAbs path" and "path \<noteq> ''stderr''" and "path \<noteq> ''stdout''"
    and "ErrorOutputPaths c = [''stderr'']" and "os_refuse s (os_opened s) path = None"
  shows "\<exists>s'. Build E N encs sr c i opts s w = (Ok (Inl (errors_new ''missing Level'')), s', w) \<and>
    os_opened s' = os_opened s @ [(os_next s, path)] \<and> os_closed s' = os_closed s"
  using assms
  by (simp add: Build_def openSinks_def Open_def open_paths_def newSink_abs newSink_stderr newFileSinkFromPath_def OpenFile_def)

text \<open>
  The fields of a configuration do not depend on the order in which Go iterates over the map
  that holds them.
\<close>

lemma buildOptions_map_order:
  assumes "distinct (map fst m)" and "mset m = mset m'"
  shows "buildOptions (c\<lparr>InitialFields := m\<rparr>) i out = buildOptions (c\<lparr>InitialFields := m'\<rparr>) i out"
proof -
  have "m = [] \<longleftrightarrow> m' = []" using assms(2) by (metis mset_zero_iff)
  then show ?thesis using initial_fields_perm [OF assms] by (simp add: buildOptions_def)
qed


section \<open>Witnesses\<close>

definition sample_build :: "nat Config" where
  "sample_build = (fst (NewProductionConfig 0 (\<lambda>_. 0)))\<lparr>OutputPaths := [''/a''], ErrorOutputPaths := [''/b'']\<rparr>"

lemma sample_build_simps:
  "Encoding sample_build = ''json''" "cfg_Level sample_build = Some 0" "OutputPaths sample_build = [''/a'']"
  "ErrorOutputPaths sample_build = [''/b'']" "cfg_EncoderConfig sample_build = NewProductionEncoderConfig"
  by (simp_all add: sample_build_def NewProductionConfig_def)

lemma sample_encoder:
  "newEncoder N (encoderNameToConstructor sample_env) ''json'' NewProductionEncoderConfig =
   Inr (JSONEnc (NewJSONEncoder sample_env NewProductionEncoderConfig))"
  by (simp add: newEncoder_def encoderNameToConstructor_def NewProductionEncoderConfig_def)

theorem Build_failure_closes_witness:
  "\<exists>e s'. Build sample_env sample_net (encoderNameToConstructor sample_env) (newSinkRegistry sample_net) sample_build 0 []
      sample_os sample_world = (Ok (Inl e), s', sample_world) \<and> os_opened s' = [(10, ''/a'')] \<and> cleaned sample_os s'"
proof -
  obtain e s' where b: "Build sample_env sample_net (encoderNameToConstructor sample_env) (newSinkRegistry sample_net)
      sample_build 0 [] sample_os sample_world = (Ok (Inl e), s', sample_world)" and o: "os_opened s' = [(10, ''/a'')]"
    by (simp add: Build_def buildEncoder_def sample_build_simps sample_encoder openSinks_def Open_def open_paths_def newSink_abs
        IsAbs_def newFileSinkFromPath_def OpenFile_def sample_os_def closeAll_def multierr_simps [OF sample_multierr])
  have "cleaned sample_os s'"
    using Build_failure_closes [OF sample_multierr newSinkRegistry_ok _ b] by (simp add: sample_build_simps)
  then show ?thesis using b o by blast
qed

lemma Build_missing_Level_leaks_example:
  "\<exists>s'. Build sample_env sample_net (encoderNameToConstructor sample_env) (newSinkRegistry sample_net)
      (sample_build\<lparr>cfg_Level := None, ErrorOutputPaths := [''stderr'']\<rparr>) 0 [] sample_os sample_world =
      (Ok (Inl (errors_new ''missing Level'')), s', sample_world) \<and>
    os_opened s' = [(10, ''/a'')] \<and> os_closed s' = []"
  using Build_missing_Level_leaks [of "sample_build\<lparr>cfg_Level := None, ErrorOutputPaths := [''stderr'']\<rparr>" sample_net
      "encoderNameToConstructor sample_env" "JSONEnc (NewJSONEncoder sample_env NewProductionEncoderConfig)"
      "newSinkRegistry sample_net" "''/a''" sample_os sample_env 0 "[]" sample_world]
  by (simp add: buildEncoder_def sample_build_simps sample_encoder newSinkRegistry_file IsAbs_def sample_os_def)

lemma buildOptions_map_order_example:
  "buildOptions (sample_build\<lparr>InitialFields := [(''b'', VNil), (''a'', VNil)]\<rparr>) 0 (Sink 0) =
   buildOptions (sample_build\<lparr>InitialFields := [(''a'', VNil), (''b'', VNil)]\<rparr>) 0 (Sink 0)"
  by (rule buildOptions_map_order) (simp_all add: add_mset_commute)

lemma sample_production:
  "\<forall>v b. JSONEncode sample_env v = (b, None) \<longrightarrow> leaf_ok (TrimNewline b) (sample_rv (TrimNewline b))"
  "good_sink (sinks sample_world os_Stderr)" "samples sample_world 0 = newCounters"
  "obj_items sample_env (cfg (NewJSONEncoder sample_env NewProductionEncoderConfig)) sample_rv (addFields []) = Ok ([], None)"
proof -
  show "\<forall>v b. JSONEncode sample_env v = (b, None) \<longrightarrow> leaf_ok (TrimNewline b) (sample_rv (TrimNewline b))"
    using sample_ok unfolding entry_ok_def values_ok_def sample_cfg by (simp add: reflect_encode_def sample_config_def)
qed (simp_all add: good_sink_def sample_ios_def sample_world_def ios.defs addto_defs)


end
