(* ===== verification/Lad_Kit.thy ===== *)
theory Lad_Kit
  imports Lad_Config Lad_Global
begin

text \<open>
  The package that sets up the global logger in one call (\<open>ladkit/ladkit.go\<close>).
\<close>

section \<open>Options\<close>

record FileConfig =
  fc_Level :: level
  Filename :: bytes
  MaxSizeMB :: int
  MaxBackups :: int
  MaxAgeDays :: int
  Compress :: bool

record 'v kit_Config =
  kit_cores :: "'v core list"
  kit_caller :: bool

text \<open>
  The rotating file of \<open>lumberjack\<close> is a writer without \<open>Sync\<close>; \<open>lumberjack\<close> gives the one that belongs
  to a configuration.
\<close>

datatype kit_Option = WithConsole level bool bytes | WithFile FileConfig | kit_WithCaller

definition default_layout :: bytes where
  "default_layout = ''2006-01-02 15:04:05.000''"

text \<open>The time encoder that both options install.\<close>

definition format_time :: "'v env \<Rightarrow> bytes \<Rightarrow> TimeEncoder" where
  "format_time E tf t = [TPrim (PString (TimeFormat E t tf))]"

definition console_config :: "'v env \<Rightarrow> bool \<Rightarrow> bytes \<Rightarrow> 'v EncoderConfig" where
  "console_config E enableColor timeFormat =
     (let encCfg = NewProductionEncoderConfig;
          tf = (if timeFormat = [] then default_layout else timeFormat);
          encCfg = encCfg\<lparr>EncodeTime := Some (format_time E tf)\<rparr>
      in if enableColor then encCfg\<lparr>EncodeLevel := Some CapitalColorLevelEncoder\<rparr> else encCfg)"

definition kit_WithConsole :: "'v env \<Rightarrow> level \<Rightarrow> bool \<Rightarrow> bytes \<Rightarrow> 'v kit_Config \<Rightarrow> 'v kit_Config" where
  "kit_WithConsole E l enableColor timeFormat c =
     c\<lparr>kit_cores := kit_cores c @
         [NewCore (ConsoleEnc (NewConsoleEncoder E (console_config E enableColor timeFormat)))
            (AddSync (HasSync (Sink os_Stdout))) (LevelE l)]\<rparr>"

definition file_config :: "'v env \<Rightarrow> 'v EncoderConfig" where
  "file_config E = NewProductionEncoderConfig\<lparr>EncodeTime := Some (format_time E default_layout),
     EncodeLevel := Some CapitalLevelEncoder\<rparr>"

definition kit_WithFile :: "'v env \<Rightarrow> (FileConfig \<Rightarrow> nat) \<Rightarrow> FileConfig \<Rightarrow> 'v kit_Config \<Rightarrow> 'v kit_Config" where
  "kit_WithFile E lumberjack fc c =
     c\<lparr>kit_cores := kit_cores c @
         [NewCore (ConsoleEnc (NewConsoleEncoder E (file_config E))) (AddSync (NoSync (lumberjack fc)))
            (LevelE (fc_Level fc))]\<rparr>"

definition kit_apply :: "'v env \<Rightarrow> (FileConfig \<Rightarrow> nat) \<Rightarrow> kit_Option \<Rightarrow> 'v kit_Config \<Rightarrow> 'v kit_Config" where
  "kit_apply E lumberjack opt c =
     (case opt of
        WithConsole l col tf \<Rightarrow> kit_WithConsole E l col tf c
      | WithFile fc \<Rightarrow> kit_WithFile E lumberjack fc c
      | kit_WithCaller \<Rightarrow> c\<lparr>kit_caller := True\<rparr>)"

definition kit_config :: "'v env \<Rightarrow> (FileConfig \<Rightarrow> nat) \<Rightarrow> kit_Option list \<Rightarrow> 'v kit_Config" where
  "kit_config E lumberjack opts =
     (let c = fold (kit_apply E lumberjack) opts \<lparr>kit_cores = [], kit_caller = False\<rparr>
      in if kit_cores c = [] then kit_WithConsole E DebugLevel True [] c else c)"

definition kit_New ::
  "'v env \<Rightarrow> (FileConfig \<Rightarrow> nat) \<Rightarrow> kit_Option list \<Rightarrow> 'v globals \<Rightarrow> ('v, 'z) world_scheme \<Rightarrow>
   'v globals outcome \<times> ('v, 'z) world_scheme" where
  "kit_New E lumberjack opts g w =
     (let c = kit_config E lumberjack opts in
      apfst (map_outcome (\<lambda>log. snd (ReplaceGlobals log g)))
        (Logger_New E (Some (NewTee (kit_cores c))) (if kit_caller c then [AddCaller] else []) w))"

section \<open>Where messages go\<close>

text \<open>The level and the destination that an option asks for; the console if none is given.\<close>

definition asked :: "(FileConfig \<Rightarrow> nat) \<Rightarrow> kit_Option \<Rightarrow> (level \<times> nat) list" where
  "asked lumberjack opt =
     (case opt of
        WithConsole l _ _ \<Rightarrow> [(l, os_Stdout)]
      | WithFile fc \<Rightarrow> [(fc_Level fc, lumberjack fc)]
      | kit_WithCaller \<Rightarrow> [])"

definition destinations :: "(FileConfig \<Rightarrow> nat) \<Rightarrow> kit_Option list \<Rightarrow> (level \<times> nat) list" where
  "destinations lumberjack opts =
     (case concat (map (asked lumberjack) opts) of [] \<Rightarrow> [(DebugLevel, os_Stdout)] | ds \<Rightarrow> ds)"

text \<open>A core that writes lines of the console encoder to one destination.\<close>

definition console_core :: "'v env \<Rightarrow> 'v core \<Rightarrow> level \<times> nat \<Rightarrow> bool" where
  "console_core E c d \<longleftrightarrow>
     (\<exists>enc. c = ioCore (LevelE (fst d)) (ConsoleEnc (NewConsoleEncoder E enc)) (Sink (snd d)) \<or>
            c = ioCore (LevelE (fst d)) (ConsoleEnc (NewConsoleEncoder E enc)) (writerWrapper (snd d)))"

lemma console_coreI:
  "console_core E (ioCore (LevelE l) (ConsoleEnc (NewConsoleEncoder E enc)) (Sink i)) (l, i)"
  "console_core E (ioCore (LevelE l) (ConsoleEnc (NewConsoleEncoder E enc)) (writerWrapper i)) (l, i)"
  by (auto simp: console_core_def)

lemma fold_kit_cores:
  assumes "list_all2 (console_core E) (kit_cores c) ds"
  shows "list_all2 (console_core E) (kit_cores (fold (kit_apply E lumberjack) opts c)) (ds @ concat (map (asked lumberjack) opts))"
  using assms
proof (induction opts arbitrary: c ds)
  case (Cons opt opts)
  have "list_all2 (console_core E) (kit_cores (kit_apply E lumberjack opt c)) (ds @ asked lumberjack opt)"
    using Cons.prems
    by (cases opt) (auto simp: kit_apply_def asked_def kit_WithConsole_def kit_WithFile_def NewCore_def AddSync_def
      intro!: list_all2_appendI console_coreI)
  from Cons.IH [OF this] show ?case by simp
qed simp

lemma kit_config_cores: "list_all2 (console_core E) (kit_cores (kit_config E lumberjack opts)) (destinations lumberjack opts)"
proof -
  let ?c = "fold (kit_apply E lumberjack) opts \<lparr>kit_cores = [], kit_caller = False\<rparr>"
  have "list_all2 (console_core E) (kit_cores ?c) (concat (map (asked lumberjack) opts))"
    using fold_kit_cores [of E "\<lparr>kit_cores = [], kit_caller = False\<rparr>" "[]"] by simp
  then show ?thesis
    unfolding kit_config_def destinations_def Let_def
    by (auto simp: kit_WithConsole_def NewCore_def AddSync_def simp del: concat_eq_Nil_conv
      intro!: console_coreI split: list.split)
qed

text \<open>No marshaler of the fields panics.\<close>

definition fields_calm :: "'v env \<Rightarrow> 'v Field list \<Rightarrow> bool" where
  "fields_calm E fs \<longleftrightarrow> (\<forall>c. \<exists>enc. json_addFields E fs (json_Clone (NewConsoleEncoder E c)) = Ok enc)"

lemma console_core_steady:
  assumes "console_core E c d" and "fields_calm E fs"
  shows "steady E fs c"
    and "\<exists>b. core_calls E ent fs i c = (if snd d = i then [b] else [])"
    and "core_Enabled st c l \<longleftrightarrow> fst d \<le> l"
proof -
  obtain enc out where c: "c = ioCore (LevelE (fst d)) (ConsoleEnc (NewConsoleEncoder E enc)) out" "ws_sinks out = [snd d]"
    using assms(1) by (auto simp: console_core_def)
  have "\<exists>b. console_EncodeEntry E (NewConsoleEncoder E enc) ent fs = Ok b" for ent
  proof -
    obtain enc' where "json_addFields E fs (json_Clone (NewConsoleEncoder E enc)) = Ok enc'"
      using assms(2) by (auto simp: fields_calm_def)
    then show ?thesis by (simp add: console_EncodeEntry_def writeContext_def Let_def)
  qed
  note enc = this
  have "\<exists>r. map_outcome (Inr :: bytes \<Rightarrow> error + bytes) (console_EncodeEntry E (NewConsoleEncoder E enc) ent fs) = Ok r" for ent
    using enc [of ent] by auto
  then show "steady E fs c" unfolding c(1) steady_def enc_EncodeEntry_def by simp
  obtain b where "console_EncodeEntry E (NewConsoleEncoder E enc) ent fs = Ok b" using enc by blast
  then show "\<exists>b. core_calls E ent fs i c = (if snd d = i then [b] else [])"
    using c by (auto simp: core_calls_def enc_EncodeEntry_def)
  show "core_Enabled st c l \<longleftrightarrow> fst d \<le> l" using c by (simp add: enab_Enabled_def Level_Enabled_def)
qed

lemma console_cores_calls:
  assumes "list_all2 (console_core E) cs ds" and "fields_calm E fs"
  shows "list_all (steady E fs) cs"
    and "length (concat (map (core_calls E ent fs i) (filter (\<lambda>c. core_Enabled st c l) cs))) =
      length (filter (\<lambda>d. snd d = i \<and> fst d \<le> l) ds)"
  using assms(1)
proof (induction cs ds rule: list_all2_induct)
  case (Cons c cs d ds)
  case 1 show ?case using Cons console_core_steady(1) [OF _ assms(2)] by simp
  case 2
  obtain b where "core_calls E ent fs i c = (if snd d = i then [b] else [])"
    using console_core_steady(2) [OF Cons(1) assms(2)] by blast
  then show ?case using Cons(4) console_core_steady(3) [OF Cons(1) assms(2), of st l] by simp
qed simp_all

section \<open>Properties\<close>

text \<open>
  C17: after \<open>New\<close> the global loggers write where the options said.  \<open>New\<close> succeeds and makes the plain and the
  sugared global logger agree; a message at any level reaches each console and file that was asked
  for at a level not above it exactly once per option, and nothing else, and if nothing was asked
  for, standard output from Debug level on.
\<close>

theorem kit_New_destinations:
  assumes "fields_calm E fs" and "i \<noteq> os_Stderr"
  shows "\<exists>g'. kit_New E lumberjack opts g w = (Ok g', w) \<and> global_S g' = Logger_Sugar (global_L g') \<and>
    (\<exists>new. s_calls (sinks (snd (Logger_Log E (global_L g') l msg fs s w)) i) = s_calls (sinks w i) @ new \<and>
       length new = length (filter (\<lambda>d. snd d = i \<and> fst d \<le> l) (destinations lumberjack opts)))"
proof -
  let ?cs = "kit_cores (kit_config E lumberjack opts)"
  note cs = console_cores_calls [OF kit_config_cores [of E lumberjack opts] assms(1)]
  obtain g' where g: "kit_New E lumberjack opts g w = (Ok g', w)" "l_core (global_L g') = NewTee ?cs"
      "errorOutput (global_L g') = Lock (Sink os_Stderr)" "global_S g' = Logger_Sugar (global_L g')"
    by (cases "kit_caller (kit_config E lumberjack opts)")
      (auto simp: kit_New_def Let_def Logger_New_def AddCaller_def ReplaceGlobals_def global_L_def global_S_def)
  obtain ctl w' where log: "Logger_Log E (global_L g') l msg fs s w = (ctl, w')" by (metis prod.exhaust)
  have i: "i \<notin> set (ws_sinks (errorOutput (global_L g')))" using assms(2) g(3) by (simp add: Lock_def)
  from Logger_Log_steady [OF g(2) cs(1) i log] obtain ent where
    "s_calls (sinks w' i) = s_calls (sinks w i) @
      concat (map (core_calls E ent fs i) (filter (\<lambda>c. core_Enabled (cells w) c l) ?cs))" by auto
  then show ?thesis using g(1,4) log cs(2) by auto
qed

theorem kit_New_destinations_witness:
  "\<exists>g'. kit_New sample_env (\<lambda>_. 7) [WithConsole WarnLevel False [], WithFile \<lparr>fc_Level = InfoLevel, Filename = ''app.log'',
      MaxSizeMB = 1, MaxBackups = 1, MaxAgeDays = 1, Compress = False\<rparr>] initial_globals sample_world = (Ok g', sample_world) \<and>
    length (s_calls (sinks (snd (Logger_Log sample_env (global_L g') InfoLevel ''hi'' [] sample_site sample_world)) 7)) =
      Suc (length (s_calls (sinks sample_world 7)))"
proof -
  have "fields_calm sample_env []" by (simp add: fields_calm_def json_addFields_def addto_defs)
  moreover have "(7 :: nat) \<noteq> os_Stderr" by (simp add: os_Stderr_def)
  ultimately show ?thesis
    using kit_New_destinations [of sample_env "[]" 7 "\<lambda>_. 7" "[WithConsole WarnLevel False [], WithFile \<lparr>fc_Level = InfoLevel,
      Filename = ''app.log'', MaxSizeMB = 1, MaxBackups = 1, MaxAgeDays = 1, Compress = False\<rparr>]"
      initial_globals sample_world InfoLevel "''hi''" sample_site]
    by (auto simp: destinations_def asked_def os_Stdout_def)
qed

end
