(* ===== verification/Lad_Io.thy ===== *)
theory Lad_Io
  imports Lad_Logger_Props
begin

text \<open>
  The writer that logs what is written to it, line by line (\<open>ladio/writer.go\<close>).

  The record keeps, besides the fields of \<open>Writer\<close>, how many times \<open>log\<close> was called: the \<open>n\<close>-th call
  happens at the time and with the call stack \<open>ss n\<close>.
\<close>

section \<open>The writer\<close>

record 'v Writer =
  io_Log :: "'v Logger"
  io_Level :: level
  io_buff :: bytes
  io_calls :: nat

definition io_log ::
  "'v env \<Rightarrow> (nat \<Rightarrow> site) \<Rightarrow> bytes \<Rightarrow> 'v Writer \<Rightarrow> ('v, 'z) world_scheme \<Rightarrow>
   control \<times> 'v Writer \<times> ('v, 'z) world_scheme" where
  "io_log E ss b W w =
     (let W' = W\<lparr>io_calls := Suc (io_calls W)\<rparr> in
      case Logger_Check E (io_Log W) (io_Level W) b (ss (io_calls W)) w of
        (Panic m, w') \<Rightarrow> (Panics m, W', w')
      | (Ok None, w') \<Rightarrow> (Returns, W', w')
      | (Ok (Some ce), w') \<Rightarrow> (case ce_Write E (Some ce) [] w' of (ctl, _, w'') \<Rightarrow> (ctl, W', w'')))"

definition io_flush ::
  "'v env \<Rightarrow> (nat \<Rightarrow> site) \<Rightarrow> bool \<Rightarrow> 'v Writer \<Rightarrow> ('v, 'z) world_scheme \<Rightarrow>
   control \<times> 'v Writer \<times> ('v, 'z) world_scheme" where
  "io_flush E ss allowEmpty W w =
     (if allowEmpty \<or> io_buff W \<noteq> [] then
        case io_log E ss (io_buff W) W w of
          (Returns, W', w') \<Rightarrow> (Returns, W'\<lparr>io_buff := []\<rparr>, w')
        | r \<Rightarrow> r
      else (Returns, W\<lparr>io_buff := []\<rparr>, w))"

definition writeLine ::
  "'v env \<Rightarrow> (nat \<Rightarrow> site) \<Rightarrow> bytes \<Rightarrow> 'v Writer \<Rightarrow> ('v, 'z) world_scheme \<Rightarrow>
   bytes \<times> control \<times> 'v Writer \<times> ('v, 'z) world_scheme" where
  "writeLine E ss line W w =
     (case index_byte (CHR 0x0A) line of
        None \<Rightarrow> ([], Returns, W\<lparr>io_buff := io_buff W @ line\<rparr>, w)
      | Some idx \<Rightarrow>
          let remaining = drop (idx + 1) line; line = take idx line in
          (remaining,
           (if io_buff W = [] then io_log E ss line W w
            else io_flush E ss True (W\<lparr>io_buff := io_buff W @ line\<rparr>) w)))"

text \<open>The loop of \<open>Write\<close> ends at the first call of \<open>log\<close> that does not return.\<close>

function (sequential) write_lines ::
  "'v env \<Rightarrow> (nat \<Rightarrow> site) \<Rightarrow> bytes \<Rightarrow> 'v Writer \<Rightarrow> ('v, 'z) world_scheme \<Rightarrow>
   control \<times> 'v Writer \<times> ('v, 'z) world_scheme" where
  "write_lines E ss bs W w =
     (if bs = [] then (Returns, W, w)
      else case writeLine E ss bs W w of
        (remaining, Returns, W', w') \<Rightarrow> write_lines E ss remaining W' w'
      | (_, r) \<Rightarrow> r)"
  by pat_completeness auto
termination
  by (relation "measure (\<lambda>(E, ss, bs, W, w). length bs)")
    (auto simp: writeLine_def Let_def split: option.splits if_splits)

declare write_lines.simps [simp del]

lemma write_lines_Nil: "write_lines E ss [] W w = (Returns, W, w)"
  by (simp add: write_lines.simps)

lemma write_lines_step:
  "bs \<noteq> [] \<Longrightarrow> writeLine E ss bs W w = (rem, Returns, W', w') \<Longrightarrow>
   write_lines E ss bs W w = write_lines E ss rem W' w'"
  by (subst write_lines.simps) simp

definition io_Write ::
  "'v env \<Rightarrow> (nat \<Rightarrow> site) \<Rightarrow> bytes \<Rightarrow> 'v Writer \<Rightarrow> ('v, 'z) world_scheme \<Rightarrow>
   (nat \<times> error option) \<times> control \<times> 'v Writer \<times> ('v, 'z) world_scheme" where
  "io_Write E ss bs W w =
     (if \<not> core_Enabled (cells w) (l_core (io_Log W)) (io_Level W) then ((length bs, None), Returns, W, w)
      else ((length bs, None), write_lines E ss bs W w))"

definition io_Sync ::
  "'v env \<Rightarrow> (nat \<Rightarrow> site) \<Rightarrow> 'v Writer \<Rightarrow> ('v, 'z) world_scheme \<Rightarrow>
   error option \<times> control \<times> 'v Writer \<times> ('v, 'z) world_scheme" where
  "io_Sync E ss W w = (None, io_flush E ss False W w)"

definition io_Close ::
  "'v env \<Rightarrow> (nat \<Rightarrow> site) \<Rightarrow> 'v Writer \<Rightarrow> ('v, 'z) world_scheme \<Rightarrow>
   error option \<times> control \<times> 'v Writer \<times> ('v, 'z) world_scheme" where
  "io_Close E ss W w = io_Sync E ss W w"

section \<open>Logging does not change levels\<close>

lemma fold_deliver_cells: "cells (fold (deliver p) is w) = cells w"
  by (induction "is" arbitrary: w) (simp_all add: deliver_def on_sink_def split: prod.splits)

lemma ws_Write_cells: "cells (snd (ws_Write E out p w)) = cells w"
  by (simp add: ws_Write_deliver fold_deliver_cells)

lemma ws_Sync_cells:
  fixes w :: "('v, 'z) world_scheme"
  shows "cells (snd (ws_Sync E out w)) = cells w" and "cells (snd (wss_Sync E outs err w)) = cells w"
  by (induction E out w and E outs err w rule: ws_Sync_wss_Sync.induct)
    (auto simp: on_sink_def split: prod.splits)

lemma error_line_cells: "cells (error_line E out line w) = cells w"
  by (simp add: error_line_def ws_Write_cells ws_Sync_cells split: option.splits)

lemma run_hooks_cells: "cells (snd (run_hooks E hs ent err w)) = cells w"
  by (induction hs arbitrary: err w) auto

lemma ioCore_Write_cells: "cells (snd (ioCore_Write E enc out ent fs w)) = cells w"
  using ws_Write_cells [of E out _ w]
  by (auto simp: ioCore_Write_def ws_Sync_cells split: outcome.splits sum.splits prod.splits)
    (metis snd_conv)+

lemma core_Write_cells:
  fixes w :: "('v, 'z) world_scheme"
  shows "cells (snd (core_Write E c ent fs w)) = cells w"
    and "cells (snd (cores_Write E cs ent fs err w)) = cells w"
  by (induction E c ent fs w and E cs ent fs err w rule: core_Write_cores_Write.induct)
    (auto simp: ioCore_Write_cells run_hooks_cells split: prod.splits outcome.splits)

lemma ce_Write_cells: "cells (snd (snd (ce_Write E ce fs w))) = cells w"
  using core_Write_cells(2) [of E _ _ fs None w]
  by (auto simp: ce_Write_def Let_def error_line_cells split: option.splits prod.splits outcome.splits)
    (metis snd_conv)+

lemma ce_Write_cellsD: "ce_Write E ce fs w = (ctl, ce', w') \<Longrightarrow> cells w' = cells w"
  using ce_Write_cells [of E ce fs w] by simp

lemma annotate_cellsD: "annotate E log s ent ce w = (ce', w') \<Longrightarrow> cells w' = cells w"
  by (auto simp: annotate_def Let_def error_line_cells split: prod.splits if_splits)

lemma Logger_check_cellsD: "Logger_check E log l msg s w = (r, w') \<Longrightarrow> cells w' = cells w"
  using core_Check_frame [of w E "l_core log" "log_entry log l msg s" None]
  by (auto simp: Logger_check_def Let_def same_outputs_def dest!: annotate_cellsD
      split: prod.splits outcome.splits option.splits if_splits)

lemma io_log_cells: "cells (snd (snd (io_log E ss b W w))) = cells w"
  by (auto simp: io_log_def Logger_Check_def Let_def dest!: Logger_check_cellsD ce_Write_cellsD
      split: prod.splits outcome.splits option.splits)

section \<open>Lines\<close>

text \<open>The lines that end in a text after the buffered \<open>acc\<close>, and what is left of it.\<close>

fun split_lines :: "bytes \<Rightarrow> bytes \<Rightarrow> bytes list \<times> bytes" where
  "split_lines acc [] = ([], acc)"
| "split_lines acc (c # cs) =
     (if c = CHR 0x0A then apfst ((#) acc) (split_lines [] cs) else split_lines (acc @ [c]) cs)"

lemma split_lines_append:
  "split_lines acc (a @ b) =
     (let (ls, r) = split_lines acc a; (ls', r') = split_lines r b in (ls @ ls', r'))"
  by (induction acc a rule: split_lines.induct) (auto simp: split_def Let_def)

lemma split_lines_part: "CHR 0x0A \<notin> set a \<Longrightarrow> split_lines acc (a @ b) = split_lines (acc @ a) b"
  by (induction a arbitrary: acc) auto

lemma split_lines_lines:
  assumes "list_all (\<lambda>l. CHR 0x0A \<notin> set l) ls" and "CHR 0x0A \<notin> set r"
  shows "split_lines [] (concat (map (\<lambda>l. l @ [CHR 0x0A]) ls) @ r) = (ls, r)"
  using assms(1)
proof (induction ls)
  case Nil
  then show ?case using split_lines_part [OF assms(2), of "[]" "[]"] by simp
qed (simp add: split_lines_part)

text \<open>Logging one message after the other, up to the first that does not return.\<close>

primrec log_lines ::
  "'v env \<Rightarrow> (nat \<Rightarrow> site) \<Rightarrow> bytes list \<Rightarrow> 'v Writer \<Rightarrow> ('v, 'z) world_scheme \<Rightarrow>
   control \<times> 'v Writer \<times> ('v, 'z) world_scheme" where
  "log_lines E ss [] W w = (Returns, W, w)"
| "log_lines E ss (l # ls) W w =
     (case io_log E ss l W w of
        (Returns, W', w') \<Rightarrow> log_lines E ss ls W' w'
      | r \<Rightarrow> r)"

lemma io_log_buff:
  "io_log E ss b (W\<lparr>io_buff := x\<rparr>) w = apsnd (apfst (\<lambda>W. W\<lparr>io_buff := x\<rparr>)) (io_log E ss b W w)"
  by (simp add: io_log_def Let_def split: prod.splits outcome.splits option.splits)

lemma log_lines_buff:
  "log_lines E ss ls (W\<lparr>io_buff := x\<rparr>) w = apsnd (apfst (\<lambda>W. W\<lparr>io_buff := x\<rparr>)) (log_lines E ss ls W w)"
  by (induction ls arbitrary: W w) (auto simp: io_log_buff split: prod.splits control.splits)

lemma log_lines_append:
  "log_lines E ss (as @ bs) W w =
     (case log_lines E ss as W w of (Returns, W', w') \<Rightarrow> log_lines E ss bs W' w' | r \<Rightarrow> r)"
  by (induction as arbitrary: W w) (auto split: prod.splits control.splits)

lemma log_lines_appendE:
  assumes "log_lines E ss (as @ bs) W w = (Returns, W', w')"
  obtains W1 w1 where "log_lines E ss as W w = (Returns, W1, w1)" and "log_lines E ss bs W1 w1 = (Returns, W', w')"
  using assms unfolding log_lines_append by (auto split: prod.splits control.splits)

lemma io_log_writer:
  "io_log E ss b W w = (ctl, W', w') \<Longrightarrow>
   io_buff W' = io_buff W \<and> io_Log W' = io_Log W \<and> io_Level W' = io_Level W \<and> cells w' = cells w"
  using io_log_cells [of E ss b W w]
  by (auto simp: io_log_def Let_def split: prod.splits outcome.splits option.splits)

lemma log_lines_writer:
  "log_lines E ss ls W w = (ctl, W', w') \<Longrightarrow>
   io_buff W' = io_buff W \<and> io_Log W' = io_Log W \<and> io_Level W' = io_Level W \<and> cells w' = cells w"
  by (induction ls arbitrary: W w) (auto split: prod.splits control.splits dest!: io_log_writer)

lemma writeLine_newline:
  assumes "CHR 0x0A \<notin> set a" and "io_log E ss (io_buff W @ a) W w = (Returns, W', w')"
  shows "writeLine E ss (a @ CHR 0x0A # b) W w = (b, Returns, W'\<lparr>io_buff := []\<rparr>, w')"
proof -
  have i: "index_byte (CHR 0x0A) (a @ CHR 0x0A # b) = Some (length a)"
    using assms(1) by (induction a) auto
  have W': "io_buff W' = io_buff W" using io_log_writer [OF assms(2)] by simp
  show ?thesis
    using assms(2) W' io_log_buff [of E ss "io_buff W @ a" "io_buff W @ a" W w]
    by (auto simp: writeLine_def i io_flush_def)
qed

lemma write_lines_spec:
  assumes "log_lines E ss (fst (split_lines (io_buff W) bs)) W w = (Returns, W', w')"
  shows "write_lines E ss bs W w = (Returns, W'\<lparr>io_buff := snd (split_lines (io_buff W) bs)\<rparr>, w')"
  using assms
proof (induction "length bs" arbitrary: bs W w W' rule: less_induct)
  case less
  show ?case
  proof (cases "CHR 0x0A \<in> set bs")
    case False
    then have "index_byte (CHR 0x0A) bs = None" by simp
    then have "writeLine E ss bs W w = ([], Returns, W\<lparr>io_buff := io_buff W @ bs\<rparr>, w)"
      by (simp add: writeLine_def del: index_byte_None)
    then show ?thesis
      using split_lines_part [OF False, of "io_buff W" "[]"] less.prems
      by (cases "bs = []") (simp_all add: write_lines_step write_lines_Nil)
  next
    case True
    then obtain a b where bs: "bs = a @ CHR 0x0A # b" and a: "CHR 0x0A \<notin> set a"
      by (meson split_list_first)
    let ?s = "split_lines [] b"
    have s: "split_lines (io_buff W) bs = ((io_buff W @ a) # fst ?s, snd ?s)"
      by (simp add: bs split_lines_part [OF a] apfst_def map_prod_def split_def)
    obtain W1 w1 where l: "io_log E ss (io_buff W @ a) W w = (Returns, W1, w1)"
      and r: "log_lines E ss (fst ?s) W1 w1 = (Returns, W', w')"
      using log_lines_appendE [of E ss "[io_buff W @ a]" "fst ?s" W w W' w'] less.prems s
      by (auto split: prod.splits control.splits)
    have "write_lines E ss b (W1\<lparr>io_buff := []\<rparr>) w1 = (Returns, W'\<lparr>io_buff := snd ?s\<rparr>, w')"
      using less.hyps [of b "W1\<lparr>io_buff := []\<rparr>" w1] r
      by (simp add: bs log_lines_buff)
    then show ?thesis
      using writeLine_newline [OF a l, of b] s by (simp add: bs write_lines_step)
  qed
qed

text \<open>A sequence of calls of \<open>Write\<close>, up to the first that does not return.\<close>

primrec io_Writes ::
  "'v env \<Rightarrow> (nat \<Rightarrow> site) \<Rightarrow> bytes list \<Rightarrow> 'v Writer \<Rightarrow> ('v, 'z) world_scheme \<Rightarrow>
   control \<times> 'v Writer \<times> ('v, 'z) world_scheme" where
  "io_Writes E ss [] W w = (Returns, W, w)"
| "io_Writes E ss (b # bs) W w =
     (case io_Write E ss b W w of
        (_, Returns, W', w') \<Rightarrow> io_Writes E ss bs W' w'
      | (_, r) \<Rightarrow> r)"

lemma io_Writes_spec:
  assumes "core_Enabled (cells w) (l_core (io_Log W)) (io_Level W)"
    and "log_lines E ss (fst (split_lines (io_buff W) (concat bss))) W w = (Returns, W', w')"
  shows "io_Writes E ss bss W w = (Returns, W'\<lparr>io_buff := snd (split_lines (io_buff W) (concat bss))\<rparr>, w')"
  using assms
proof (induction bss arbitrary: W w W')
  case Nil
  then show ?case by simp
next
  case (Cons bs bss)
  obtain ls r where s1: "split_lines (io_buff W) bs = (ls, r)" by fastforce
  obtain ls' r' where s2: "split_lines r (concat bss) = (ls', r')" by fastforce
  have s: "split_lines (io_buff W) (concat (bs # bss)) = (ls @ ls', r')"
    using s1 s2 by (simp add: split_lines_append)
  obtain W1 w1 where l1: "log_lines E ss ls W w = (Returns, W1, w1)"
    and l2: "log_lines E ss ls' W1 w1 = (Returns, W', w')"
    using log_lines_appendE [of E ss ls ls' W w W' w'] Cons.prems(2) s by (metis fst_conv)
  have W1: "write_lines E ss bs W w = (Returns, W1\<lparr>io_buff := r\<rparr>, w1)"
    using write_lines_spec [of E ss W bs w W1 w1] l1 s1 by simp
  have en: "core_Enabled (cells w1) (l_core (io_Log (W1\<lparr>io_buff := r\<rparr>))) (io_Level (W1\<lparr>io_buff := r\<rparr>))"
    using Cons.prems(1) log_lines_writer [OF l1] by simp
  have "io_Writes E ss bss (W1\<lparr>io_buff := r\<rparr>) w1 = (Returns, W'\<lparr>io_buff := r'\<rparr>, w')"
    using Cons.IH [OF en] l2 s2 by (simp add: log_lines_buff)
  then show ?case
    using Cons.prems(1) W1 s by (simp add: io_Write_def)
qed

lemma io_Close_spec:
  fixes W :: "'v Writer"
  assumes "io_buff W = []"
  shows "snd (io_Close E ss (W\<lparr>io_buff := r\<rparr>) w) =
    (if r = [] then (Returns, W, w)
     else case io_log E ss r W w of
       (Returns, W', w') \<Rightarrow> (Returns, W', w')
     | (ctl, W', w') \<Rightarrow> (ctl, W'\<lparr>io_buff := r\<rparr>, w'))"
proof -
  have same: "V\<lparr>io_buff := []\<rparr> = V" if "io_buff V = []" for V :: "'v Writer"
    using that by (cases V) simp
  obtain ctl W1 w1 where l: "io_log E ss r W w = (ctl, W1, w1)" by (metis prod.exhaust)
  have "W1\<lparr>io_buff := []\<rparr> = W1" using same io_log_writer [OF l] assms by simp
  then show ?thesis
    using same [OF assms] l
    by (cases ctl) (simp_all add: io_Close_def io_Sync_def io_flush_def io_log_buff)
qed

section \<open>Properties\<close>

text \<open>
  C13: however a text is cut into calls of \<open>Write\<close>, the writer logs exactly its lines, each once, in
  order and without the newline, empty ones included; what follows the last newline stays in
  the buffer and is logged by \<open>Close\<close> unless it is empty.
\<close>

theorem ladio_logs_lines:
  assumes "core_Enabled (cells w) (l_core (io_Log W)) (io_Level W)"
    and "io_buff W = []" and "list_all (\<lambda>l. CHR 0x0A \<notin> set l) ls" and "CHR 0x0A \<notin> set r"
    and "concat chunks = concat (map (\<lambda>l. l @ [CHR 0x0A]) ls) @ r"
    and "log_lines E ss ls W w = (Returns, W', w')"
  shows "io_Writes E ss chunks W w = (Returns, W'\<lparr>io_buff := r\<rparr>, w') \<and>
    snd (io_Close E ss (W'\<lparr>io_buff := r\<rparr>) w') =
      (if r = [] then (Returns, W', w')
       else case io_log E ss r W' w' of
         (Returns, W'', w'') \<Rightarrow> (Returns, W'', w'')
       | (ctl, W'', w'') \<Rightarrow> (ctl, W''\<lparr>io_buff := r\<rparr>, w''))"
proof -
  have s: "split_lines (io_buff W) (concat chunks) = (ls, r)"
    unfolding assms(2,5) by (rule split_lines_lines [OF assms(3,4)])
  have b: "io_buff W' = []" using log_lines_writer [OF assms(6)] assms(2) by simp
  have "io_Writes E ss chunks W w = (Returns, W'\<lparr>io_buff := r\<rparr>, w')"
    using io_Writes_spec [OF assms(1), of E ss chunks W' w'] s assms(6) by simp
  then show ?thesis using io_Close_spec [OF b, of E ss r w'] by blast
qed

definition sample_writer :: "nat Writer" where
  "sample_writer = \<lparr>io_Log = NewNop\<lparr>l_core := contextObserver (LevelE InfoLevel) 0 []\<rparr>, io_Level = InfoLevel,
     io_buff = [], io_calls = 0\<rparr>"

lemma sample_log:
  assumes "io_Log W = io_Log sample_writer" and "io_Level W = InfoLevel"
  shows "io_log sample_env ss b W w = (Returns, W\<lparr>io_calls := Suc (io_calls W)\<rparr>,
    w\<lparr>observed := (observed w)(0 := observed w 0 @ [(log_entry (io_Log W) InfoLevel b (ss (io_calls W)), [])])\<rparr>)"
proof -
  have "\<not> enab_Enabled (cells w) (LevelE (Level (lvl FatalLevel + 1))) InfoLevel"
    by (simp add: enab_Enabled_def Level_Enabled_def level_simps)
  then have a: "annotate sample_env (io_Log sample_writer) s ent ce w =
      (ce\<lparr>ErrorOutput := Some (errorOutput (io_Log sample_writer))\<rparr>, w)"
    if "ent_Level (ce_Entry ce) = InfoLevel" for s ent ce
    using that by (simp add: annotate_def sample_writer_def NewNop_def Let_def)
  have h: "terminal_hook (io_Log sample_writer) InfoLevel = None"
    by (simp add: terminal_hook_def level_simps)
  have c: "l_core (io_Log sample_writer) = contextObserver (LevelE InfoLevel) 0 []"
    by (simp add: sample_writer_def)
  have e: "ent_Level (log_entry log InfoLevel b s) = InfoLevel" for log :: "nat Logger" and s
    by (simp add: log_entry_def)
  show ?thesis
    using sample_levels(1) [of "cells w"]
    by (simp add: io_log_def Logger_Check_def Logger_check_def assms c h a e AddCore_def getCheckedEntry_def
        ce_reset_def pooled_def ce_Write_def Let_def multierr_simps [OF sample_multierr])
qed

theorem ladio_logs_lines_witness:
  "fst (io_Writes sample_env (\<lambda>_. sample_site) [''a'', ''b'' @ [CHR 0x0A], [CHR 0x0A], ''c''] sample_writer sample_world) = Returns \<and>
   map (\<lambda>e. ent_Message (fst e)) (ObservedLogs_All 0
     (snd (snd (io_Writes sample_env (\<lambda>_. sample_site) [''a'', ''b'' @ [CHR 0x0A], [CHR 0x0A], ''c''] sample_writer sample_world))))
   = [''ab'', []]"
proof -
  have i: "io_Log (sample_writer\<lparr>io_calls := n\<rparr>) = io_Log sample_writer" "io_Level (sample_writer\<lparr>io_calls := n\<rparr>) = InfoLevel"
    "io_Level sample_writer = InfoLevel" for n
    by (simp_all add: sample_writer_def)
  obtain W' w' where l: "log_lines sample_env (\<lambda>_. sample_site) [''ab'', []] sample_writer sample_world = (Returns, W', w')"
    and m: "map (\<lambda>e. ent_Message (fst e)) (observed w' 0) = [''ab'', []]"
    by (simp add: sample_log i log_entry_def)
  have "core_Enabled (cells sample_world) (l_core (io_Log sample_writer)) (io_Level sample_writer)"
    "io_buff sample_writer = []"
    using sample_levels by (simp_all add: sample_writer_def)
  then show ?thesis
    using ladio_logs_lines [OF _ _ _ _ _ l, of "''c''" "[''a'', ''b'' @ [CHR 0x0A], [CHR 0x0A], ''c'']"] m
    by (simp add: ObservedLogs_All_def)
qed

end
