(* ===== verification/Lad_Ztest.thy ===== *)
theory Lad_Ztest
  imports Lad_Kit Lad_Io Lad_Float
begin

text \<open>
  What tests of logging use: the stub for the exit of the process (\<open>internal/exit/exit.go\<close>), the scaled timeouts
  and the writers of \<open>internal/ztest\<close>, the logger for package \<open>testing\<close> (\<open>ladtest/logger.go\<close>), and the small
  files \<open>exp/zapfield/zapfield.go\<close>, \<open>time.go\<close> and \<open>flag.go\<close>.
\<close>

section \<open>Exit of the process\<close>

text \<open>The function behind \<open>exit.With\<close> is \<open>os.Exit\<close> or the method of a stub, which is known by a number.\<close>

datatype exit_fn = OsExit | StubExit nat

record StubbedExit =
  Exited :: bool
  Code :: int
  prev :: exit_fn

record exits =
  exit_with :: exit_fn
  stubs :: "StubbedExit list"

definition stub_exit :: "nat \<Rightarrow> int \<Rightarrow> exits \<Rightarrow> exits" where
  "stub_exit i code x = x\<lparr>stubs := (stubs x)[i := (stubs x ! i)\<lparr>Exited := True, Code := code\<rparr>]\<rparr>"

text \<open>\<open>Inl\<close> is the end of the process.\<close>

definition exit_With :: "int \<Rightarrow> exits \<Rightarrow> int + exits" where
  "exit_With code x = (case exit_with x of OsExit \<Rightarrow> Inl code | StubExit i \<Rightarrow> Inr (stub_exit i code x))"

definition exit_Stub :: "exits \<Rightarrow> nat \<times> exits" where
  "exit_Stub x =
     (let i = length (stubs x) in
      (i, x\<lparr>exit_with := StubExit i, stubs := stubs x @ [\<lparr>Exited = False, Code = 0, prev = exit_with x\<rparr>]\<rparr>))"

definition Unstub :: "nat \<Rightarrow> exits \<Rightarrow> exits" where
  "Unstub i x = x\<lparr>exit_with := prev (stubs x ! i)\<rparr>"

definition WithStub :: "(exits \<Rightarrow> int + exits) \<Rightarrow> exits \<Rightarrow> int + nat \<times> exits" where
  "WithStub f x =
     (case exit_Stub x of
        (i, x') \<Rightarrow>
          (case f x' of
             Inl code \<Rightarrow> Inl code
           | Inr x'' \<Rightarrow> Inr (i, Unstub i x'')))"

text \<open>What a call that ends in a certain way does to the process.\<close>

definition exits_of :: "control \<Rightarrow> exits \<Rightarrow> int + exits" where
  "exits_of ctl x = (case ctl of Exits code \<Rightarrow> exit_With code x | _ \<Rightarrow> Inr x)"

lemma WithStub_exits_of:
  "\<exists>x'. WithStub (exits_of ctl) x = Inr (length (stubs x), x') \<and> exit_with x' = exit_with x \<and>
     take (length (stubs x)) (stubs x') = stubs x \<and>
     Exited (stubs x' ! length (stubs x)) = (case ctl of Exits _ \<Rightarrow> True | _ \<Rightarrow> False) \<and>
     Code (stubs x' ! length (stubs x)) = (case ctl of Exits code \<Rightarrow> code | _ \<Rightarrow> 0)"
  by (cases ctl) (simp_all add: WithStub_def exit_Stub_def exits_of_def exit_With_def stub_exit_def Unstub_def Let_def)

section \<open>Timeouts\<close>

text \<open>
  The scale is the bit pattern of a float; the conversion of a product that is not a number, or does
  not fit, depends on the processor and is left open.
\<close>

definition ztest_Timeout :: "nat \<Rightarrow> int64 \<Rightarrow> int64 option" where
  "ztest_Timeout timeoutScale bas =
     (if \<not> f_finite F64 timeoutScale then None
      else let x = f64_mul (f64_of_int (sint bas)) timeoutScale; i = f64_trunc x in
           if f_finite F64 x \<and> - (2 ^ 63) \<le> i \<and> i < 2 ^ 63 then Some (word_of_int i) else None)"

text \<open>\<open>slept\<close> lists the pauses of the program.\<close>

definition ztest_Sleep :: "nat \<Rightarrow> int64 \<Rightarrow> int64 option list \<Rightarrow> int64 option list" where
  "ztest_Sleep timeoutScale bas slept = slept @ [ztest_Timeout timeoutScale bas]"

text \<open>The function that \<open>Initialize\<close> returns is represented by the scale that it restores.\<close>

definition ztest_Initialize :: "(bytes \<Rightarrow> error + nat) \<Rightarrow> bytes \<Rightarrow> nat \<Rightarrow> (nat \<times> nat) outcome" where
  "ztest_Initialize ParseFloat factor timeoutScale =
     (case ParseFloat factor of
        Inl err \<Rightarrow> Panic (err_fmt err)
      | Inr fv \<Rightarrow> let original = timeoutScale in Ok (original, fv))"

definition ztest_init :: "(bytes \<Rightarrow> error + nat) \<Rightarrow> bytes \<Rightarrow> nat \<Rightarrow> nat outcome" where
  "ztest_init ParseFloat v timeoutScale =
     (if v \<noteq> [] then map_outcome snd (ztest_Initialize ParseFloat v timeoutScale) else Ok timeoutScale)"

definition initial_timeoutScale :: nat where
  "initial_timeoutScale = f64_of_int 1"

text \<open>Unscaled, durations below \<open>2 ^ 53\<close> nanoseconds (104 days) survive the way through a float.\<close>

lemma ztest_Timeout_unscaled:
  assumes "\<bar>sint bas\<bar> < 2 ^ 53"
  shows "ztest_Timeout initial_timeoutScale bas = Some bas"
proof -
  have "f_finite F64 (f64_of_int 1)" using f64_exact(3) [of 1 False 0] by (simp add: f64_of_int_def)
  then show ?thesis
    using f64_mul_one [OF assms] assms by (auto simp: ztest_Timeout_def initial_timeoutScale_def Let_def)
qed

text \<open>A scale of zero cuts every wait to nothing.\<close>

lemma ztest_Timeout_zero: "ztest_Timeout 0 bas = Some 0"
  by (simp add: ztest_Timeout_def f_finite_def f_mag_def f64_mul_def f_ratio_def f_round_def f64_trunc_def inf_bits_def
    exp_mask_def sign_bit_def f_neg_def Let_def split: prod.splits)

section \<open>Writers\<close>

record Syncer =
  sync_err :: "error option"
  sync_called :: bool

definition Syncer_SetError :: "error option \<Rightarrow> Syncer \<Rightarrow> Syncer" where
  "Syncer_SetError err s = s\<lparr>sync_err := err\<rparr>"

definition Syncer_Sync :: "Syncer \<Rightarrow> error option \<times> Syncer" where
  "Syncer_Sync s = (sync_err s, s\<lparr>sync_called := True\<rparr>)"

definition Syncer_Called :: "Syncer \<Rightarrow> bool" where
  "Syncer_Called s = sync_called s"

definition Discarder_Write :: "bytes \<Rightarrow> int \<times> error option" where
  "Discarder_Write b = (int (length b), None)"

definition FailWriter_Write :: "bytes \<Rightarrow> int \<times> error option" where
  "FailWriter_Write b = (int (length b), Some (errors_new ''failed''))"

definition ShortWriter_Write :: "bytes \<Rightarrow> int \<times> error option" where
  "ShortWriter_Write b = (int (length b) - 1, None)"

text \<open>\<open>strings.Split\<close> at newlines.\<close>

fun split_nl :: "bytes \<Rightarrow> bytes \<Rightarrow> bytes list" where
  "split_nl acc [] = [acc]"
| "split_nl acc (c # cs) = (if c = CHR 0x0A then acc # split_nl [] cs else split_nl (acc @ [c]) cs)"

definition Buffer_Lines :: "bytes \<Rightarrow> bytes list" where
  "Buffer_Lines b = (let output = split_nl [] b in take (length output - 1) output)"

definition TrimRight_nl :: "bytes \<Rightarrow> bytes" where
  "TrimRight_nl b = rev (dropWhile (\<lambda>c. c = CHR 0x0A) (rev b))"

definition Buffer_Stripped :: "bytes \<Rightarrow> bytes" where
  "Buffer_Stripped b = TrimRight_nl b"

lemma split_nl_split_lines: "split_nl acc b = (case split_lines acc b of (ls, r) \<Rightarrow> ls @ [r])"
  by (induction acc b rule: split_nl.induct) (auto split: prod.splits)

text \<open>Writing lines to a buffer and reading them back, whatever follows the last newline.\<close>

lemma Buffer_Lines_roundtrip:
  assumes "list_all (\<lambda>l. CHR 0x0A \<notin> set l) ls" and "CHR 0x0A \<notin> set r"
  shows "Buffer_Lines (concat (map (\<lambda>l. l @ [CHR 0x0A]) ls) @ r) = ls"
  using split_lines_lines [OF assms] by (simp add: Buffer_Lines_def split_nl_split_lines Let_def)

text \<open>\<open>Stripped\<close> removes every newline at the end, not only the last.\<close>

lemma Buffer_Stripped_all:
  assumes "s = [] \<or> last s \<noteq> CHR 0x0A"
  shows "Buffer_Stripped (s @ replicate n (CHR 0x0A)) = s"
proof -
  have "dropWhile (\<lambda>c. c = CHR 0x0A) (replicate n (CHR 0x0A) @ rev s) = rev s"
    using assms by (induction n) (auto simp: dropWhile_eq_self_iff hd_rev)
  then show ?thesis by (simp add: Buffer_Stripped_def TrimRight_nl_def)
qed

section \<open>The logger for tests\<close>

record testing =
  t_logs :: "bytes list"
  t_failed :: bool

record TestingWriter =
  markFailed :: bool

definition NewTestingWriter :: TestingWriter where
  "NewTestingWriter = \<lparr>markFailed = False\<rparr>"

definition WithMarkFailed :: "bool \<Rightarrow> TestingWriter \<Rightarrow> TestingWriter" where
  "WithMarkFailed v tw = tw\<lparr>markFailed := v\<rparr>"

definition TestingWriter_Write :: "TestingWriter \<Rightarrow> bytes \<Rightarrow> testing \<Rightarrow> (nat \<times> error option) \<times> testing" where
  "TestingWriter_Write tw p t =
     (let n = length p; t = t\<lparr>t_logs := t_logs t @ [TrimRight_nl p]\<rparr>
      in ((n, None), if markFailed tw then t\<lparr>t_failed := True\<rparr> else t))"

definition TestingWriter_Sync :: "TestingWriter \<Rightarrow> error option" where
  "TestingWriter_Sync tw = None"

datatype 'v LoggerOption = LevelOpt enabler | WrapOptions "'v Option list"

record 'v loggerOptions =
  lo_Level :: enabler
  ladOptions :: "'v Option list"

primrec applyLoggerOption :: "'v LoggerOption \<Rightarrow> 'v loggerOptions \<Rightarrow> 'v loggerOptions" where
  "applyLoggerOption (LevelOpt enab) opts = opts\<lparr>lo_Level := enab\<rparr>"
| "applyLoggerOption (WrapOptions ladOpts) opts = opts\<lparr>ladOptions := ladOpts\<rparr>"

text \<open>
  The two writers of the logger are the destinations \<open>out\<close> and \<open>err\<close>; what they got ends up in the
  test as \<open>tests_see\<close> says.
\<close>

definition ladtest_NewLogger ::
  "'v env \<Rightarrow> nat \<Rightarrow> nat \<Rightarrow> 'v LoggerOption list \<Rightarrow> ('v, 'z) world_scheme \<Rightarrow> 'v Logger outcome \<times> ('v, 'z) world_scheme"
where
  "ladtest_NewLogger E out err opts w =
     (let cfg = fold applyLoggerOption opts \<lparr>lo_Level = LevelE DebugLevel, ladOptions = []\<rparr> in
      Logger_New E
        (Some (NewCore (ConsoleEnc (NewConsoleEncoder E (NewDevelopmentEncoderConfig E))) (Sink out) (lo_Level cfg)))
        (ErrorOutputOpt (Sink err) # ladOptions cfg) w)"

definition tests_see :: "TestingWriter \<Rightarrow> bytes list \<Rightarrow> testing \<Rightarrow> testing" where
  "tests_see tw = fold (\<lambda>p t. snd (TestingWriter_Write tw p t))"

text \<open>
  A message of a logger for tests at an enabled level becomes one message of the test, without the
  newline at its end, and does not fail the test.
\<close>

lemma ladtest_logs:
  assumes "fields_calm E fs" and "out \<noteq> err" and "lv \<le> l"
  shows "\<exists>log line. ladtest_NewLogger E out err [LevelOpt (LevelE lv)] w = (Ok log, w) \<and>
    s_calls (sinks (snd (Logger_Log E log l msg fs s w)) out) = s_calls (sinks w out) @ [line] \<and>
    tests_see NewTestingWriter [line] t = t\<lparr>t_logs := t_logs t @ [TrimRight_nl line]\<rparr>"
proof -
  obtain log where log: "ladtest_NewLogger E out err [LevelOpt (LevelE lv)] w = (Ok log, w)"
      "l_core log = NewTee [ioCore (LevelE lv) (ConsoleEnc (NewConsoleEncoder E (NewDevelopmentEncoderConfig E))) (Sink out)]"
      "errorOutput log = Sink err"
    by (simp add: ladtest_NewLogger_def Logger_New_def NewCore_def NewTee_def Let_def)
  obtain ctl w' where lg: "Logger_Log E log l msg fs s w = (ctl, w')" by (metis prod.exhaust)
  let ?c = "ioCore (LevelE lv) (ConsoleEnc (NewConsoleEncoder E (NewDevelopmentEncoderConfig E))) (Sink out)"
  have st: "list_all (steady E fs) [?c]"
    using console_core_steady(1) [OF console_coreI(1) assms(1)] by simp
  have o: "out \<notin> set (ws_sinks (errorOutput log))" using assms(2) log(3) by simp
  from Logger_Log_steady [OF log(2) st o lg] obtain ent where
    "s_calls (sinks w' out) = s_calls (sinks w out) @ concat (map (core_calls E ent fs out)
      (filter (\<lambda>c. core_Enabled (cells w) c l) [?c]))" by auto
  moreover obtain line where "core_calls E ent fs out ?c = [line]"
    using console_core_steady(2) [OF console_coreI(1) [of E lv _ out] assms(1), of ent out] by auto
  moreover have "core_Enabled (cells w) ?c l" using assms(3) by (simp add: enab_Enabled_def Level_Enabled_def)
  ultimately show ?thesis
    using log(1) lg by (auto simp: tests_see_def TestingWriter_Write_def NewTestingWriter_def Let_def)
qed

section \<open>String-like fields\<close>

definition zapfield_Str :: "bytes \<Rightarrow> bytes \<Rightarrow> 'v Field" where
  "zapfield_Str k v = String k v"

definition zapfield_stringArray :: "bytes list \<Rightarrow> 'v arr_prog" where
  "zapfield_stringArray a = append_each (\<lambda>x. APrim (PString x)) a"

definition Strs :: "bytes \<Rightarrow> bytes list \<Rightarrow> 'v Field" where
  "Strs k v = Array k (IArr (zapfield_stringArray v))"

section \<open>Milliseconds\<close>

definition timeToMillis :: "time \<Rightarrow> int64" where
  "timeToMillis t = word_of_int (quot (sint (UnixNano t)) 1000000)"

text \<open>The quotient fits, so nothing wraps; it is rounded towards zero, also before 1970.\<close>

lemma timeToMillis_exact: "sint (timeToMillis t) = quot (sint (UnixNano t)) 1000000"
proof -
  let ?n = "sint (UnixNano t)"
  have "- (2 ^ 63) \<le> ?n" "?n < 2 ^ 63" using sint_ge [of "UnixNano t"] sint_lt [of "UnixNano t"] by simp_all
  then have "- (2 ^ 63) \<le> quot ?n 1000000" "quot ?n 1000000 < 2 ^ 63" by (auto simp: quot_def)
  then show ?thesis by (simp add: timeToMillis_def sint_sbintrunc' signed_take_bit_int_eq_self)
qed

section \<open>A level as a flag\<close>

text \<open>
  The flags of the program, those of a level with its value; \<open>flag.Var\<close> panics on a bad or a repeated
  name.
\<close>

type_synonym flags = "bytes \<rightharpoonup> level option"

definition LevelFlag :: "(bytes \<Rightarrow> bytes) \<Rightarrow> bytes \<Rightarrow> bytes \<Rightarrow> level \<Rightarrow> flags \<Rightarrow> flags outcome" where
  "LevelFlag quote prog name defaultLevel fl =
     (if prefix ''-'' name then Panic (''flag '' @ quote name @ '' begins with -'')
      else if CHR ''='' \<in> set name then Panic (''flag '' @ quote name @ '' contains ='')
      else if fl name \<noteq> None then Panic (prog @ '' flag redefined: '' @ name)
      else Ok (fl(name \<mapsto> Some defaultLevel)))"

text \<open>What \<open>flag.Set\<close> does to such a flag: it calls the method \<open>Set\<close> of the level.\<close>

definition flag_Set :: "(bytes \<Rightarrow> bytes) \<Rightarrow> bytes \<Rightarrow> bytes \<Rightarrow> flags \<Rightarrow> level_error option \<times> flags" where
  "flag_Set uni name s fl =
     (case fl name of
        Some (Some l) \<Rightarrow> (case Level_Set uni (Some l) s of (l', err) \<Rightarrow> (err, fl(name \<mapsto> l')))
      | _ \<Rightarrow> (None, fl))"

lemma LevelFlag_Set:
  assumes "LevelFlag quote prog name d fl = Ok fl'"
  shows "fl' name = Some (Some d)"
    and "ParseLevel uni s = (l, None) \<Longrightarrow> flag_Set uni name s fl' = (None, fl'(name \<mapsto> Some l))"
    and "ParseLevel uni s = (l, Some e) \<Longrightarrow> flag_Set uni name s fl' = (Some e, fl')"
  using assms
  by (auto simp: LevelFlag_def flag_Set_def Level_Set_def ParseLevel_def UnmarshalText_def fun_upd_idem
    split: if_splits option.splits)

end
