(* ===== verification/Spec2Isabelle.thy ===== *)
theory Spec2Isabelle
  imports Lad_Json_Correct Lad_Buffered Lad_Grpc Lad_Slog Lad_Clock Lad_Pool Lad_Readme Lad_Ztest
begin

text \<open>
  \<^bold>\<open>A verification of the logging library lad.\<close>

  lad turns a call such as \<open>logger.Info("hi", String("k", "v"))\<close> into one line of text at every
  destination that wants it.  The parts and their order in a call:

  \<^item> a logger (\<open>logger.go\<close>, \<open>options.go\<close>) makes an entry and asks its core whether to log it.  The call may come
    through the sugared interface (\<open>sugar.go\<close>), a writer of lines (\<open>ladio/writer.go\<close>), the standard
    logger (\<open>global.go\<close>), gRPC (\<open>ladgrpc\<close>) or \<open>log/slog\<close> (\<open>exp/zapslog\<close>);
  \<^item> a core (\<open>ladcore/core.go\<close>, \<open>tee.go\<close>, \<open>hook.go\<close>, \<open>increase_level.go\<close>, \<open>lazy_with.go\<close>,
    \<open>sampler.go\<close>, \<open>ladtest/observer\<close>) registers with a checked entry (\<open>ladcore/entry.go\<close>), which then
    writes to all registered cores and runs the terminal hook;
  \<^item> an encoder (\<open>ladcore/json_encoder.go\<close>, \<open>console_encoder.go\<close>, \<open>memory_encoder.go\<close>) turns the entry,
    the context and the fields (\<open>field.go\<close>, \<open>array.go\<close>, \<open>error.go\<close>, \<open>ladcore/field.go\<close>) into bytes;
  \<^item> write syncers (\<open>ladcore/write_syncer.go\<close>, \<open>buffered_write_syncer.go\<close>) carry the bytes on;
  \<^item> a configuration (\<open>config.go\<close>, \<open>encoder.go\<close>, \<open>sink.go\<close>, \<open>writer.go\<close>) builds such a logger from names
    and paths, and \<open>ladkit\<close> installs one as the global logger.

  \<^bold>\<open>Conventions.\<close>  A byte is a \<open>char\<close>, a Go string or slice of bytes a list of them, a sized integer a
  word, a float its bit pattern.  A call that may panic returns an \<open>outcome\<close>; an error is a value
  of type \<open>error\<close> with the behaviour of its methods.  Stateful code passes its state: the type
  \<open>world\<close> holds the destinations (\<open>sinks\<close>), the atomic levels (\<open>cells\<close>), the \<open>sync.Once\<close> values, the
  sampling counters and the observed logs, and pointers to these are indices.  What user code
  does when an encoder calls it is a program of encoder calls (\<open>obj_prog\<close>, \<open>arr_prog\<close>), so that one
  marshaler runs against every encoder.  Code that is not part of the repository is a
  parameter: the record \<open>env\<close> has the formatting of times, durations, floats and entries,
  \<open>encoding/json\<close> and \<open>multierr\<close>, and the record \<open>fmt\<close> has the printing functions.  What is needed of
  \<open>multierr.Append\<close> is the hypothesis \<open>multierr_ok\<close>, which \<open>sample_env\<close> satisfies.

  \<^bold>\<open>Theories.\<close>

  \<^descr> \<open>Lad_Prelude\<close>, \<open>Lad_Text\<close>, \<open>Lad_Float\<close>, \<open>Lad_Reader\<close>, \<open>Lad_Base64\<close>: types, decimal numbers, UTF-8,
    the escaping loop \<open>safeAppendStringLike\<close> (equal to byte-by-byte escaping, and read back by a
    reader), floats, a JSON reader with the trees whose text it reads, base64.
  \<^descr> \<open>Lad_Level\<close>: \<open>ladcore/level.go\<close>, \<open>level.go\<close>, \<open>level_strings.go\<close>, \<open>http_handler.go\<close>.  Parsing and
    printing of levels, \<open>LevelOf\<close>, atomic levels and the HTTP handler that changes them.
  \<^descr> \<open>Lad_Prog\<close>, \<open>Lad_Field\<close>: fields, their constructors, \<open>Any\<close> and \<open>AddTo\<close>.  A field delivers the value
    it was made of; panics of user methods stay inside.
  \<^descr> \<open>Lad_Buffer\<close>, \<open>Lad_Encoder\<close>: the buffer, the configuration, the encoders of levels, times,
    durations, callers and names, and their choice by name.
  \<^descr> \<open>Lad_Json\<close>, \<open>Lad_Json_Correct\<close>: the JSON encoder and the proof that its output is the text of a
    tree, hence read back as one object with the right members.
  \<^descr> \<open>Lad_Console\<close>: the memory encoder and the console encoder.
  \<^descr> \<open>Lad_WriteSyncer\<close>: destinations with arbitrary answers, locking and grouping.  The locale
    \<open>io_writer_contract\<close> states what \<open>io.Writer\<close> demands; sinks and all compositions satisfy it.
  \<^descr> \<open>Lad_Buffered\<close>: \<open>bufio.Writer\<close> and \<open>BufferedWriteSyncer\<close> over the locale \<open>write_syncer\<close>, and a step
    relation \<open>bstep\<close> for callers, the flush loop and \<open>Stop\<close>.  Order and wholeness of messages, the
    bound of the buffer, delivery by \<open>Sync\<close>, absence of deadlock and termination after \<open>Stop\<close>.
  \<^descr> \<open>Lad_Sampler\<close>: the counters, one window of them, and the race of resets as a step relation.
  \<^descr> \<open>Lad_Core\<close>, \<open>Lad_Core_Props\<close>: all cores as one datatype, \<open>With\<close>, \<open>Check\<close>, \<open>Write\<close>, \<open>Sync\<close>, checked
    entries, observed logs.  Levels are respected, \<open>With\<close> keeps them, lazy context equals eager
    context.
  \<^descr> \<open>Lad_Stack\<close>: \<open>internal/stacktrace\<close>.  The growing capture ends with the whole stack.
  \<^descr> \<open>Lad_Logger\<close>, \<open>Lad_Logger_Props\<close>: loggers, options, \<open>check\<close> and the methods per level.  Terminal
    levels do not return, a disabled level changes nothing, an entry reaches exactly the enabled
    cores, and, through all layers, \<open>With\<close> and \<open>Log\<close> write one JSON object.
  \<^descr> \<open>Lad_Sugar\<close>: the sugared logger does what the logger does.
  \<^descr> \<open>Lad_Io\<close>: the writer logs the lines of a text however it is cut.
  \<^descr> \<open>Lad_Sink\<close>: \<open>sink.go\<close>, \<open>writer.go\<close>.  URLs, the registry of sink factories and the opening of files; the
    state \<open>os\<close> records what was opened and closed.  The locale \<open>sink_factory\<close> states what a factory owes
    when it fails.  Opening several paths is all or nothing.
  \<^descr> \<open>Lad_Config\<close>: \<open>config.go\<close>, \<open>encoder.go\<close> and the constructors of \<open>logger.go\<close>.  A failed \<open>Build\<close> closes what
    it opened (unless the level is missing); the logger of \<open>NewProduction\<close> writes JSON.
  \<^descr> \<open>Lad_Global\<close>: \<open>global.go\<close>.  The global loggers and the redirection of package \<open>log\<close>.
  \<^descr> \<open>Lad_Grpc\<close>, \<open>Lad_Slog\<close>, \<open>Lad_Kit\<close>: the adapters to gRPC and \<open>log/slog\<close>, where groups nest as the calls say,
    and the setup of the global logger.
  \<^descr> \<open>Lad_Clock\<close>, \<open>Lad_Ztest\<close>: support for tests: the mock clock, which is right for tickers of one
    period and wrong for others, the stub of the process exit, scaled timeouts, test writers and
    the test logger, and the small files \<open>flag.go\<close>, \<open>time.go\<close> and \<open>exp/zapfield\<close>.
  \<^descr> \<open>Lad_Pool\<close>: the pools of buffers and encoders on an explicit heap.  However goroutines take, share out
    and return them, none sees the bytes of another, which is why the other theories may treat a
    buffer as a value.
  \<^descr> \<open>Lad_Readme\<close>: \<open>internal/readme\<close>, the generator of benchmark tables, whose result does not depend on
    the order in which Go visits a map.
  \<^descr> This theory: the property that spans the configuration, the global loggers, the sugared logger, the
    standard logger, the cores and the JSON encoder.

  \<^bold>\<open>Loops.\<close>  Every definition is total or a \<open>partial_function\<close> in \<open>option\<close> (the loop of \<open>bufio.Writer\<close>,
  the growing loop of \<open>Capture\<close> and the loop of \<open>MockClock.Add\<close>), where \<open>None\<close> means that the loop does not
  end.  For \<open>Capture\<close> and \<open>Add\<close> the theorems show that it ends, and for the buffer they show both that it ends over writers that
  satisfy their contract and that it does not over an empty group.  The JSON reader takes the
  length of its input as fuel, and each nested value uses up at least one byte.

  \<^bold>\<open>Concurrency.\<close>  Code under a mutex is one step of \<open>bstep\<close>, a load, an addition or a
  compare-and-swap is one step of \<open>inc_step\<close>, and an operation on a pool or a buffer is one step of
  \<open>pool_step\<close>, in which a goroutine may also panic at any point.  Everywhere else a call runs to its end before the
  next one.

  \<^bold>\<open>Not modelled.\<close>  The decoding of a \<open>Config\<close> by a JSON or YAML package, the parsing of a host in \<open>net/url\<close>,
  \<open>text/template\<close>, \<open>sort.Sort\<close>, the running of benchmarks and \<open>runtime.Callers\<close> are code of other
  packages and enter by their results or as parameters.  \<open>ladcore/clock.go\<close> only calls package \<open>time\<close>; the
  time of a call is part of its \<open>site\<close>.  The pools of slice encoders, error elements, stacks and checked
  entries have the form of the pools in \<open>Lad_Pool\<close> and are left at handing out reset objects.
  \<open>tools/tools.go\<close> has no code.
\<close>

section \<open>One line of JSON, whichever way a message comes in\<close>



end
